(* ===== verification/Lina_Prelude.thy ===== *)
theory Lina_Prelude
  imports Main "HOL-Library.Word" "HOL-Library.Char_ord" "HOL-Library.List_Lexorder"
begin

text \<open>
  Shared types and library functions of the development.
  Bytes are 8-bit words.  A Rust \<^verbatim>\<open>String\<close> or \<^verbatim>\<open>&str\<close> is a \<^typ>\<open>string\<close> whose
  characters are the bytes of its UTF-8 form, so that \<^const>\<open>length\<close> is Rust's \<^verbatim>\<open>len()\<close>.
  A \<^verbatim>\<open>Result\<close> is a sum, \<^const>\<open>Inl\<close> the error.  The second half of the theory gives the
  functions of Rust's standard library that the sources call (slices, iterators, strings,
  paths, little-endian integers, UTF-8).
\<close>

unbundle bit_operations_syntax

named_theorems op_defs \<open>definitions of the effectful operations\<close>
named_theorems keeps_intros \<open>which operations preserve a predicate on the world\<close>

type_synonym byte = "8 word"
type_synonym u16 = "16 word"
type_synonym u32 = "32 word"
type_synonym u64 = "64 word"

section \<open>Errors\<close>

text \<open>
  The kinds of \<^verbatim>\<open>std::io::ErrorKind\<close> the code constructs or inspects; a database error
  carries no structure the code looks at.  \<open>Panicked\<close> is a Rust panic, and
  \<open>Undefined_Behaviour\<close> marks an \<^verbatim>\<open>unsafe\<close> block used outside its safety contract.
\<close>

datatype io_kind = NotFound | InvalidData | InvalidInput | UnexpectedEof | OtherKind

datatype err = IoErr io_kind string | DbErr | Panicked | Undefined_Behaviour

type_synonym 'a res = "err + 'a"

definition is_ok :: "'e + 'a \<Rightarrow> bool" where
  "is_ok r = (case r of Inl _ \<Rightarrow> False | Inr _ \<Rightarrow> True)"

lemma is_ok_simps [simp]: "is_ok (Inr x)" "\<not> is_ok (Inl e)"
  by (simp_all add: is_ok_def)

lemma is_ok_iff: "is_ok r \<longleftrightarrow> (\<exists>x. r = Inr x)"
  by (cases r) auto

text \<open>\<^verbatim>\<open>iter().map(f).collect::<Result<Vec<_>, _>>()\<close>: the first error ends the collection.\<close>

fun traverse :: "('a \<Rightarrow> 'e + 'b) \<Rightarrow> 'a list \<Rightarrow> 'e + 'b list" where
  "traverse f [] = Inr []"
| "traverse f (x # xs) =
     (case f x of
        Inl e \<Rightarrow> Inl e
      | Inr y \<Rightarrow> (case traverse f xs of Inl e \<Rightarrow> Inl e | Inr ys \<Rightarrow> Inr (y # ys)))"

lemma traverse_Inr_iff:
  "traverse f xs = Inr ys \<longleftrightarrow> list_all2 (\<lambda>x y. f x = Inr y) xs ys"
proof (induction xs arbitrary: ys)
  case (Cons x xs)
  show ?case
  proof (cases "\<exists>y zs. f x = Inr y \<and> traverse f xs = Inr zs")
    case True
    then obtain y zs where "f x = Inr y" "traverse f xs = Inr zs" by blast
    with Cons.IH show ?thesis by (cases ys) auto
  next
    case False
    with Cons.IH show ?thesis by (cases ys) (auto split: sum.splits)
  qed
qed auto

lemma traverse_total: "(\<And>x. x \<in> set xs \<Longrightarrow> f x = Inr (g x)) \<Longrightarrow> traverse f xs = Inr (map g xs)"
  by (induction xs) auto

lemma traverse_map: "traverse f (map g xs) = traverse (f \<circ> g) xs"
  by (induction xs) (auto split: sum.splits)

lemma traverse_Inr_mem: "traverse f xs = Inr ys \<Longrightarrow> x \<in> set xs \<Longrightarrow> \<exists>y. f x = Inr y"
  by (induction xs arbitrary: ys) (auto split: sum.splits)

section \<open>Slices and iterators\<close>

text \<open>\<^verbatim>\<open>slice::chunks(n)\<close>; it panics for \<open>n = 0\<close>, and every call in the sources has a positive constant.\<close>

function chunks :: "nat \<Rightarrow> 'a list \<Rightarrow> 'a list list" where
  "chunks n xs = (if n = 0 \<or> xs = [] then [] else take n xs # chunks n (drop n xs))"
  by pat_completeness auto
termination
  by (relation "measure (\<lambda>(n, xs). length xs)") auto

declare chunks.simps [simp del]

lemma chunks_Nil [simp]: "chunks n [] = []"
  by (simp add: chunks.simps)

lemma chunks_Cons:
  "0 < n \<Longrightarrow> xs \<noteq> [] \<Longrightarrow> chunks n xs = take n xs # chunks n (drop n xs)"
  by (subst chunks.simps) simp

lemma concat_chunks [simp]: "0 < n \<Longrightarrow> concat (chunks n xs) = xs"
proof (induction n xs rule: chunks.induct)
  case (1 n xs)
  show ?case
  proof (cases "xs = []")
    case False
    with 1 show ?thesis by (simp add: chunks_Cons)
  qed simp
qed

lemma chunks_length_le: "c \<in> set (chunks n xs) \<Longrightarrow> length c \<le> n \<and> c \<noteq> []"
proof (induction n xs rule: chunks.induct)
  case (1 n xs)
  have "xs \<noteq> [] \<and> 0 < n"
    using "1.prems" by (subst (asm) chunks.simps) (auto split: if_splits)
  with 1 show ?case by (auto simp: chunks_Cons)
qed

lemma length_chunks: "0 < n \<Longrightarrow> length (chunks n xs) = (length xs + n - 1) div n"
proof (induction n xs rule: chunks.induct)
  case (1 n xs)
  show ?case
  proof (cases "xs = []")
    case True
    with "1.prems" show ?thesis by simp
  next
    case False
    then have pos: "0 < length xs" by simp
    have IH: "length (chunks n (drop n xs)) = (length xs - n + n - 1) div n"
      using 1 False by simp
    have "(length xs + n - 1) div n = Suc ((length xs - n + n - 1) div n)"
    proof (cases "n \<le> length xs")
      case True
      then have "length xs + n - 1 = (length xs - 1) + n" "length xs - n + n - 1 = length xs - 1"
        using pos by simp_all
      then show ?thesis using "1.prems" by (simp only: div_add_self2)
    next
      case False
      then have "(length xs + n - 1) div n = 1"
        using pos "1.prems" by (intro div_nat_eqI) (simp_all del: length_greater_0_conv)
      with False "1.prems" show ?thesis by simp
    qed
    with IH False "1.prems" show ?thesis by (simp add: chunks_Cons)
  qed
qed

text \<open>\<^verbatim>\<open>Iterator::position\<close> and \<^verbatim>\<open>find_map\<close>.\<close>

fun position :: "('a \<Rightarrow> bool) \<Rightarrow> 'a list \<Rightarrow> nat option" where
  "position p [] = None"
| "position p (x # xs) = (if p x then Some 0 else map_option Suc (position p xs))"

lemma position_None [simp]: "position p xs = None \<longleftrightarrow> (\<forall>x\<in>set xs. \<not> p x)"
  by (induction xs) auto

lemma position_SomeD:
  "position p xs = Some i \<Longrightarrow> i < length xs \<and> p (xs ! i) \<and> (\<forall>x\<in>set (take i xs). \<not> p x)"
  by (induction xs arbitrary: i) (auto split: if_splits)

lemma position_append:
  "(\<forall>x\<in>set xs. \<not> p x) \<Longrightarrow> position p (xs @ ys) = map_option ((+) (length xs)) (position p ys)"
  by (induction xs) (auto simp: option.map_comp comp_def option.map_ident cong: option.map_cong)

fun find_map :: "('a \<Rightarrow> 'b option) \<Rightarrow> 'a list \<Rightarrow> 'b option" where
  "find_map f [] = None"
| "find_map f (x # xs) = (case f x of None \<Rightarrow> find_map f xs | Some y \<Rightarrow> Some y)"

text \<open>\<^verbatim>\<open>Vec::resize(n, v)\<close> and \<^verbatim>\<open>slice[off..off + data.len()].copy_from_slice(data)\<close> in range.\<close>

definition resize :: "nat \<Rightarrow> 'a \<Rightarrow> 'a list \<Rightarrow> 'a list" where
  "resize n v xs = take n xs @ replicate (n - length xs) v"

definition splice :: "nat \<Rightarrow> 'a list \<Rightarrow> 'a list \<Rightarrow> 'a list" where
  "splice off data xs = take off xs @ data @ drop (off + length data) xs"

lemma length_resize [simp]: "length (resize n v xs) = n"
  by (auto simp: resize_def)

lemma resize_id [simp]: "resize (length xs) v xs = xs"
  by (simp add: resize_def)

lemma nth_resize: "i < n \<Longrightarrow> resize n v xs ! i = (if i < length xs then xs ! i else v)"
  by (auto simp: resize_def nth_append)

lemma length_splice:
  "off + length data \<le> length xs \<Longrightarrow> length (splice off data xs) = length xs"
  by (simp add: splice_def)

lemma nth_splice:
  "off + length data \<le> length xs \<Longrightarrow> i < length xs \<Longrightarrow>
   splice off data xs ! i = (if off \<le> i \<and> i < off + length data then data ! (i - off) else xs ! i)"
  by (auto simp: splice_def nth_append min_def)

section \<open>Hash maps\<close>

text \<open>A \<^verbatim>\<open>HashMap\<close> is an association list without repeated keys, in the order in which it happens to
  be iterated.\<close>

type_synonym ('k, 'v) hmap = "('k \<times> 'v) list"

definition hm_remove :: "'k \<Rightarrow> ('k, 'v) hmap \<Rightarrow> ('k, 'v) hmap" where
  "hm_remove k m = filter (\<lambda>e. fst e \<noteq> k) m"

definition hm_insert :: "'k \<Rightarrow> 'v \<Rightarrow> ('k, 'v) hmap \<Rightarrow> ('k, 'v) hmap" where
  "hm_insert k v m = (k, v) # hm_remove k m"

definition hm_ok :: "('k, 'v) hmap \<Rightarrow> bool" where
  "hm_ok m \<longleftrightarrow> distinct (map fst m)"

lemma hm_ok_Nil [simp]: "hm_ok []"
  by (simp add: hm_ok_def)

lemma hm_ok_remove [simp]: "hm_ok m \<Longrightarrow> hm_ok (hm_remove k m)"
  by (simp add: hm_ok_def hm_remove_def distinct_map_filter)

lemma hm_ok_insert [simp]: "hm_ok m \<Longrightarrow> hm_ok (hm_insert k v m)"
  by (auto simp: hm_ok_def hm_insert_def hm_remove_def distinct_map_filter)

lemma hm_ok_filter: "hm_ok m \<Longrightarrow> hm_ok (filter P m)"
  by (simp add: hm_ok_def distinct_map_filter)

lemma map_of_remove [simp]: "map_of (hm_remove k m) j = (if j = k then None else map_of m j)"
  by (induction m) (auto simp: hm_remove_def)

lemma map_of_insert [simp]: "map_of (hm_insert k v m) j = (if j = k then Some v else map_of m j)"
  by (simp add: hm_insert_def)

lemma map_of_filter:
  "hm_ok m \<Longrightarrow> map_of (filter P m) k =
     (case map_of m k of None \<Rightarrow> None | Some v \<Rightarrow> if P (k, v) then Some v else None)"
proof (induction m)
  case (Cons e m)
  then have "map_of m (fst e) = None" by (auto simp: hm_ok_def map_of_eq_None_iff)
  with Cons show ?case by (cases e) (auto simp: hm_ok_def split: option.splits)
qed simp

lemma hm_mem: "hm_ok m \<Longrightarrow> (k, v) \<in> set m \<longleftrightarrow> map_of m k = Some v"
  by (simp add: hm_ok_def)

section \<open>Characters, bytes and UTF-8\<close>

definition char_byte :: "char \<Rightarrow> byte" where
  "char_byte c = of_char c"

definition byte_char :: "byte \<Rightarrow> char" where
  "byte_char b = char_of (unat b)"

lemma unat_char_byte: "unat (char_byte c) = of_char c"
proof -
  have "char_byte c = word_of_nat (of_char c)"
    by (simp add: char_byte_def of_nat_of_char)
  moreover have "of_char c < (256 :: nat)" by simp
  ultimately show ?thesis by (simp add: unat_word_ariths(1) unat_of_nat)
qed

lemma byte_char_char_byte [simp]: "byte_char (char_byte c) = c"
  by (simp add: byte_char_def unat_char_byte)

lemma char_byte_byte_char [simp]: "char_byte (byte_char b) = b"
proof -
  have "unat (char_byte (byte_char b)) = unat b"
    using unsigned_less [of b, where 'a = nat] by (simp add: unat_char_byte byte_char_def)
  then show ?thesis by (rule word_unat_eq_iff [THEN iffD2])
qed

text \<open>\<^verbatim>\<open>str::as_bytes\<close> and its inverse.\<close>

definition as_bytes :: "string \<Rightarrow> byte list" where
  "as_bytes s = map char_byte s"

definition of_bytes :: "byte list \<Rightarrow> string" where
  "of_bytes bs = map byte_char bs"

lemma of_bytes_as_bytes [simp]: "of_bytes (as_bytes s) = s"
  by (simp add: of_bytes_def as_bytes_def comp_def)

lemma as_bytes_of_bytes [simp]: "as_bytes (of_bytes bs) = bs"
  by (simp add: of_bytes_def as_bytes_def comp_def)

lemma length_as_bytes [simp]: "length (as_bytes s) = length s"
  by (simp add: as_bytes_def)

lemma length_of_bytes [simp]: "length (of_bytes bs) = length bs"
  by (simp add: of_bytes_def)

text \<open>
  UTF-8: \<open>utf8_chunk bs\<close> looks at the start of a non-empty byte list and returns whether a
  well-formed sequence starts there, with its length, or an ill-formed one, with the length of
  its maximal ill-formed prefix (the part that \<^verbatim>\<open>String::from_utf8_lossy\<close> replaces by one
  U+FFFD).
\<close>

definition utf8_cont :: "byte \<Rightarrow> bool" where
  "utf8_cont b \<longleftrightarrow> 0x80 \<le> b \<and> b \<le> 0xBF"

definition byte_at :: "byte list \<Rightarrow> nat \<Rightarrow> byte" where
  "byte_at bs i = (if i < length bs then bs ! i else 0)"

definition utf8_second :: "byte \<Rightarrow> byte \<Rightarrow> bool" where
  "utf8_second b c \<longleftrightarrow>
     (if b = 0xE0 then 0xA0 \<le> c \<and> c \<le> 0xBF
      else if b = 0xED then 0x80 \<le> c \<and> c \<le> 0x9F
      else if b = 0xF0 then 0x90 \<le> c \<and> c \<le> 0xBF
      else if b = 0xF4 then 0x80 \<le> c \<and> c \<le> 0x8F
      else utf8_cont c)"

definition utf8_chunk :: "byte list \<Rightarrow> bool \<times> nat" where
  "utf8_chunk bs =
     (let b = byte_at bs 0 in
      if b < 0x80 then (True, 1)
      else if 0xC2 \<le> b \<and> b \<le> 0xDF then
        (if utf8_cont (byte_at bs 1) then (True, 2) else (False, 1))
      else if 0xE0 \<le> b \<and> b \<le> 0xEF then
        (if \<not> utf8_second b (byte_at bs 1) then (False, 1)
         else if \<not> utf8_cont (byte_at bs 2) then (False, 2) else (True, 3))
      else if 0xF0 \<le> b \<and> b \<le> 0xF4 then
        (if \<not> utf8_second b (byte_at bs 1) then (False, 1)
         else if \<not> utf8_cont (byte_at bs 2) then (False, 2)
         else if \<not> utf8_cont (byte_at bs 3) then (False, 3) else (True, 4))
      else (False, 1))"

lemma utf8_chunk_pos: "0 < snd (utf8_chunk bs)"
  by (simp add: utf8_chunk_def Let_def)

lemma utf8_chunk_ascii: "b < 0x80 \<Longrightarrow> utf8_chunk (b # bs) = (True, 1)"
  by (simp add: utf8_chunk_def byte_at_def)

function utf8_valid :: "byte list \<Rightarrow> bool" where
  "utf8_valid bs =
     (if bs = [] then True
      else fst (utf8_chunk bs) \<and> utf8_valid (drop (snd (utf8_chunk bs)) bs))"
  by pat_completeness auto
termination
  by (relation "measure length") (auto simp: utf8_chunk_pos)

function utf8_lossy :: "byte list \<Rightarrow> byte list" where
  "utf8_lossy bs =
     (if bs = [] then []
      else (if fst (utf8_chunk bs) then take (snd (utf8_chunk bs)) bs else [0xEF, 0xBF, 0xBD]) @
           utf8_lossy (drop (snd (utf8_chunk bs)) bs))"
  by pat_completeness auto
termination
  by (relation "measure length") (auto simp: utf8_chunk_pos)

declare utf8_valid.simps [simp del] utf8_lossy.simps [simp del]

text \<open>\<^verbatim>\<open>std::str::from_utf8\<close> and \<^verbatim>\<open>String::from_utf8_lossy\<close>.\<close>

definition from_utf8 :: "byte list \<Rightarrow> string option" where
  "from_utf8 bs = (if utf8_valid bs then Some (of_bytes bs) else None)"

definition from_utf8_lossy :: "byte list \<Rightarrow> string" where
  "from_utf8_lossy bs = of_bytes (utf8_lossy bs)"

lemma utf8_lossy_valid: "utf8_valid bs \<Longrightarrow> utf8_lossy bs = bs"
proof (induction bs rule: utf8_lossy.induct)
  case (1 bs)
  show ?case
  proof (cases "bs = []")
    case True
    then show ?thesis by (simp add: utf8_lossy.simps)
  next
    case False
    with "1.prems" have "fst (utf8_chunk bs)" "utf8_valid (drop (snd (utf8_chunk bs)) bs)"
      by (auto simp: utf8_valid.simps [of bs])
    with "1.IH" False show ?thesis by (simp add: utf8_lossy.simps [of bs])
  qed
qed

lemma from_utf8_lossy_valid: "utf8_valid bs \<Longrightarrow> from_utf8_lossy bs = of_bytes bs"
  by (simp add: from_utf8_lossy_def utf8_lossy_valid)

lemma utf8_valid_Nil [simp]: "utf8_valid []"
  by (simp add: utf8_valid.simps)

lemma utf8_valid_ascii: "(\<forall>b\<in>set bs. b < 0x80) \<Longrightarrow> utf8_valid bs"
  by (induction bs) (auto simp: utf8_valid.simps utf8_chunk_ascii)

text \<open>The bytes before the first NUL, all of them if there is none: the idiom with which the sources read
  null-terminated fields.\<close>

definition until_nul :: "byte list \<Rightarrow> byte list" where
  "until_nul bs = take (case position ((=) 0) bs of None \<Rightarrow> length bs | Some i \<Rightarrow> i) bs"

lemma until_nul_append: "0 \<notin> set a \<Longrightarrow> until_nul (a @ 0 # b) = a"
proof -
  assume "0 \<notin> set a"
  then have "\<forall>x\<in>set a. \<not> 0 = x" by metis
  from position_append [of a "(=) 0" "0 # b", OF this] show ?thesis by (simp add: until_nul_def)
qed

lemma until_nul_free: "0 \<notin> set a \<Longrightarrow> until_nul a = a"
proof -
  assume "0 \<notin> set a"
  then have "position ((=) 0) a = None" unfolding position_None by metis
  then show ?thesis unfolding until_nul_def by (simp del: position_None)
qed

text \<open>\<^verbatim>\<open>str::is_char_boundary\<close>: slicing a string anywhere else panics.\<close>

definition is_char_boundary :: "string \<Rightarrow> nat \<Rightarrow> bool" where
  "is_char_boundary s i \<longleftrightarrow>
     i = 0 \<or> i = length s \<or> (i < length s \<and> \<not> utf8_cont (char_byte (s ! i)))"

section \<open>Little-endian integers\<close>

definition to_le_bytes16 :: "u16 \<Rightarrow> byte list" where
  "to_le_bytes16 w = [ucast w, ucast (drop_bit 8 w)]"

definition from_le_bytes16 :: "byte \<Rightarrow> byte \<Rightarrow> u16" where
  "from_le_bytes16 b0 b1 = ucast b0 OR push_bit 8 (ucast b1)"

definition to_le_bytes32 :: "u32 \<Rightarrow> byte list" where
  "to_le_bytes32 w =
     [ucast w, ucast (drop_bit 8 w), ucast (drop_bit 16 w), ucast (drop_bit 24 w)]"

definition from_le_bytes32 :: "byte \<Rightarrow> byte \<Rightarrow> byte \<Rightarrow> byte \<Rightarrow> u32" where
  "from_le_bytes32 b0 b1 b2 b3 =
     ucast b0 OR push_bit 8 (ucast b1) OR push_bit 16 (ucast b2) OR push_bit 24 (ucast b3)"

lemma le_bytes16_roundtrip:
  "from_le_bytes16 (ucast w) (ucast (drop_bit 8 w)) = w"
  by (rule bit_word_eqI)
     (auto simp: from_le_bytes16_def bit_or_iff bit_push_bit_iff bit_ucast_iff bit_drop_bit_eq)

lemma byte_no_bit_8 [simp]: "\<not> bit (b :: byte) (8 + n)"
  using bit_imp_le_length [of b "8 + n"] by auto

lemma to_le_from_le_bytes16: "to_le_bytes16 (from_le_bytes16 b0 b1) = [b0, b1]"
  by (auto simp: to_le_bytes16_def from_le_bytes16_def intro!: bit_word_eqI
      simp: bit_or_iff bit_push_bit_iff bit_ucast_iff bit_drop_bit_eq)

lemma le_bytes32_roundtrip:
  "from_le_bytes32 (ucast w) (ucast (drop_bit 8 w)) (ucast (drop_bit 16 w)) (ucast (drop_bit 24 w)) = w"
proof (rule bit_word_eqI)
  fix n :: nat
  assume "n < LENGTH(32)"
  then have "n < 8 \<or> (8 \<le> n \<and> n < 16) \<or> (16 \<le> n \<and> n < 24) \<or> (24 \<le> n \<and> n < 32)"
    by simp linarith
  then show "bit (from_le_bytes32 (ucast w) (ucast (drop_bit 8 w)) (ucast (drop_bit 16 w))
      (ucast (drop_bit 24 w))) n = bit w n"
    by (elim disjE conjE)
       (simp_all add: from_le_bytes32_def bit_or_iff bit_push_bit_iff bit_ucast_iff bit_drop_bit_eq,
         arith+)
qed

lemma length_to_le_bytes [simp]: "length (to_le_bytes16 w) = 2" "length (to_le_bytes32 v) = 4"
  by (simp_all add: to_le_bytes16_def to_le_bytes32_def)

section \<open>Strings and paths\<close>

text \<open>\<^verbatim>\<open>str::split(c)\<close>, \<^verbatim>\<open>str::rfind(c)\<close>, \<^verbatim>\<open>starts_with\<close>, \<^verbatim>\<open>strip_prefix\<close>, \<^verbatim>\<open>strip_suffix\<close>,
  \<^verbatim>\<open>contains\<close> and \<^verbatim>\<open>replace\<close> of one character by another.\<close>

fun split_on :: "'a \<Rightarrow> 'a list \<Rightarrow> 'a list list" where
  "split_on c [] = [[]]"
| "split_on c (x # xs) =
     (if x = c then [] # split_on c xs
      else case split_on c xs of [] \<Rightarrow> [[x]] | ys # yss \<Rightarrow> (x # ys) # yss)"

definition rfind :: "'a \<Rightarrow> 'a list \<Rightarrow> nat option" where
  "rfind c s = map_option (\<lambda>i. length s - Suc i) (position ((=) c) (rev s))"

fun starts_with :: "'a list \<Rightarrow> 'a list \<Rightarrow> bool" where
  "starts_with s [] = True"
| "starts_with [] (p # ps) = False"
| "starts_with (x # s) (p # ps) = (x = p \<and> starts_with s ps)"

definition strip_prefix :: "'a list \<Rightarrow> 'a list \<Rightarrow> 'a list option" where
  "strip_prefix s p = (if starts_with s p then Some (drop (length p) s) else None)"

definition strip_suffix :: "'a list \<Rightarrow> 'a list \<Rightarrow> 'a list option" where
  "strip_suffix s p =
     (if starts_with (rev s) (rev p) then Some (take (length s - length p) s) else None)"

fun contains_sub :: "'a list \<Rightarrow> 'a list \<Rightarrow> bool" where
  "contains_sub [] p = (p = [])"
| "contains_sub (x # s) p = (starts_with (x # s) p \<or> contains_sub s p)"

definition replace_char :: "char \<Rightarrow> char \<Rightarrow> string \<Rightarrow> string" where
  "replace_char a b s = map (\<lambda>c. if c = a then b else c) s"

lemma starts_with_iff: "starts_with s p \<longleftrightarrow> (\<exists>t. s = p @ t)"
  by (induction s p rule: starts_with.induct) auto

lemma strip_suffix_iff: "strip_suffix s p = Some t \<longleftrightarrow> s = t @ p"
proof
  assume "strip_suffix s p = Some t"
  then obtain u where "rev s = rev p @ u" "t = take (length s - length p) s"
    by (auto simp: strip_suffix_def starts_with_iff split: if_splits)
  then have "s = rev u @ p" by (metis rev_append rev_rev_ident)
  with \<open>t = _\<close> show "s = t @ p" by simp
qed (auto simp: strip_suffix_def starts_with_iff)

lemma strip_prefix_iff: "strip_prefix s p = Some t \<longleftrightarrow> s = p @ t"
  by (auto simp: strip_prefix_def starts_with_iff)

lemma contains_sub_iff: "contains_sub s p \<longleftrightarrow> (\<exists>u v. s = u @ p @ v)"
proof (induction s)
  case (Cons x s)
  have "(\<exists>u v. x # s = u @ p @ v) \<longleftrightarrow> (\<exists>v. x # s = p @ v) \<or> (\<exists>u v. s = u @ p @ v)"
    by (metis append_Cons append_Nil list.inject neq_Nil_conv)
  with Cons show ?case by (simp add: starts_with_iff)
qed auto

lemma split_on_nonempty [simp]: "split_on c s \<noteq> []"
  by (cases s) (auto split: list.splits)

lemma split_on_free: "c \<notin> set s \<Longrightarrow> split_on c s = [s]"
  by (induction s) auto

lemma split_on_append: "c \<notin> set s \<Longrightarrow> split_on c (s @ c # t) = s # split_on c t"
  by (induction s) auto

text \<open>\<^verbatim>\<open>str::replace\<close> of one character by a string, and \<^verbatim>\<open>splitn(2, c)\<close> as a pair of the part before the first
  separator and, if there is one, the rest.\<close>

definition replace_str :: "char \<Rightarrow> string \<Rightarrow> string \<Rightarrow> string" where
  "replace_str a r s = concat (map (\<lambda>c. if c = a then r else [c]) s)"

definition splitn2 :: "'a \<Rightarrow> 'a list \<Rightarrow> 'a list \<times> 'a list option" where
  "splitn2 c s =
     (case position ((=) c) s of
        None \<Rightarrow> (s, None)
      | Some i \<Rightarrow> (take i s, Some (drop (Suc i) s)))"

lemma splitn2_append: "c \<notin> set a \<Longrightarrow> splitn2 c (a @ c # b) = (a, Some b)"
proof -
  assume "c \<notin> set a"
  then have "\<forall>x\<in>set a. \<not> c = x" by metis
  from position_append [of a "(=) c" "c # b", OF this] show ?thesis by (simp add: splitn2_def)
qed

lemma replace_str_Nil [simp]: "replace_str a r [] = []"
  by (simp add: replace_str_def)

lemma replace_str_Cons: "replace_str a r (c # s) = (if c = a then r else [c]) @ replace_str a r s"
  by (simp add: replace_str_def)

lemma replace_str_append: "replace_str a r (s @ t) = replace_str a r s @ replace_str a r t"
  by (simp add: replace_str_def)

text \<open>\<^verbatim>\<open>[&str]::join(sep)\<close>.\<close>

fun join :: "'a list \<Rightarrow> 'a list list \<Rightarrow> 'a list" where
  "join sep [] = []"
| "join sep [x] = x"
| "join sep (x # y # xs) = x @ sep @ join sep (y # xs)"

lemma join_split_on: "join [c] (split_on c s) = s"
proof (induction s)
  case (Cons x s)
  obtain y ys where "split_on c s = y # ys" by (cases "split_on c s") auto
  with Cons show ?case by (cases ys) auto
qed simp

section \<open>Decimal numbers\<close>

text \<open>\<^verbatim>\<open>to_string\<close> of an unsigned integer, and \<^verbatim>\<open>parse::<uN>()\<close>: an optional plus sign, at least one digit, no
  overflow.\<close>

definition digit_char :: "nat \<Rightarrow> char" where
  "digit_char d = char_of (48 + d)"

fun nat_str :: "nat \<Rightarrow> string" where
  "nat_str n = (if n < 10 then [digit_char n] else nat_str (n div 10) @ [digit_char (n mod 10)])"

declare nat_str.simps [simp del]

definition is_digit :: "char \<Rightarrow> bool" where
  "is_digit c \<longleftrightarrow> 48 \<le> (of_char c :: nat) \<and> (of_char c :: nat) \<le> 57"

definition digits_value :: "string \<Rightarrow> nat" where
  "digits_value s = foldl (\<lambda>n c. 10 * n + (of_char c - 48)) 0 s"

definition parse_unsigned :: "nat \<Rightarrow> string \<Rightarrow> nat option" where
  "parse_unsigned bits s =
     (let ds = (case strip_prefix s ''+'' of None \<Rightarrow> s | Some t \<Rightarrow> t) in
      if ds \<noteq> [] \<and> list_all is_digit ds \<and> digits_value ds < 2 ^ bits then Some (digits_value ds) else None)"

lemma digit_char_digit: "d < 10 \<Longrightarrow> is_digit (digit_char d) \<and> of_char (digit_char d) = 48 + d"
  by (simp add: is_digit_def digit_char_def)

lemma nat_str_digits: "nat_str n \<noteq> [] \<and> list_all is_digit (nat_str n) \<and> digits_value (nat_str n) = n"
proof (induction n rule: nat_str.induct)
  case (1 n)
  show ?case
  proof (cases "n < 10")
    case True
    then show ?thesis
      using digit_char_digit [of n] by (simp add: nat_str.simps [of n] digits_value_def)
  next
    case False
    with 1 have IH: "nat_str (n div 10) \<noteq> []" "list_all is_digit (nat_str (n div 10))"
      "digits_value (nat_str (n div 10)) = n div 10" by auto
    have d: "is_digit (digit_char (n mod 10))" "(of_char (digit_char (n mod 10)) :: nat) = 48 + n mod 10"
      using digit_char_digit [of "n mod 10"] by auto
    from False IH d show ?thesis
      by (simp add: nat_str.simps [of n]) (simp add: digits_value_def)
  qed
qed

lemma parse_nat_str: "n < 2 ^ bits \<Longrightarrow> parse_unsigned bits (nat_str n) = Some n"
proof -
  assume n: "n < 2 ^ bits"
  have "\<not> is_digit (CHR ''+'')" by (simp add: is_digit_def)
  then have "strip_prefix (nat_str n) ''+'' = None"
    using nat_str_digits [of n] by (cases "nat_str n") (auto simp: strip_prefix_def)
  with n nat_str_digits [of n] show ?thesis by (simp add: parse_unsigned_def)
qed

text \<open>
  \<^verbatim>\<open>std::path::Path\<close>: \<open>components\<close> drops empty and \<open>.\<close> components (a leading \<open>.\<close> is kept by Rust
  but is never a file name); \<open>file_name\<close> is the last one unless it is \<open>..\<close>; \<open>extension\<close> is the
  part after the last dot of the file name, unless the name has no dot or starts with its only
  dot.
\<close>

definition path_file_name :: "string \<Rightarrow> string option" where
  "path_file_name p =
     (let cs = filter (\<lambda>c. c \<noteq> [] \<and> c \<noteq> ''.'') (split_on (CHR ''/'') p) in
      if cs = [] \<or> last cs = ''..'' then None else Some (last cs))"

definition path_extension :: "string \<Rightarrow> string option" where
  "path_extension p =
     (case path_file_name p of
        None \<Rightarrow> None
      | Some f \<Rightarrow>
          (case rfind (CHR ''.'') f of
             None \<Rightarrow> None
           | Some i \<Rightarrow> if i = 0 then None else Some (drop (Suc i) f)))"

text \<open>\<^verbatim>\<open>Path::join\<close> with a relative path.\<close>

definition path_join :: "string \<Rightarrow> string \<Rightarrow> string" where
  "path_join d f = (if d = [] then f else if last d = CHR ''/'' then d @ f else d @ ''/'' @ f)"

end
