(* ===== verification/Lina_Protocol.thy ===== *)
theory Lina_Protocol
  imports Lina_Prelude
begin

text \<open>
  The binary protocol of the server: the messages and enumerations of
  \<^verbatim>\<open>linastore-server/src/dtos.rs\<close>, and reading a message off a connection as
  \<^verbatim>\<open>front/advanced_service.rs\<close> does.  A connection is the list of what its reads will return: a
  chunk of bytes, an error, or a silence longer than the read timeout.  The checksum function of
  the crate \<^verbatim>\<open>crc32fast\<close> and the configured payload limit are parameters.
\<close>

section \<open>Messages\<close>

record payload =
  p_ilen :: byte
  p_identifier :: "byte list"
  p_dlen :: u32
  p_checksum :: u32
  p_data :: "byte list"

datatype status = Success | FileNotFound | StoreFailed | FileNameInvalid | Unauthorized
  | BadRequest | InternalError | NoStatus

record lina_protocol =
  m_flags :: byte
  m_status :: status
  m_payload :: payload

definition lina_protocol_new :: lina_protocol where
  "lina_protocol_new =
     \<lparr>m_flags = 0, m_status = NoStatus,
      m_payload = \<lparr>p_ilen = 0, p_identifier = [], p_dlen = 0, p_checksum = 0, p_data = []\<rparr>\<rparr>"

datatype flag_type = FDelete | FWrite | FAuth | FRead | FCover | FCompress | FNone

fun flag_byte :: "flag_type \<Rightarrow> byte" where
  "flag_byte FDelete = 0xC0"
| "flag_byte FWrite = 0x80"
| "flag_byte FAuth = 0x60"
| "flag_byte FRead = 0x40"
| "flag_byte FCover = 0x02"
| "flag_byte FCompress = 0x01"
| "flag_byte FNone = 0x00"

datatype op_code = OpNone | OpRead | OpWrite | OpDelete | OpAuth

definition OP_MASK :: byte where
  "OP_MASK = 0xE0"

definition OP_SHIFT :: nat where
  "OP_SHIFT = 5"

definition from_flags :: "byte \<Rightarrow> op_code" where
  "from_flags flags =
     (let f = drop_bit OP_SHIFT (flags AND OP_MASK) in
      if f = 2 then OpRead
      else if f = 3 then OpAuth
      else if f = 4 then OpWrite
      else if f = 6 then OpDelete
      else OpNone)"

definition message_op :: "lina_protocol \<Rightarrow> op_code" where
  "message_op m = from_flags (m_flags m)"

fun status_code :: "status \<Rightarrow> byte" where
  "status_code Success = 0"
| "status_code FileNotFound = 1"
| "status_code StoreFailed = 2"
| "status_code FileNameInvalid = 3"
| "status_code Unauthorized = 4"
| "status_code BadRequest = 5"
| "status_code InternalError = 127"
| "status_code NoStatus = 255"

type_synonym crc32 = "byte list \<Rightarrow> u32"

definition calculate_checksum :: "crc32 \<Rightarrow> lina_protocol \<Rightarrow> u32" where
  "calculate_checksum crc m =
     (let p = m_payload m in
      crc ([p_ilen p] @ p_identifier p @ to_le_bytes32 (p_dlen p) @ p_data p))"

definition verify :: "crc32 \<Rightarrow> lina_protocol \<Rightarrow> bool" where
  "verify crc m \<longleftrightarrow> p_checksum (m_payload m) = calculate_checksum crc m"

definition serialize_protocol_message :: "lina_protocol \<Rightarrow> byte list" where
  "serialize_protocol_message m =
     (let p = m_payload m in
      [status_code (m_status m), p_ilen p] @ p_identifier p @ to_le_bytes32 (p_dlen p) @
      to_le_bytes32 (p_checksum p) @ p_data p)"

section \<open>Reading from a connection\<close>

datatype net_error = NetEof | NetReset | NetBrokenPipe | NetOther string

text \<open>What one read returns.  \<open>Chunk []\<close> is a read of no bytes, the end of the stream, as is the
  end of the list.  A \<open>Silence\<close> lasts longer than \<^verbatim>\<open>READ_TIMEOUT\<close>.\<close>

datatype rd = Chunk "byte list" | NetErr net_error | Silence

type_synonym stream = "rd list"

text \<open>\<^verbatim>\<open>AsyncReadExt::read_exact\<close>, which has no timeout and so waits through a silence.\<close>

fun read_exact :: "nat \<Rightarrow> stream \<Rightarrow> (net_error + byte list) \<times> stream" where
  "read_exact n [] = (if n = 0 then (Inr [], []) else (Inl NetEof, []))"
| "read_exact n (Silence # s) = (if n = 0 then (Inr [], Silence # s) else read_exact n s)"
| "read_exact n (NetErr e # s) = (if n = 0 then (Inr [], NetErr e # s) else (Inl e, s))"
| "read_exact n (Chunk bs # s) =
     (if n = 0 then (Inr [], Chunk bs # s)
      else if bs = [] then (Inl NetEof, s)
      else if n < length bs then (Inr (take n bs), Chunk (drop n bs) # s)
      else case read_exact (n - length bs) s of
             (Inl e, s') \<Rightarrow> (Inl e, s')
           | (Inr r, s') \<Rightarrow> (Inr (bs @ r), s'))"

datatype protocol_read_error = Disconnected | OtherError string

fun from_io :: "string \<Rightarrow> net_error \<Rightarrow> protocol_read_error" where
  "from_io context (NetOther e) = OtherError (context @ '': '' @ e)"
| "from_io context _ = Disconnected"

type_synonym 'a reader = "stream \<Rightarrow> (protocol_read_error + 'a) \<times> stream"

definition reading :: "string \<Rightarrow> nat \<Rightarrow> (byte list \<Rightarrow> 'a reader) \<Rightarrow> 'a reader" where
  "reading context n f s =
     (case read_exact n s of
        (Inl e, s') \<Rightarrow> (Inl (from_io context e), s')
      | (Inr bs, s') \<Rightarrow> f bs s')"

text \<open>\<^verbatim>\<open>read_u8\<close> and \<^verbatim>\<open>read_u32_le\<close>.\<close>

definition read_u8 :: "string \<Rightarrow> (byte \<Rightarrow> 'a reader) \<Rightarrow> 'a reader" where
  "read_u8 context f = reading context 1 (\<lambda>bs. f (byte_at bs 0))"

definition read_u32_le :: "string \<Rightarrow> (u32 \<Rightarrow> 'a reader) \<Rightarrow> 'a reader" where
  "read_u32_le context f = reading context 4
     (\<lambda>bs. f (from_le_bytes32 (byte_at bs 0) (byte_at bs 1) (byte_at bs 2) (byte_at bs 3)))"

text \<open>The loop over \<^verbatim>\<open>read_buf\<close>: it stops at the first read that brings the buffer to \<open>dlen\<close> bytes
  or more.\<close>

fun read_data :: "nat \<Rightarrow> byte list \<Rightarrow> byte list reader" where
  "read_data dlen data_buf [] = (Inl Disconnected, [])"
| "read_data dlen data_buf (Silence # s) = (Inl (OtherError ''Read operation timed out''), s)"
| "read_data dlen data_buf (NetErr e # s) = (Inl (from_io ''Failed to read data'' e), s)"
| "read_data dlen data_buf (Chunk bs # s) =
     (if bs = [] then (Inl Disconnected, s)
      else if dlen \<le> length (data_buf @ bs) then (Inr (data_buf @ bs), s)
      else read_data dlen (data_buf @ bs) s)"

definition verified :: "crc32 \<Rightarrow> lina_protocol \<Rightarrow> lina_protocol reader" where
  "verified crc m s =
     (if verify crc m then (Inr m, s) else (Inl (OtherError ''Invalid checksum''), s))"

text \<open>The part of the reader after the header: the data, if any, and the checksum.\<close>

definition parse_body :: "crc32 \<Rightarrow> lina_protocol \<Rightarrow> lina_protocol reader" where
  "parse_body crc m s =
     (let p = m_payload m in
      if p_dlen p > 0
      then (case read_data (unat (p_dlen p)) [] s of
              (Inl e, s') \<Rightarrow> (Inl e, s')
            | (Inr d, s') \<Rightarrow> verified crc (m\<lparr>m_payload := p\<lparr>p_data := d\<rparr>\<rparr>) s')
      else verified crc m s)"

definition parse_protocol_message ::
  "crc32 \<Rightarrow> u64 \<Rightarrow> lina_protocol \<Rightarrow> lina_protocol reader" where
  "parse_protocol_message crc max_payload_size self =
     read_u8 ''Failed to read flag'' (\<lambda>fl.
     read_u8 ''Failed to read identifier length'' (\<lambda>il.
     reading ''Failed to read identifier'' (unat il) (\<lambda>idn.
     read_u32_le ''Failed to read data length'' (\<lambda>dl s.
       if dl > ucast max_payload_size then (Inl (OtherError ''Payload too large''), s)
       else read_u32_le ''Failed to read checksum'' (\<lambda>ck.
         parse_body crc
           (self\<lparr>m_flags := fl,
                 m_payload := (m_payload self)\<lparr>p_ilen := il, p_identifier := idn, p_dlen := dl,
                                               p_checksum := ck\<rparr>\<rparr>)) s))))"

section \<open>Replies\<close>

definition write_error_response :: "crc32 \<Rightarrow> status \<Rightarrow> byte option \<Rightarrow> byte list" where
  "write_error_response crc st code =
     (let p = m_payload lina_protocol_new;
          p = p\<lparr>p_ilen := word_of_nat (length (p_identifier p))\<rparr>;
          p = (case code of Some c \<Rightarrow> p\<lparr>p_data := [c], p_dlen := 1\<rparr> | None \<Rightarrow> p\<lparr>p_dlen := 0\<rparr>);
          m = lina_protocol_new\<lparr>m_status := st, m_payload := p\<rparr>
      in serialize_protocol_message
           (m\<lparr>m_payload := p\<lparr>p_checksum := calculate_checksum crc m\<rparr>\<rparr>))"

text \<open>The reply built from the identifier and the data of a finished request.\<close>

definition reply_message :: "crc32 \<Rightarrow> status \<Rightarrow> byte list \<Rightarrow> byte list \<Rightarrow> lina_protocol" where
  "reply_message crc st idn d =
     (let p = \<lparr>p_ilen = word_of_nat (length idn), p_identifier = idn,
               p_dlen = word_of_nat (length d), p_checksum = 0, p_data = d\<rparr>;
          m = lina_protocol_new\<lparr>m_status := st, m_payload := p\<rparr>
      in m\<lparr>m_payload := p\<lparr>p_checksum := calculate_checksum crc m\<rparr>\<rparr>)"

section \<open>Packages\<close>

datatype behavior = GetFile | PutFile | DeleteFile | NoBehavior

record content =
  ct_flags :: byte
  ct_identifier :: "byte list"
  ct_data :: "byte list"

text \<open>\<open>uni_id\<close> is a version 4 UUID, written in its textual form.\<close>

type_synonym uni_id = string

record package =
  pk_status :: status
  pk_uni_id :: uni_id
  pk_behavior :: behavior
  pk_content :: content
  pk_created_at :: int

definition package_new :: "uni_id \<Rightarrow> int \<Rightarrow> package" where
  "package_new uuid now =
     \<lparr>pk_status = NoStatus, pk_uni_id = uuid, pk_behavior = NoBehavior,
      pk_content = \<lparr>ct_flags = 0x40, ct_identifier = [], ct_data = []\<rparr>, pk_created_at = now\<rparr>"

definition package_new_with_id :: "uni_id \<Rightarrow> int \<Rightarrow> package" where
  "package_new_with_id uuid now =
     \<lparr>pk_status = NoStatus, pk_uni_id = uuid, pk_behavior = NoBehavior,
      pk_content = \<lparr>ct_flags = 0, ct_identifier = [], ct_data = []\<rparr>, pk_created_at = now\<rparr>"

section \<open>Streams that carry bytes\<close>

fun flowing :: "stream \<Rightarrow> bool" where
  "flowing [] = True"
| "flowing (Chunk bs # s) = (bs \<noteq> [] \<and> flowing s)"
| "flowing (_ # s) = False"

fun carried :: "stream \<Rightarrow> byte list" where
  "carried [] = []"
| "carried (Chunk bs # s) = bs @ carried s"
| "carried (_ # s) = carried s"

lemma read_exact_0 [simp]: "read_exact 0 s = (Inr [], s)"
  by (induction "0 :: nat" s rule: read_exact.induct) auto

lemma read_exact_flowing:
  "flowing s \<Longrightarrow> n \<le> length (carried s) \<Longrightarrow>
   \<exists>s'. read_exact n (s @ t) = (Inr (take n (carried s)), s' @ t) \<and> flowing s' \<and>
        carried s' = drop n (carried s)"
proof (induction s arbitrary: n rule: flowing.induct)
  case (2 bs s)
  show ?case
  proof (cases "n < length bs")
    case True
    with "2.prems" show ?thesis
      by (intro exI [of _ "Chunk (drop n bs) # s"]) (cases "n = 0"; auto)
  next
    case False
    then obtain s' where "read_exact (n - length bs) (s @ t) = (Inr (take (n - length bs) (carried s)), s' @ t)"
      "flowing s'" "carried s' = drop (n - length bs) (carried s)"
      using "2.IH" [of "n - length bs"] "2.prems" by (auto simp: le_diff_conv add.commute)
    with False "2.prems" show ?thesis
      by (intro exI [of _ s']) auto
  qed
qed auto

lemma reading_flowing:
  assumes "flowing s" "carried s = bs @ rest" "length bs = n"
  obtains s' where "flowing s'" "carried s' = rest"
    "\<And>context (f :: byte list \<Rightarrow> 'a reader). reading context n f (s @ t) = f bs (s' @ t)"
proof -
  obtain s' where "read_exact n (s @ t) = (Inr bs, s' @ t)" "flowing s'" "carried s' = rest"
    using read_exact_flowing [of s n t] assms by auto
  with that show thesis by (simp add: reading_def)
qed

lemma read_u8_flowing:
  assumes "flowing s" "carried s = b # rest"
  obtains s' where "flowing s'" "carried s' = rest"
    "\<And>context (f :: byte \<Rightarrow> 'a reader). read_u8 context f (s @ t) = f b (s' @ t)"
proof -
  obtain s' where s': "flowing s'" "carried s' = rest"
    "\<And>context (f :: byte list \<Rightarrow> 'a reader). reading context 1 f (s @ t) = f [b] (s' @ t)"
    using reading_flowing [of s "[b]" rest 1 t] assms by auto
  show thesis
    by (rule that [OF s'(1,2)]) (simp only: read_u8_def s'(3), simp add: byte_at_def)
qed

lemma read_u32_le_flowing:
  assumes "flowing s" "carried s = to_le_bytes32 v @ rest"
  obtains s' where "flowing s'" "carried s' = rest"
    "\<And>context (f :: u32 \<Rightarrow> 'a reader). read_u32_le context f (s @ t) = f v (s' @ t)"
proof -
  obtain s' where s': "flowing s'" "carried s' = rest"
    "\<And>context (f :: byte list \<Rightarrow> 'a reader). reading context 4 f (s @ t) = f (to_le_bytes32 v) (s' @ t)"
    using reading_flowing [of s "to_le_bytes32 v" rest 4 t] assms by auto
  show thesis
    by (rule that [OF s'(1,2)])
       (simp only: read_u32_le_def s'(3),
        simp add: byte_at_def to_le_bytes32_def le_bytes32_roundtrip)
qed

lemma read_data_flowing:
  "flowing s \<Longrightarrow> s \<noteq> [] \<Longrightarrow> dlen = length acc + length (carried s) \<Longrightarrow>
   read_data dlen acc (s @ t) = (Inr (acc @ carried s), t)"
proof (induction s arbitrary: acc rule: flowing.induct)
  case (2 bs s)
  show ?case
  proof (cases "s = []")
    case False
    with 2 have "carried s \<noteq> []" by (cases s rule: flowing.cases) auto
    with False 2 show ?thesis by auto
  qed (use 2 in auto)
qed auto

lemma flowing_carried_Nil: "flowing s \<Longrightarrow> carried s = [] \<longleftrightarrow> s = []"
  by (cases s rule: flowing.cases) auto

section \<open>Well-formed messages\<close>

text \<open>The length fields of a message agree with its contents.\<close>

definition sized :: "lina_protocol \<Rightarrow> bool" where
  "sized m \<longleftrightarrow>
     length (p_identifier (m_payload m)) = unat (p_ilen (m_payload m)) \<and>
     length (p_data (m_payload m)) = unat (p_dlen (m_payload m))"

definition as_request :: "byte \<Rightarrow> lina_protocol \<Rightarrow> lina_protocol" where
  "as_request fl m = m\<lparr>m_flags := fl, m_status := NoStatus\<rparr>"

lemma parse_flowing:
  assumes flow: "flowing s"
    and bytes: "carried s = fl # tl (serialize_protocol_message m)"
    and m: "sized m" "p_dlen (m_payload m) \<le> ucast mx"
  shows "parse_protocol_message crc mx lina_protocol_new (s @ t) = verified crc (as_request fl m) t"
proof -
  define p where "p = m_payload m"
  have c0: "carried s = fl # p_ilen p # p_identifier p @ to_le_bytes32 (p_dlen p) @
      to_le_bytes32 (p_checksum p) @ p_data p"
    using bytes by (simp add: serialize_protocol_message_def Let_def p_def)
  obtain s1 where s1: "flowing s1" "carried s1 = p_ilen p # p_identifier p @ to_le_bytes32 (p_dlen p) @
      to_le_bytes32 (p_checksum p) @ p_data p"
    "\<And>context f. read_u8 context f (s @ t) = (f fl (s1 @ t) :: (_ + lina_protocol) \<times> _)"
    using read_u8_flowing [OF flow c0] by blast
  obtain s2 where s2: "flowing s2" "carried s2 = p_identifier p @ to_le_bytes32 (p_dlen p) @
      to_le_bytes32 (p_checksum p) @ p_data p"
    "\<And>context f. read_u8 context f (s1 @ t) = (f (p_ilen p) (s2 @ t) :: (_ + lina_protocol) \<times> _)"
    using read_u8_flowing [OF s1(1,2)] by blast
  have il: "length (p_identifier p) = unat (p_ilen p)"
    using m(1) by (simp add: sized_def p_def)
  obtain s3 where s3: "flowing s3" "carried s3 = to_le_bytes32 (p_dlen p) @
      to_le_bytes32 (p_checksum p) @ p_data p"
    "\<And>context f. reading context (unat (p_ilen p)) f (s2 @ t) =
       (f (p_identifier p) (s3 @ t) :: (_ + lina_protocol) \<times> _)"
    using reading_flowing [OF s2(1,2) il] by blast
  obtain s4 where s4: "flowing s4" "carried s4 = to_le_bytes32 (p_checksum p) @ p_data p"
    "\<And>context f. read_u32_le context f (s3 @ t) = (f (p_dlen p) (s4 @ t) :: (_ + lina_protocol) \<times> _)"
    using read_u32_le_flowing [OF s3(1,2)] by blast
  obtain s5 where s5: "flowing s5" "carried s5 = p_data p"
    "\<And>context f. read_u32_le context f (s4 @ t) = (f (p_checksum p) (s5 @ t) :: (_ + lina_protocol) \<times> _)"
    using read_u32_le_flowing [OF s4(1,2)] by blast
  have data: "p_dlen p > 0 \<Longrightarrow> read_data (unat (p_dlen p)) [] (s5 @ t) = (Inr (p_data p), t)"
    using read_data_flowing [of s5 "unat (p_dlen p)" "[]" t] s5(1,2) m(1)
      flowing_carried_Nil [OF s5(1)]
    by (auto simp: sized_def p_def unat_eq_zero)
  have none: "p_dlen p = 0 \<Longrightarrow> s5 = [] \<and> p_data p = []"
    using s5(1,2) m(1) flowing_carried_Nil [OF s5(1)] by (auto simp: sized_def p_def)
  have rec: "lina_protocol_new\<lparr>m_flags := fl, m_payload := (m_payload lina_protocol_new)
       \<lparr>p_ilen := p_ilen p, p_identifier := p_identifier p, p_dlen := p_dlen p,
        p_checksum := p_checksum p, p_data := p_data p\<rparr>\<rparr> = as_request fl m"
    by (simp add: lina_protocol_new_def as_request_def p_def)
  have req: "m_payload (as_request fl m) = p" by (simp add: as_request_def p_def)
  show ?thesis
  proof (cases "p_dlen p > 0")
    case True
    then show ?thesis
      using data m(2) rec
      by (simp add: parse_protocol_message_def s1(3) s2(3) s3(3) s4(3) s5(3) Let_def p_def [symmetric]
          not_less [symmetric] lina_protocol_new_def parse_body_def)
  next
    case False
    then have z: "p_dlen p = 0" by (simp add: word_gt_0)
    with none show ?thesis
      using m(2) rec req
      by (simp add: parse_protocol_message_def s1(3) s2(3) s3(3) s4(3) s5(3) Let_def p_def [symmetric]
          not_less [symmetric] lina_protocol_new_def parse_body_def)
  qed
qed

lemma verify_as_request [simp]: "verify crc (as_request fl m) = verify crc m"
  by (simp add: verify_def as_request_def calculate_checksum_def)

lemma reply_message_verify: "verify crc (reply_message crc st idn d)"
  by (simp add: verify_def reply_message_def calculate_checksum_def Let_def)

lemma reply_message_sized:
  "length idn < 2 ^ 8 \<Longrightarrow> length d < 2 ^ 32 \<Longrightarrow> sized (reply_message crc st idn d)"
  by (simp add: sized_def reply_message_def Let_def unat_of_nat)

lemma reply_message_sel [simp]:
  "m_status (reply_message crc st idn d) = st"
  "p_identifier (m_payload (reply_message crc st idn d)) = idn"
  "p_data (m_payload (reply_message crc st idn d)) = d"
  "p_dlen (m_payload (reply_message crc st idn d)) = word_of_nat (length d)"
  by (simp_all add: reply_message_def Let_def)

lemma write_error_response_reply:
  "write_error_response crc st code =
   serialize_protocol_message
     (reply_message crc st [] (case code of None \<Rightarrow> [] | Some c \<Rightarrow> [c]))"
  by (auto simp: write_error_response_def reply_message_def lina_protocol_new_def
      calculate_checksum_def Let_def split: option.splits)

lemma read_exact_sound:
  "read_exact n s = (Inr bs, s') \<Longrightarrow> length bs = n \<and> carried s = bs @ carried s'"
proof (induction n s arbitrary: bs rule: read_exact.induct)
  case (4 n bs0 s)
  show ?case
  proof (cases "n = 0 \<or> bs0 = [] \<or> n < length bs0")
    case True
    then show ?thesis using "4.prems" by (auto split: if_splits)
  next
    case False
    then obtain r where "read_exact (n - length bs0) s = (Inr r, s')" "bs = bs0 @ r"
      using "4.prems" by (auto split: prod.splits sum.splits)
    with "4.IH" False show ?thesis by auto
  qed
qed (auto split: if_splits)

lemma read_data_sound:
  "read_data dlen acc s = (Inr d, s') \<Longrightarrow>
   dlen \<le> length d \<and> acc @ carried s = d @ carried s'"
proof (induction dlen acc s rule: read_data.induct)
  case (4 dlen acc bs s)
  show ?case
  proof (cases "bs = [] \<or> dlen \<le> length (acc @ bs)")
    case True
    then show ?thesis using "4.prems" by (auto split: if_splits)
  next
    case False
    with 4 show ?thesis by simp
  qed
qed auto

lemma reading_sound:
  assumes "reading context n f s = (Inr x, s')"
  obtains bs s'' where "length bs = n" "carried s = bs @ carried s''" "f bs s'' = (Inr x, s')"
proof (cases "read_exact n s")
  case (Pair r s'')
  then show thesis
    using assms read_exact_sound [of n s _ s''] that by (cases r) (auto simp: reading_def)
qed

lemma read_u8_sound:
  assumes "read_u8 context f s = (Inr x, s')"
  obtains b s'' where "carried s = b # carried s''" "f b s'' = (Inr x, s')"
  using assms unfolding read_u8_def
  by (elim reading_sound) (auto simp: length_Suc_conv byte_at_def)

lemma byte_no_high_bit [simp]: "\<not> bit (b :: byte) (16 + n)" "\<not> bit (b :: byte) (24 + n)"
  using bit_imp_le_length [of b "16 + n"] bit_imp_le_length [of b "24 + n"] by auto

lemma to_le_from_le_bytes32:
  "to_le_bytes32 (from_le_bytes32 b0 b1 b2 b3) = [b0, b1, b2, b3]"
  by (auto simp: to_le_bytes32_def from_le_bytes32_def intro!: bit_word_eqI
      simp: bit_or_iff bit_push_bit_iff bit_ucast_iff bit_drop_bit_eq)

lemma read_u32_le_sound:
  assumes "read_u32_le context f s = (Inr x, s')"
  obtains v s'' where "carried s = to_le_bytes32 v @ carried s''" "f v s'' = (Inr x, s')"
proof -
  obtain bs s'' where bs: "length bs = 4" "carried s = bs @ carried s''"
    "f (from_le_bytes32 (byte_at bs 0) (byte_at bs 1) (byte_at bs 2) (byte_at bs 3)) s'' = (Inr x, s')"
    using assms unfolding read_u32_le_def by (elim reading_sound)
  from bs(1) obtain b0 b1 b2 b3 where "bs = [b0, b1, b2, b3]"
    by (auto simp: length_Suc_conv numeral_eq_Suc)
  with bs(2,3) show thesis
    using that [of "from_le_bytes32 b0 b1 b2 b3" s'']
    by (simp add: to_le_from_le_bytes32 byte_at_def)
qed

lemma parse_body_sound:
  assumes "parse_body crc m0 s = (Inr m, s')" "p_data (m_payload m0) = []"
  shows "verify crc m \<and> unat (p_dlen (m_payload m)) \<le> length (p_data (m_payload m)) \<and>
    (p_dlen (m_payload m) = 0 \<longrightarrow> p_data (m_payload m) = []) \<and>
    carried s = p_data (m_payload m) @ carried s' \<and>
    m0 = m\<lparr>m_payload := (m_payload m)\<lparr>p_data := []\<rparr>\<rparr>"
proof (cases "p_dlen (m_payload m0) > 0")
  case True
  then obtain d where "read_data (unat (p_dlen (m_payload m0))) [] s = (Inr d, s')"
    "m = m0\<lparr>m_payload := (m_payload m0)\<lparr>p_data := d\<rparr>\<rparr>" "verify crc m"
    using assms
    by (auto simp: parse_body_def verified_def Let_def split: prod.splits sum.splits if_splits)
  then show ?thesis
    using read_data_sound [of "unat (p_dlen (m_payload m0))" "[]" s d s'] True assms(2) by auto
next
  case False
  then have "p_dlen (m_payload m0) = 0" by (simp add: word_gt_0)
  with assms show ?thesis by (auto simp: parse_body_def verified_def Let_def split: if_splits)
qed

lemma read_exact_one_chunk:
  "length a = n \<Longrightarrow> b \<noteq> [] \<Longrightarrow> read_exact n (Chunk (a @ b) # t) = (Inr a, Chunk b # t)"
  by auto

lemma reading_one_chunk:
  "length a = n \<Longrightarrow> b \<noteq> [] \<Longrightarrow> reading context n f (Chunk (a @ b) # t) = f a (Chunk b # t)"
  by (simp add: reading_def read_exact_one_chunk del: read_exact.simps)

lemma read_u8_one_chunk:
  "b \<noteq> [] \<Longrightarrow> read_u8 context f (Chunk (x # b) # t) = f x (Chunk b # t)"
  using reading_one_chunk [of "[x]" 1 b _ "\<lambda>bs. f (byte_at bs 0)" t]
  by (simp add: read_u8_def) (simp add: byte_at_def)

lemma read_u32_le_one_chunk:
  "b \<noteq> [] \<Longrightarrow> read_u32_le context f (Chunk (to_le_bytes32 v @ b) # t) = f v (Chunk b # t)"
  by (simp add: read_u32_le_def reading_one_chunk)
     (simp add: byte_at_def to_le_bytes32_def le_bytes32_roundtrip)

lemma to_le_bytes32_nonempty [simp]: "to_le_bytes32 v \<noteq> []"
  by (simp add: to_le_bytes32_def)

lemma op_mask_bits: "fl AND OP_MASK = push_bit 5 (drop_bit 5 fl)"
proof -
  have m: "OP_MASK = push_bit 5 (mask 3)" by (simp add: OP_MASK_def mask_eq_exp_minus_1)
  show ?thesis
    unfolding m by (rule bit_word_eqI) (auto simp: bit_simps simp del: push_bit_mask_eq)
qed

lemma op_field: "drop_bit 5 (fl AND OP_MASK) = drop_bit 5 fl"
proof (rule bit_word_eqI)
  fix n
  show "bit (drop_bit 5 (fl AND OP_MASK)) n = bit (drop_bit 5 fl) n"
    using bit_imp_le_length [of fl "5 + n"] by (auto simp only: op_mask_bits, auto simp: bit_simps)
qed

lemma op_field_iff:
  "drop_bit 5 (push_bit 5 k :: byte) = k \<Longrightarrow> drop_bit 5 fl = k \<longleftrightarrow> fl AND OP_MASK = push_bit 5 k"
  by (rule iffI, simp only: op_mask_bits) (metis op_field)

lemma parse_accepts:
  assumes "parse_protocol_message crc mx lina_protocol_new s = (Inr m, s')"
  shows "verify crc m \<and> p_dlen (m_payload m) \<le> ucast mx \<and>
    length (p_identifier (m_payload m)) = unat (p_ilen (m_payload m)) \<and>
    unat (p_dlen (m_payload m)) \<le> length (p_data (m_payload m)) \<and>
    (p_dlen (m_payload m) = 0 \<longrightarrow> p_data (m_payload m) = []) \<and>
    carried s = m_flags m # tl (serialize_protocol_message m) @ carried s'"
proof -
  let ?m = "\<lambda>b il idn dl ck. lina_protocol_new\<lparr>m_flags := b, m_payload := (m_payload lina_protocol_new)
      \<lparr>p_ilen := il, p_identifier := idn, p_dlen := dl, p_checksum := ck\<rparr>\<rparr>"
  let ?r2 = "\<lambda>b il idn dl. read_u32_le ''Failed to read checksum''
      (\<lambda>ck. parse_body crc (?m b il idn dl ck))"
  let ?r1 = "\<lambda>b il idn. read_u32_le ''Failed to read data length'' (\<lambda>dl s.
       if dl > ucast mx then (Inl (OtherError ''Payload too large''), s) else ?r2 b il idn dl s)"
  let ?r0 = "\<lambda>b il. reading ''Failed to read identifier'' (unat il) (?r1 b il)"
  obtain b s1 where 1: "carried s = b # carried s1"
    and r: "read_u8 ''Failed to read identifier length'' (?r0 b) s1 = (Inr m, s')"
    using assms unfolding parse_protocol_message_def by (rule read_u8_sound)
  from r obtain il s2 where 2: "carried s1 = il # carried s2" and r: "?r0 b il s2 = (Inr m, s')"
    by (rule read_u8_sound)
  from r obtain idn s3 where 3: "length idn = unat il" "carried s2 = idn @ carried s3"
    and r: "?r1 b il idn s3 = (Inr m, s')"
    by (rule reading_sound)
  from r obtain dl s4 where 4: "carried s3 = to_le_bytes32 dl @ carried s4" "dl \<le> ucast mx"
    and r: "?r2 b il idn dl s4 = (Inr m, s')"
    by (rule read_u32_le_sound) (auto split: if_splits)
  from r obtain ck s5 where 5: "carried s4 = to_le_bytes32 ck @ carried s5"
    and r: "parse_body crc (?m b il idn dl ck) s5 = (Inr m, s')"
    by (rule read_u32_le_sound)
  have "p_data (m_payload (?m b il idn dl ck)) = []" by (simp add: lina_protocol_new_def)
  note sound = parse_body_sound [OF r this]
  have "m_flags m = b" "p_ilen (m_payload m) = il" "p_identifier (m_payload m) = idn"
    "p_dlen (m_payload m) = dl" "p_checksum (m_payload m) = ck"
    using sound by (cases m; cases "m_payload m"; auto simp: lina_protocol_new_def)+
  then show ?thesis
    using sound 1 2 3 4 5 by (auto simp: serialize_protocol_message_def Let_def)
qed

section \<open>Properties\<close>

text \<open>C23: Whatever sizes the reads of a connection return, a serialized message whose length fields are
  right, whose checksum matches and whose payload is within the limit is read back as it was, and
  the reader stops exactly at its end.  (On a request the first byte, which a reply uses for the
  status, holds the flags.)\<close>

theorem parse_serialize_roundtrip:
  assumes "flowing s" and "carried s = fl # tl (serialize_protocol_message m)"
    and "sized m" and "verify crc m" and "p_dlen (m_payload m) \<le> ucast mx"
  shows "parse_protocol_message crc mx lina_protocol_new (s @ t) =
    (Inr (m\<lparr>m_flags := fl, m_status := NoStatus\<rparr>), t)"
  using parse_flowing [OF assms(1,2,3,5)] assms(4)
  by (simp add: verified_def) (simp add: as_request_def)

definition demo_crc :: crc32 where
  "demo_crc bs = fold (\<lambda>b a. a * 31 + ucast b) bs 7"

definition demo_message :: lina_protocol where
  "demo_message = reply_message demo_crc Success (as_bytes ''a.txt'') [1, 2, 3]"

theorem parse_serialize_roundtrip_witness:
  "parse_protocol_message demo_crc 0x4000000 lina_protocol_new
     (map (\<lambda>b. Chunk [b]) (0x80 # tl (serialize_protocol_message demo_message)) @ [Chunk [9]]) =
   (Inr (demo_message\<lparr>m_flags := 0x80, m_status := NoStatus\<rparr>), [Chunk [9]])"
proof -
  let ?s = "map (\<lambda>b. Chunk [b]) (0x80 # tl (serialize_protocol_message demo_message))"
  have "flowing (map (\<lambda>b. Chunk [b]) bs)" "carried (map (\<lambda>b. Chunk [b]) bs) = bs" for bs
    by (induction bs) auto
  moreover have "sized demo_message" "verify demo_crc demo_message"
    by (simp_all add: demo_message_def reply_message_sized reply_message_verify)
  moreover have "p_dlen (m_payload demo_message) \<le> ucast (0x4000000 :: u64)"
    by (simp add: demo_message_def)
  ultimately show ?thesis
    by (intro parse_serialize_roundtrip) simp_all
qed

text \<open>C24: A message the reader accepts carries a matching checksum, a payload length within the limit and
  an identifier of the announced length; its data has at least the announced length; and it is made
  of the very bytes of the connection, all of which before the rest were consumed.\<close>

theorem parse_sound:
  assumes "parse_protocol_message crc mx lina_protocol_new s = (Inr m, s')"
  shows "verify crc m \<and> p_dlen (m_payload m) \<le> ucast mx \<and>
    length (p_identifier (m_payload m)) = unat (p_ilen (m_payload m)) \<and>
    unat (p_dlen (m_payload m)) \<le> length (p_data (m_payload m)) \<and>
    (p_dlen (m_payload m) = 0 \<longrightarrow> p_data (m_payload m) = []) \<and>
    carried s = m_flags m # tl (serialize_protocol_message m) @ carried s'"
  by (rule parse_accepts [OF assms])

lemma demo_parse:
  "parse_protocol_message demo_crc 0x4000000 lina_protocol_new
     [Chunk (0x80 # tl (serialize_protocol_message demo_message))] =
   (Inr (as_request 0x80 demo_message), [])"
proof -
  have "sized demo_message" "verify demo_crc demo_message"
    "p_dlen (m_payload demo_message) \<le> ucast (0x4000000 :: u64)"
    by (simp_all add: demo_message_def reply_message_sized reply_message_verify)
  then show ?thesis
    using parse_flowing [where s = "[Chunk (0x80 # tl (serialize_protocol_message demo_message))]"
        and fl = "0x80" and t = "[]" and mx = "0x4000000" and m = demo_message and crc = demo_crc]
    by (simp add: verified_def)
qed

theorem parse_sound_witness:
  "verify demo_crc (as_request 0x80 demo_message) \<and> p_dlen (m_payload demo_message) \<le> 0x4000000"
  using parse_sound [OF demo_parse] by (simp add: as_request_def)

text \<open>The operation is decoded from the top three bits alone: each of the four operation flags is
  recognised exactly by its own pattern, in particular a Delete is never taken for a Read, and the
  option bits Cover and Compress do not matter.\<close>

theorem from_flags_decodes:
  "(from_flags fl = OpDelete \<longleftrightarrow> fl AND OP_MASK = flag_byte FDelete) \<and>
   (from_flags fl = OpWrite \<longleftrightarrow> fl AND OP_MASK = flag_byte FWrite) \<and>
   (from_flags fl = OpAuth \<longleftrightarrow> fl AND OP_MASK = flag_byte FAuth) \<and>
   (from_flags fl = OpRead \<longleftrightarrow> fl AND OP_MASK = flag_byte FRead) \<and>
   from_flags (fl OR flag_byte FCover) = from_flags fl \<and>
   from_flags (fl OR flag_byte FCompress) = from_flags fl"
proof -
  have "(fl OR 2) AND OP_MASK = fl AND OP_MASK" "(fl OR 1) AND OP_MASK = fl AND OP_MASK"
    by (simp_all add: bit.conj_disj_distrib2 OP_MASK_def)
  then have opts: "from_flags (fl OR 2) = from_flags fl" "from_flags (fl OR 1) = from_flags fl"
    by (simp_all add: from_flags_def)
  have "drop_bit 5 fl = 2 \<longleftrightarrow> fl AND OP_MASK = 0x40" "drop_bit 5 fl = 3 \<longleftrightarrow> fl AND OP_MASK = 0x60"
    "drop_bit 5 fl = 4 \<longleftrightarrow> fl AND OP_MASK = 0x80" "drop_bit 5 fl = 6 \<longleftrightarrow> fl AND OP_MASK = 0xC0"
    using op_field_iff [of 2 fl] op_field_iff [of 3 fl] op_field_iff [of 4 fl] op_field_iff [of 6 fl]
    by simp_all
  then have "from_flags fl =
     (if fl AND OP_MASK = 0x40 then OpRead else if fl AND OP_MASK = 0x60 then OpAuth
      else if fl AND OP_MASK = 0x80 then OpWrite else if fl AND OP_MASK = 0xC0 then OpDelete
      else OpNone)"
    by (simp only: from_flags_def OP_SHIFT_def op_field Let_def)
  then show ?thesis by (simp add: opts)
qed

text \<open>Every reply of the server whose identifier and data fit the length fields is read back by a
  client: same identifier and data, the status in the first byte.\<close>

theorem reply_roundtrip:
  assumes "flowing s" and "carried s = serialize_protocol_message (reply_message crc st idn d)"
    and "length idn < 2 ^ 8" and "length d < 2 ^ 32" and "word_of_nat (length d) \<le> (ucast mx :: u32)"
  shows "\<exists>m. parse_protocol_message crc mx lina_protocol_new (s @ t) = (Inr m, t) \<and>
    m_flags m = status_code st \<and> p_identifier (m_payload m) = idn \<and> p_data (m_payload m) = d"
proof -
  let ?r = "reply_message crc st idn d"
  have "carried s = status_code st # tl (serialize_protocol_message ?r)"
    using assms(2) by (simp add: serialize_protocol_message_def Let_def)
  from parse_flowing [OF assms(1) this reply_message_sized, of mx] assms(3-5)
  show ?thesis
    by (intro exI [of _ "as_request (status_code st) ?r"])
       (simp add: verified_def reply_message_verify, simp add: as_request_def)
qed

theorem reply_roundtrip_witness:
  "\<exists>m. parse_protocol_message demo_crc 0x4000000 lina_protocol_new
      ([Chunk (serialize_protocol_message (reply_message demo_crc FileNotFound [97] [])) ] @ []) = (Inr m, []) \<and>
    m_flags m = status_code FileNotFound \<and> p_identifier (m_payload m) = [97] \<and> p_data (m_payload m) = []"
  by (rule reply_roundtrip) (simp_all add: serialize_protocol_message_def Let_def)

text \<open>When the read that completes a message also returns bytes of the next one, those bytes are
  taken as data of the first message and spoil its checksum, so the connection is given up.\<close>

theorem pipelined_request_rejected:
  assumes "sized m" and "verify crc m" and "p_dlen (m_payload m) \<le> ucast mx"
    and "p_data (m_payload m) \<noteq> []"
    and "\<not> verify crc (m\<lparr>m_payload := (m_payload m)\<lparr>p_data := p_data (m_payload m) @ extra\<rparr>\<rparr>)"
  shows "parse_protocol_message crc mx lina_protocol_new
      (Chunk (fl # tl (serialize_protocol_message m) @ extra) # t) =
    (Inl (OtherError ''Invalid checksum''), t)"
proof -
  define p where "p = m_payload m"
  have il: "length (p_identifier p) = unat (p_ilen p)" and dl: "length (p_data p) = unat (p_dlen p)"
    using assms(1) by (simp_all add: sized_def p_def)
  with assms(4) have pos: "p_dlen p > 0"
    by (auto simp: p_def word_gt_0)
  have lim: "\<not> ucast mx < p_dlen p" using assms(3) by (simp add: p_def)
  have bad: "\<not> verify crc \<lparr>m_flags = fl, m_status = NoStatus, m_payload = p\<lparr>p_data := p_data p @ extra\<rparr>\<rparr>"
    using assms(5) by (simp add: verify_def calculate_checksum_def p_def)
  have rec: "\<lparr>p_ilen = p_ilen p, p_identifier = p_identifier p, p_dlen = p_dlen p,
     p_checksum = p_checksum p, p_data = p_data p @ extra\<rparr> = p\<lparr>p_data := p_data p @ extra\<rparr>"
    by simp
  have bytes: "fl # tl (serialize_protocol_message m) @ extra = fl # p_ilen p # p_identifier p @
     to_le_bytes32 (p_dlen p) @ to_le_bytes32 (p_checksum p) @ p_data p @ extra"
    by (simp add: serialize_protocol_message_def Let_def p_def)
  have ne: "p_data p \<noteq> []" using assms(4) by (simp add: p_def)
  have rd: "read_data (unat (p_dlen p)) [] (Chunk (p_data p @ extra) # t) = (Inr (p_data p @ extra), t)"
    using ne dl by simp
  show ?thesis
    unfolding bytes parse_protocol_message_def
    by (simp add: read_u8_one_chunk reading_one_chunk il read_u32_le_one_chunk ne parse_body_def
          lina_protocol_new_def verified_def rec rd pos lim bad del: read_data.simps)
qed

theorem pipelined_request_rejected_witness:
  "parse_protocol_message demo_crc 0x4000000 lina_protocol_new
     (Chunk (0x80 # tl (serialize_protocol_message demo_message) @ [7]) # []) =
   (Inl (OtherError ''Invalid checksum''), [])"
proof (rule pipelined_request_rejected)
  show "\<not> verify demo_crc (demo_message\<lparr>m_payload := (m_payload demo_message)
      \<lparr>p_data := p_data (m_payload demo_message) @ [7]\<rparr>\<rparr>)"
    by code_simp
qed (simp_all add: demo_message_def reply_message_sized reply_message_verify)

end
