(* ===== verification/Lina_Conveyer.thy ===== *)
theory Lina_Conveyer
  imports Lina_Protocol
begin

text \<open>
  The order queue between the front ends and the workers, \<^verbatim>\<open>linastore-server/src/conveyer.rs\<close>: a
  bounded queue of orders that drops its oldest entry when full, and a registry of waiters, one
  one-shot channel per request.  Every operation runs under the mutex of the part it touches, so
  it is one atomic step; \<open>cleanup_expired_waiters\<close>, which takes two mutexes in turn, is two.
\<close>

section \<open>State\<close>

definition ORDER_QUEUE_CAPACITY :: nat where
  "ORDER_QUEUE_CAPACITY = 32"

text \<open>Instants and durations are in nanoseconds.\<close>

type_synonym instant = nat

definition secs :: "nat \<Rightarrow> nat" where
  "secs n = n * 1000000000"

definition WAITERS_TTL :: nat where
  "WAITERS_TTL = secs 20"

text \<open>A one-shot channel, seen from its receiver: the sender has not acted yet, has sent a package, or
  was dropped without sending.\<close>

datatype chan = Waiting | Sent package | Closed

record waiter_entry =
  we_sender :: nat
  we_created_at :: instant

text \<open>\<open>chans\<close> are the channels made so far; a sender or receiver is a position in it.
  \<open>order_version\<close> and \<open>subscribers\<close> are the state of the \<^verbatim>\<open>watch\<close> channel: the number of values
  sent and of receivers.  A mutex is poisoned when a thread panicked while it held it.\<close>

record convey_queue =
  order_queue :: "package list"
  waiters :: "(uni_id, waiter_entry) hmap"
  chans :: "chan list"
  order_version :: nat
  subscribers :: nat
  queue_poisoned :: bool
  waiters_poisoned :: bool

definition convey_queue_new :: convey_queue where
  "convey_queue_new =
     \<lparr>order_queue = [], waiters = [], chans = [], order_version = 0, subscribers = 0,
      queue_poisoned = False, waiters_poisoned = False\<rparr>"

section \<open>Operations\<close>

text \<open>Dropping a sender closes its channel unless something was sent.\<close>

definition drop_sender :: "nat \<Rightarrow> chan list \<Rightarrow> chan list" where
  "drop_sender c cs = (if c < length cs \<and> cs ! c = Waiting then cs[c := Closed] else cs)"

definition unregister_waiter :: "uni_id \<Rightarrow> convey_queue \<Rightarrow> convey_queue" where
  "unregister_waiter uid q =
     (if waiters_poisoned q then q
      else case map_of (waiters q) uid of
             None \<Rightarrow> q
           | Some w \<Rightarrow> q\<lparr>waiters := hm_remove uid (waiters q), chans := drop_sender (we_sender w) (chans q)\<rparr>)"

text \<open>\<^verbatim>\<open>watch::Sender::send\<close> fails, and stores nothing, when there is no receiver.\<close>

definition notify_orders :: "convey_queue \<Rightarrow> convey_queue" where
  "notify_orders q = (if subscribers q = 0 then q else q\<lparr>order_version := Suc (order_version q)\<rparr>)"

definition push_order :: "package \<Rightarrow> convey_queue \<Rightarrow> convey_queue" where
  "push_order order q =
     (let q = (if ORDER_QUEUE_CAPACITY \<le> length (order_queue q)
               then (case order_queue q of
                       [] \<Rightarrow> q
                     | dropped # rest \<Rightarrow>
                         unregister_waiter (pk_uni_id dropped) (q\<lparr>order_queue := rest\<rparr>))
               else q)
      in q\<lparr>order_queue := order_queue q @ [order]\<rparr>)"

definition produce_order :: "package \<Rightarrow> convey_queue \<Rightarrow> (string + unit) \<times> convey_queue" where
  "produce_order order q =
     (if queue_poisoned q then (Inl ''Failed to lock order queue'', q)
      else (Inr (), notify_orders (push_order order q)))"

text \<open>The receiver remembers the version it has seen; \<open>changed\<close> is ready when there is a newer one.\<close>

definition subscribe_orders :: "convey_queue \<Rightarrow> nat \<times> convey_queue" where
  "subscribe_orders q = (order_version q, q\<lparr>subscribers := Suc (subscribers q)\<rparr>)"

definition consume_order :: "convey_queue \<Rightarrow> (string + package option) \<times> convey_queue" where
  "consume_order q =
     (if queue_poisoned q then (Inl ''Failed to lock order queue'', q)
      else case order_queue q of
             [] \<Rightarrow> (Inr None, q)
           | p # rest \<Rightarrow> (Inr (Some p), q\<lparr>order_queue := rest\<rparr>))"

definition produce_service :: "package \<Rightarrow> convey_queue \<Rightarrow> (string + unit) \<times> convey_queue" where
  "produce_service order q =
     (if waiters_poisoned q then (Inl ''Failed to lock waiter registry'', q)
      else case map_of (waiters q) (pk_uni_id order) of
             Some w \<Rightarrow>
               (Inr (), q\<lparr>waiters := hm_remove (pk_uni_id order) (waiters q),
                          chans := (chans q)[we_sender w := Sent order]\<rparr>)
           | None \<Rightarrow> (Inl ''No waiter registered for this response'', q))"

definition register_waiter :: "instant \<Rightarrow> uni_id \<Rightarrow> convey_queue \<Rightarrow> nat option \<times> convey_queue" where
  "register_waiter now uid q =
     (let c = length (chans q) in
      if waiters_poisoned q \<or> map_of (waiters q) uid \<noteq> None
      then (None, q\<lparr>chans := chans q @ [Closed]\<rparr>)
      else (Some c, q\<lparr>waiters := hm_insert uid \<lparr>we_sender = c, we_created_at = now\<rparr> (waiters q),
                      chans := chans q @ [Waiting]\<rparr>))"

definition remove_order :: "uni_id \<Rightarrow> convey_queue \<Rightarrow> bool \<times> convey_queue" where
  "remove_order uid q =
     (if queue_poisoned q then (False, q)
      else let kept = filter (\<lambda>pkg. pk_uni_id pkg \<noteq> uid) (order_queue q) in
           (length kept \<noteq> length (order_queue q), q\<lparr>order_queue := kept\<rparr>))"

definition is_expired :: "instant \<Rightarrow> waiter_entry \<Rightarrow> bool" where
  "is_expired now w \<longleftrightarrow> now - we_created_at w > WAITERS_TTL"

text \<open>The first half of \<open>cleanup_expired_waiters\<close>, under the mutex of the registry, and the whole of it.\<close>

definition expire_waiters :: "instant \<Rightarrow> convey_queue \<Rightarrow> uni_id list \<times> convey_queue" where
  "expire_waiters now q =
     (if waiters_poisoned q then ([], q)
      else let old = filter (\<lambda>e. is_expired now (snd e)) (waiters q) in
           (map fst old,
            q\<lparr>waiters := filter (\<lambda>e. \<not> is_expired now (snd e)) (waiters q),
              chans := fold (\<lambda>e. drop_sender (we_sender (snd e))) old (chans q)\<rparr>))"

definition cleanup_expired_waiters :: "instant \<Rightarrow> convey_queue \<Rightarrow> convey_queue" where
  "cleanup_expired_waiters now q =
     (let (expired, q) = expire_waiters now q in fold (\<lambda>uid q. snd (remove_order uid q)) expired q)"

lemmas convey_defs = unregister_waiter_def notify_orders_def push_order_def produce_order_def
  subscribe_orders_def consume_order_def produce_service_def register_waiter_def remove_order_def

section \<open>Well-formed queues\<close>

text \<open>The queue is within its capacity; the registry is a map; each registered sender belongs to a channel
  that is still waiting, and to one waiter only.\<close>

definition waiters_ok :: "convey_queue \<Rightarrow> bool" where
  "waiters_ok q \<longleftrightarrow> hm_ok (waiters q) \<and>
     (\<forall>u w. map_of (waiters q) u = Some w \<longrightarrow>
        we_sender w < length (chans q) \<and> chans q ! we_sender w = Waiting) \<and>
     (\<forall>u w u' w'. map_of (waiters q) u = Some w \<longrightarrow> map_of (waiters q) u' = Some w' \<longrightarrow>
        we_sender w = we_sender w' \<longrightarrow> u = u')"

definition convey_ok :: "convey_queue \<Rightarrow> bool" where
  "convey_ok q \<longleftrightarrow> length (order_queue q) \<le> ORDER_QUEUE_CAPACITY \<and> waiters_ok q"

lemma waiters_okD:
  assumes "waiters_ok q"
  shows "hm_ok (waiters q)"
    "map_of (waiters q) u = Some w \<Longrightarrow> we_sender w < length (chans q)"
    "map_of (waiters q) u = Some w \<Longrightarrow> chans q ! we_sender w = Waiting"
    "map_of (waiters q) u = Some w \<Longrightarrow> map_of (waiters q) u' = Some w' \<Longrightarrow>
      we_sender w = we_sender w' \<Longrightarrow> u = u'"
  using assms unfolding waiters_ok_def by blast+

lemma waiters_ok_updates [simp]:
  "waiters_ok (q\<lparr>order_queue := a\<rparr>) = waiters_ok q" "waiters_ok (q\<lparr>order_version := b\<rparr>) = waiters_ok q"
  "waiters_ok (q\<lparr>subscribers := c\<rparr>) = waiters_ok q"
  by (simp_all add: waiters_ok_def)

lemma length_drop_sender [simp]: "length (drop_sender c cs) = length cs"
  by (simp add: drop_sender_def)

lemma drop_sender_nth:
  "drop_sender c cs ! i = (if i = c \<and> c < length cs \<and> cs ! c = Waiting then Closed else cs ! i)"
  by (simp add: drop_sender_def nth_list_update)

text \<open>Removing one waiter and changing only its own channel keeps the registry well-formed.\<close>

lemma waiters_ok_remove:
  assumes ok: "waiters_ok q" and w: "map_of (waiters q) u = Some w"
    and len: "length cs = length (chans q)"
    and same: "\<And>i. i \<noteq> we_sender w \<Longrightarrow> cs ! i = chans q ! i"
  shows "waiters_ok (q\<lparr>waiters := hm_remove u (waiters q), chans := cs\<rparr>)"
proof -
  have "cs ! we_sender w' = Waiting" if "u' \<noteq> u" "map_of (waiters q) u' = Some w'" for u' w'
    using waiters_okD(3,4) [OF ok] that w same by metis
  then show ?thesis
    using ok len unfolding waiters_ok_def by auto
qed

lemma unregister_waiter_ok: "waiters_ok q \<Longrightarrow> waiters_ok (unregister_waiter u q)"
  by (auto simp: unregister_waiter_def drop_sender_nth intro: waiters_ok_remove split: option.splits)

lemma unregister_waiter_sel [simp]:
  "order_queue (unregister_waiter u q) = order_queue q"
  "order_version (unregister_waiter u q) = order_version q"
  "subscribers (unregister_waiter u q) = subscribers q"
  "queue_poisoned (unregister_waiter u q) = queue_poisoned q"
  "waiters_poisoned (unregister_waiter u q) = waiters_poisoned q"
  "length (chans (unregister_waiter u q)) = length (chans q)"
  by (simp_all add: unregister_waiter_def split: option.splits)

text \<open>Pushing keeps the newest orders.\<close>

definition newest :: "nat \<Rightarrow> 'a list \<Rightarrow> 'a list" where
  "newest n xs = drop (length xs - n) xs"

lemma push_order_queue:
  "length (order_queue q) \<le> ORDER_QUEUE_CAPACITY \<Longrightarrow>
   order_queue (push_order p q) = newest ORDER_QUEUE_CAPACITY (order_queue q @ [p])"
  by (cases "order_queue q")
     (auto simp: push_order_def newest_def ORDER_QUEUE_CAPACITY_def)

lemma length_newest [simp]: "length (newest n xs) = min n (length xs)"
  by (simp add: newest_def)

lemma newest_newest: "newest n (newest n xs @ ys) = newest n (xs @ ys)"
  by (cases "length xs \<le> n") (simp_all add: newest_def add.commute)

lemma push_order_ok: "convey_ok q \<Longrightarrow> convey_ok (push_order p q)"
proof -
  assume ok: "convey_ok q"
  then have "waiters_ok (push_order p q)"
    using unregister_waiter_ok
    by (auto simp: convey_ok_def push_order_def Let_def split: list.splits)
  with ok show ?thesis by (simp add: convey_ok_def push_order_queue)
qed

lemma notify_orders_ok [simp]: "convey_ok (notify_orders q) = convey_ok q"
  by (simp add: convey_ok_def notify_orders_def)

lemma produce_order_ok: "convey_ok q \<Longrightarrow> convey_ok (snd (produce_order p q))"
  by (simp add: produce_order_def push_order_ok)

lemma subscribe_orders_ok: "convey_ok q \<Longrightarrow> convey_ok (snd (subscribe_orders q))"
  by (simp add: convey_ok_def subscribe_orders_def)

lemma consume_order_ok: "convey_ok q \<Longrightarrow> convey_ok (snd (consume_order q))"
  by (auto simp: convey_ok_def consume_order_def split: list.splits)

lemma produce_service_ok: "convey_ok q \<Longrightarrow> convey_ok (snd (produce_service p q))"
  by (auto simp: convey_ok_def produce_service_def intro!: waiters_ok_remove split: option.splits)

lemma remove_order_ok: "convey_ok q \<Longrightarrow> convey_ok (snd (remove_order u q))"
  by (auto simp: convey_ok_def remove_order_def Let_def intro: le_trans [OF length_filter_le])

lemma register_waiter_ok:
  assumes "convey_ok q"
  shows "convey_ok (snd (register_waiter now u q))"
proof -
  have ok: "waiters_ok q" using assms by (simp add: convey_ok_def)
  have "waiters_ok (q\<lparr>chans := chans q @ [Closed]\<rparr>)"
    using ok by (auto simp: waiters_ok_def nth_append less_SucI)
  moreover have "waiters_ok (q\<lparr>waiters := hm_insert u \<lparr>we_sender = length (chans q), we_created_at = now\<rparr>
      (waiters q), chans := chans q @ [Waiting]\<rparr>)"
    using ok by (auto simp: waiters_ok_def nth_append less_SucI) (metis less_irrefl)+
  ultimately show ?thesis
    using assms by (simp add: register_waiter_def Let_def convey_ok_def)
qed

text \<open>Expiring waiters: the closed channels are those of the removed entries.\<close>

lemma fold_drop_sender:
  "length (fold (\<lambda>e. drop_sender (we_sender (snd e))) es cs) = length cs"
  "fold (\<lambda>e. drop_sender (we_sender (snd e))) es cs ! i =
     (if i < length cs \<and> cs ! i = Waiting \<and> (\<exists>e\<in>set es. we_sender (snd e) = i) then Closed else cs ! i)"
  by (induction es arbitrary: cs) (auto simp: drop_sender_nth)

lemma expire_waiters_ok:
  assumes "convey_ok q"
  shows "convey_ok (snd (expire_waiters now q))"
proof -
  have ok: "waiters_ok q" using assms by (simp add: convey_ok_def)
  let ?old = "filter (\<lambda>e. is_expired now (snd e)) (waiters q)"
  have keep: "\<not> (\<exists>e\<in>set ?old. we_sender (snd e) = we_sender w)"
    if "map_of (waiters q) u = Some w" "\<not> is_expired now w" for u w
  proof
    assume "\<exists>e\<in>set ?old. we_sender (snd e) = we_sender w"
    then obtain u' w' where w': "(u', w') \<in> set (waiters q)" "is_expired now w'" "we_sender w' = we_sender w"
      by auto
    then have "map_of (waiters q) u' = Some w'" using hm_mem waiters_okD(1) [OF ok] by metis
    with waiters_okD(4) [OF ok that(1) this] w' that show False by auto
  qed
  have "waiters_ok (q\<lparr>waiters := filter (\<lambda>e. \<not> is_expired now (snd e)) (waiters q),
      chans := fold (\<lambda>e. drop_sender (we_sender (snd e))) ?old (chans q)\<rparr>)"
    using ok keep
    by (auto simp: waiters_ok_def hm_ok_filter map_of_filter fold_drop_sender split: option.splits if_splits)
  then show ?thesis
    using assms by (simp add: expire_waiters_def Let_def convey_ok_def)
qed

section \<open>The order queue as an interface\<close>

text \<open>What the workers and the front ends rely on: a first-in first-out queue that keeps the newest
  entries when it is full.\<close>

locale drop_oldest_queue =
  fixes inv :: "'q \<Rightarrow> bool"
    and entries :: "'q \<Rightarrow> 'a list"
    and cap :: nat
    and enq :: "'a \<Rightarrow> 'q \<Rightarrow> 'q"
    and deq :: "'q \<Rightarrow> 'a option \<times> 'q"
  assumes bounded: "inv q \<Longrightarrow> length (entries q) \<le> cap"
    and enq_newest: "inv q \<Longrightarrow> inv (enq x q) \<and> entries (enq x q) = newest cap (entries q @ [x])"
    and deq_front: "inv q \<Longrightarrow> inv (snd (deq q)) \<and>
      (case entries q of
         [] \<Rightarrow> fst (deq q) = None \<and> entries (snd (deq q)) = []
       | x # xs \<Rightarrow> fst (deq q) = Some x \<and> entries (snd (deq q)) = xs)"
begin

lemma enq_all: "inv q \<Longrightarrow> inv (fold enq xs q) \<and> entries (fold enq xs q) = newest cap (entries q @ xs)"
proof (induction xs arbitrary: q)
  case Nil
  then show ?case using bounded [of q] by (simp add: newest_def)
next
  case (Cons x xs)
  then show ?case using enq_newest [of q x] Cons.IH [of "enq x q"] by (simp add: newest_newest)
qed

primrec drain :: "nat \<Rightarrow> 'q \<Rightarrow> 'a option list" where
  "drain 0 q = []"
| "drain (Suc n) q = fst (deq q) # drain n (snd (deq q))"

lemma drain_fifo: "inv q \<Longrightarrow> drain (length (entries q)) q = map Some (entries q)"
proof (induction "entries q" arbitrary: q)
  case (Cons x xs)
  then show ?case using deq_front [of q] Cons.hyps(1) [of "snd (deq q)"]
    by (auto split: list.splits simp flip: Cons.hyps(2))
qed simp

end

definition take_order :: "convey_queue \<Rightarrow> package option \<times> convey_queue" where
  "take_order q = (case consume_order q of (Inl _, q') \<Rightarrow> (None, q') | (Inr r, q') \<Rightarrow> (r, q'))"

interpretation cq: drop_oldest_queue "\<lambda>q. convey_ok q \<and> \<not> queue_poisoned q" order_queue
  ORDER_QUEUE_CAPACITY "\<lambda>p q. snd (produce_order p q)" take_order
proof
  fix q p
  assume q: "convey_ok q \<and> \<not> queue_poisoned q"
  then show "length (order_queue q) \<le> ORDER_QUEUE_CAPACITY" by (simp add: convey_ok_def)
  have "order_queue (notify_orders r) = order_queue r" "queue_poisoned (notify_orders r) = queue_poisoned r" for r
    by (simp_all add: notify_orders_def)
  moreover have "\<not> queue_poisoned (push_order p q)"
    using q by (simp add: push_order_def Let_def split: list.splits)
  ultimately show "(convey_ok (snd (produce_order p q)) \<and> \<not> queue_poisoned (snd (produce_order p q))) \<and>
      order_queue (snd (produce_order p q)) = newest ORDER_QUEUE_CAPACITY (order_queue q @ [p])"
    using q produce_order_ok [of q p] by (simp add: produce_order_def push_order_queue convey_ok_def)
next
  fix q
  assume q: "convey_ok q \<and> \<not> queue_poisoned q"
  then show "(convey_ok (snd (take_order q)) \<and> \<not> queue_poisoned (snd (take_order q))) \<and>
      (case order_queue q of
         [] \<Rightarrow> fst (take_order q) = None \<and> order_queue (snd (take_order q)) = []
       | x # xs \<Rightarrow> fst (take_order q) = Some x \<and> order_queue (snd (take_order q)) = xs)"
    using consume_order_ok [of q]
    by (cases "order_queue q") (simp_all add: take_order_def consume_order_def)
qed

section \<open>Front ends and workers around the queue\<close>

text \<open>The steps of the tasks that share the queue.  \<open>pending\<close> are the requests whose front end has
  registered a waiter and still holds the receiver; \<open>taken\<close> are the orders that workers process.
  A worker answers an order with a package of the same \<open>uni_id\<close>; the front end that times out or finds
  its channel closed unregisters its waiter and removes its order.\<close>

record convey_sys =
  sys_queue :: convey_queue
  pending :: "(uni_id \<times> nat) list"
  taken :: "package list"

definition sys_init :: convey_sys where
  "sys_init = \<lparr>sys_queue = convey_queue_new, pending = [], taken = []\<rparr>"

inductive sys_step :: "convey_sys \<Rightarrow> convey_sys \<Rightarrow> bool" where
  Register: "register_waiter now u (sys_queue s) = (Some c, q) \<Longrightarrow>
    sys_step s (s\<lparr>sys_queue := q, pending := (u, c) # pending s\<rparr>)"
| Refused: "register_waiter now u (sys_queue s) = (None, q) \<Longrightarrow> sys_step s (s\<lparr>sys_queue := q\<rparr>)"
| Produce: "(pk_uni_id p, c) \<in> set (pending s) \<Longrightarrow> produce_order p (sys_queue s) = (r, q) \<Longrightarrow>
    sys_step s (s\<lparr>sys_queue := q\<rparr>)"
| Consume: "consume_order (sys_queue s) = (Inr (Some p), q) \<Longrightarrow>
    sys_step s (s\<lparr>sys_queue := q, taken := p # taken s\<rparr>)"
| Respond: "p \<in> set (taken s) \<Longrightarrow> pk_uni_id p' = pk_uni_id p \<Longrightarrow>
    produce_service p' (sys_queue s) = (r, q) \<Longrightarrow>
    sys_step s (s\<lparr>sys_queue := q, taken := remove1 p (taken s)\<rparr>)"
| Expire: "expire_waiters now (sys_queue s) = (us, q) \<Longrightarrow> sys_step s (s\<lparr>sys_queue := q\<rparr>)"
| Unregister: "(u, c) \<in> set (pending s) \<Longrightarrow>
    sys_step s (s\<lparr>sys_queue := unregister_waiter u (sys_queue s)\<rparr>)"
| Remove: "sys_step s (s\<lparr>sys_queue := snd (remove_order u (sys_queue s))\<rparr>)"
| Leave: "sys_step s (s\<lparr>pending := filter (\<lambda>e. e \<noteq> (u, c)) (pending s)\<rparr>)"
| Subscribe: "sys_step s (s\<lparr>sys_queue := snd (subscribe_orders (sys_queue s))\<rparr>)"

inductive_cases sys_stepE: "sys_step s s'"

text \<open>A receiver \<open>c\<close> that was handed out for \<open>u\<close>: while it waits, its sender is the one registered for \<open>u\<close>;
  what it receives is addressed to \<open>u\<close>.\<close>

definition owned :: "uni_id \<Rightarrow> nat \<Rightarrow> convey_queue \<Rightarrow> bool" where
  "owned u c q \<longleftrightarrow> c < length (chans q) \<and>
     (chans q ! c = Waiting \<longrightarrow> (\<exists>w. map_of (waiters q) u = Some w \<and> we_sender w = c)) \<and>
     (\<forall>p. chans q ! c = Sent p \<longrightarrow> pk_uni_id p = u)"

lemma owned_updates [simp]:
  "owned u c (q\<lparr>order_queue := a\<rparr>) = owned u c q" "owned u c (q\<lparr>order_version := b\<rparr>) = owned u c q"
  "owned u c (q\<lparr>subscribers := d\<rparr>) = owned u c q"
  by (simp_all add: owned_def)

lemma owned_unregister:
  assumes "waiters_ok q" "owned u c q"
  shows "owned u c (unregister_waiter u' q)"
proof (cases "map_of (waiters q) u'")
  case (Some w)
  then have "we_sender w < length (chans q)" "chans q ! we_sender w = Waiting"
    using waiters_okD(2,3) [OF assms(1)] by auto
  with Some assms(2) show ?thesis
    by (auto simp: owned_def unregister_waiter_def drop_sender_nth)
qed (use assms(2) in \<open>simp add: unregister_waiter_def\<close>)

lemma owned_push: "convey_ok q \<Longrightarrow> owned u c q \<Longrightarrow> owned u c (push_order p q)"
  using owned_unregister by (auto simp: convey_ok_def push_order_def Let_def split: list.splits)

lemma owned_produce_order: "convey_ok q \<Longrightarrow> owned u c q \<Longrightarrow> owned u c (snd (produce_order p q))"
  by (simp add: produce_order_def notify_orders_def owned_push)

lemma owned_produce_service:
  assumes ok: "waiters_ok q" and own: "owned u c q"
  shows "owned u c (snd (produce_service p q))"
proof (cases "map_of (waiters q) (pk_uni_id p)")
  case (Some w)
  have w: "we_sender w < length (chans q)" "chans q ! we_sender w = Waiting"
    using waiters_okD(2,3) [OF ok Some] by auto
  show ?thesis
  proof (cases "c = we_sender w")
    case True
    then obtain w' where w': "map_of (waiters q) u = Some w'" "we_sender w' = we_sender w"
      using own w(2) by (auto simp: owned_def)
    then have "u = pk_uni_id p" by (rule waiters_okD(4) [OF ok _ Some])
    with True own w show ?thesis by (simp add: owned_def produce_service_def Some)
  next
    case False
    then have "u \<noteq> pk_uni_id p" if "chans q ! c = Waiting"
      using own that Some by (auto simp: owned_def)
    with False own show ?thesis by (simp add: owned_def produce_service_def Some)
  qed
qed (use own in \<open>simp add: produce_service_def\<close>)

lemma owned_register:
  "owned u c q \<Longrightarrow> owned u c (snd (register_waiter now u' q))"
  by (auto simp: owned_def register_waiter_def Let_def nth_append)

lemma owned_registered:
  "register_waiter now u q = (Some c, q') \<Longrightarrow> owned u c q'"
  by (auto simp: owned_def register_waiter_def Let_def split: if_splits)

lemma owned_expire:
  assumes ok: "waiters_ok q" and own: "owned u c q"
  shows "owned u c (snd (expire_waiters now q))"
proof -
  let ?old = "filter (\<lambda>e. is_expired now (snd e)) (waiters q)"
  have "(u, w) \<in> set ?old" if "map_of (waiters q) u = Some w" "is_expired now w" for w
    using that map_of_SomeD [of "waiters q" u w] by simp
  then show ?thesis
    using own waiters_okD(1) [OF ok]
    by (fastforce simp: owned_def expire_waiters_def Let_def fold_drop_sender map_of_filter
        split: if_splits)
qed

definition sys_ok :: "convey_sys \<Rightarrow> bool" where
  "sys_ok s \<longleftrightarrow> convey_ok (sys_queue s) \<and> (\<forall>(u, c)\<in>set (pending s). owned u c (sys_queue s))"

lemma sys_ok_queue:
  assumes "sys_ok s" "convey_ok q" "\<And>u c. owned u c (sys_queue s) \<Longrightarrow> owned u c q"
  shows "sys_ok (s\<lparr>sys_queue := q\<rparr>)" "sys_ok (s\<lparr>sys_queue := q, taken := t\<rparr>)"
  using assms unfolding sys_ok_def by auto

lemma sys_step_ok:
  assumes "sys_step s s'" and "sys_ok s"
  shows "sys_ok s'"
  using assms(1)
proof cases
  case (Register now u c q)
  have "owned u' c' q" if "owned u' c' (sys_queue s)" for u' c'
    using owned_register [OF that, of now u] Register by simp
  moreover have "convey_ok q"
    using register_waiter_ok [of "sys_queue s" now u] Register assms(2) by (simp add: sys_ok_def)
  ultimately show ?thesis
    using assms(2) owned_registered [OF Register(2)] unfolding Register(1) sys_ok_def by auto
next
  case (Refused now u q)
  then show ?thesis
    using register_waiter_ok [of "sys_queue s" now u] owned_register [of _ _ "sys_queue s" now u] assms(2)
    by (auto intro!: sys_ok_queue simp: sys_ok_def)
next
  case (Produce p c r q)
  then show ?thesis
    using produce_order_ok [of "sys_queue s" p] owned_produce_order [of "sys_queue s" _ _ p] assms(2)
    by (auto intro!: sys_ok_queue simp: sys_ok_def)
next
  case (Consume p q)
  have "owned u c q = owned u c (sys_queue s)" for u c
    using Consume(2) by (auto simp: consume_order_def split: if_splits list.splits)
  with Consume show ?thesis
    using consume_order_ok [of "sys_queue s"] assms(2)
    by (auto intro!: sys_ok_queue simp: sys_ok_def)
next
  case (Respond p p' r q)
  then show ?thesis
    using produce_service_ok [of "sys_queue s" p'] owned_produce_service [of "sys_queue s" _ _ p'] assms(2)
    by (auto intro!: sys_ok_queue simp: sys_ok_def convey_ok_def)
next
  case (Expire now us q)
  then show ?thesis
    using expire_waiters_ok [of "sys_queue s" now] owned_expire [of "sys_queue s" _ _ now] assms(2)
    by (auto intro!: sys_ok_queue simp: sys_ok_def convey_ok_def)
next
  case (Unregister u c)
  then show ?thesis
    using unregister_waiter_ok [of "sys_queue s"] owned_unregister [of "sys_queue s"] assms(2)
    by (auto intro!: sys_ok_queue simp: sys_ok_def convey_ok_def)
next
  case (Remove u)
  have "owned u' c (snd (remove_order u (sys_queue s))) = owned u' c (sys_queue s)" for u' c
    by (simp add: remove_order_def Let_def)
  with Remove show ?thesis
    using remove_order_ok [of "sys_queue s"] assms(2) by (auto intro!: sys_ok_queue simp: sys_ok_def)
next
  case (Leave u c)
  then show ?thesis using assms(2) by (auto simp: sys_ok_def)
next
  case Subscribe
  then show ?thesis
    using subscribe_orders_ok [of "sys_queue s"] assms(2)
    by (auto intro!: sys_ok_queue simp: sys_ok_def subscribe_orders_def)
qed

lemma sys_init_ok: "sys_ok sys_init"
  by (simp add: sys_ok_def sys_init_def convey_ok_def waiters_ok_def convey_queue_new_def)

lemma sys_reachable_ok: "sys_step\<^sup>*\<^sup>* sys_init s \<Longrightarrow> sys_ok s"
  by (induction rule: rtranclp_induct) (auto intro: sys_init_ok sys_step_ok)

lemma fold_remove_order:
  "fold (\<lambda>uid q. snd (remove_order uid q)) us q =
     (if queue_poisoned q then q
      else q\<lparr>order_queue := filter (\<lambda>p. pk_uni_id p \<notin> set us) (order_queue q)\<rparr>)"
proof (induction us arbitrary: q)
  case (Cons u us)
  have "filter (\<lambda>p. pk_uni_id p \<noteq> u \<and> pk_uni_id p \<notin> set us) xs =
      filter (\<lambda>p. pk_uni_id p \<notin> set us) (filter (\<lambda>p. pk_uni_id p \<noteq> u) xs)" for xs
    by (simp add: conj_commute)
  with Cons show ?case by (simp add: remove_order_def Let_def)
qed simp

section \<open>Properties\<close>

text \<open>C17: In every interleaving of front ends, workers and the cleanup task, the queue stays within its
  capacity, no id is registered twice, and every registered sender has a channel of its own that is
  still waiting.\<close>

theorem conveyer_invariant:
  assumes "sys_step\<^sup>*\<^sup>* sys_init s"
  shows "length (order_queue (sys_queue s)) \<le> ORDER_QUEUE_CAPACITY \<and>
    distinct (map fst (waiters (sys_queue s))) \<and>
    (\<forall>u w. map_of (waiters (sys_queue s)) u = Some w \<longrightarrow> chans (sys_queue s) ! we_sender w = Waiting \<and>
       we_sender w < length (chans (sys_queue s)))"
  using sys_reachable_ok [OF assms]
  by (auto simp: sys_ok_def convey_ok_def hm_ok_def dest: waiters_okD)

text \<open>A run in which one request is registered, queued, taken by a worker and answered.\<close>

definition demo_order :: package where
  "demo_order = package_new_with_id ''r1'' 0"

definition demo_run :: "nat \<Rightarrow> convey_sys" where
  "demo_run n =
     (let s1 = \<lparr>sys_queue = snd (register_waiter 5 ''r1'' convey_queue_new), pending = [(''r1'', 0)], taken = []\<rparr>;
          s2 = s1\<lparr>sys_queue := snd (produce_order demo_order (sys_queue s1))\<rparr>;
          s3 = s2\<lparr>sys_queue := snd (consume_order (sys_queue s2)), taken := [demo_order]\<rparr>;
          s4 = s3\<lparr>sys_queue := snd (produce_service (demo_order\<lparr>pk_status := Success\<rparr>) (sys_queue s3)),
                  taken := []\<rparr>
      in [sys_init, s1, s2, s3, s4] ! n)"

lemmas demo_run_defs = demo_run_def sys_init_def demo_order_def package_new_with_id_def
  convey_queue_new_def convey_defs hm_insert_def hm_remove_def ORDER_QUEUE_CAPACITY_def

lemma demo_run_steps:
  "sys_step (demo_run 0) (demo_run 1)" "sys_step (demo_run 1) (demo_run 2)"
  "sys_step (demo_run 2) (demo_run 3)" "sys_step (demo_run 3) (demo_run 4)"
proof -
  show "sys_step (demo_run 0) (demo_run 1)"
    using sys_step.Register [of 5 "''r1''" "demo_run 0" 0 "sys_queue (demo_run 1)"]
    by (simp add: demo_run_defs)
  show "sys_step (demo_run 1) (demo_run 2)"
    using sys_step.Produce [of demo_order 0 "demo_run 1" "Inr ()" "sys_queue (demo_run 2)"]
    by (simp add: demo_run_defs)
  show "sys_step (demo_run 2) (demo_run 3)"
    using sys_step.Consume [of "demo_run 2" demo_order "sys_queue (demo_run 3)"]
    by (simp add: demo_run_defs)
  show "sys_step (demo_run 3) (demo_run 4)"
    using sys_step.Respond [of demo_order "demo_run 3" "demo_order\<lparr>pk_status := Success\<rparr>" "Inr ()"
        "sys_queue (demo_run 4)"]
    by (simp add: demo_run_defs)
qed

lemma demo_run_reachable: "sys_step\<^sup>*\<^sup>* sys_init (demo_run 2)" "sys_step\<^sup>*\<^sup>* sys_init (demo_run 4)"
proof -
  have "sys_init = demo_run 0" by (simp add: demo_run_def)
  then show "sys_step\<^sup>*\<^sup>* sys_init (demo_run 2)" using demo_run_steps(1,2) by auto
  then show "sys_step\<^sup>*\<^sup>* sys_init (demo_run 4)"
    using demo_run_steps(3,4) by (meson rtranclp.rtrancl_into_rtrancl)
qed

theorem conveyer_invariant_witness:
  "length (order_queue (sys_queue (demo_run 2))) \<le> ORDER_QUEUE_CAPACITY"
  using conveyer_invariant [OF demo_run_reachable(1)] by simp

text \<open>C18: In every interleaving, what a front end receives on its channel is the answer to its own request:
  a package with the \<open>uni_id\<close> it registered, never that of another request.\<close>

theorem response_addressed:
  assumes "sys_step\<^sup>*\<^sup>* sys_init s" and "(u, c) \<in> set (pending s)"
    and "chans (sys_queue s) ! c = Sent p"
  shows "pk_uni_id p = u"
  using sys_reachable_ok [OF assms(1)] assms(2,3) by (auto simp: sys_ok_def owned_def)

theorem response_addressed_witness:
  "\<exists>p. chans (sys_queue (demo_run 4)) ! 0 = Sent p \<and> pk_uni_id p = ''r1''"
proof -
  have p: "chans (sys_queue (demo_run 4)) ! 0 = Sent (demo_order\<lparr>pk_status := Success\<rparr>)"
    "(''r1'', 0) \<in> set (pending (demo_run 4))"
    by (simp_all add: demo_run_defs)
  with response_addressed [OF demo_run_reachable(2) p(2,1)] show ?thesis by blast
qed

text \<open>Orders are kept first in, first out; when more arrive than the queue holds, exactly the newest
  are kept, in order.\<close>

theorem produce_keeps_newest:
  assumes "convey_ok q" and "\<not> queue_poisoned q"
  shows "order_queue (fold (\<lambda>p q. snd (produce_order p q)) ps q) =
    newest ORDER_QUEUE_CAPACITY (order_queue q @ ps)"
  using cq.enq_all [of q ps] assms by simp

theorem produce_keeps_newest_witness:
  "order_queue (fold (\<lambda>p q. snd (produce_order p q)) (replicate 33 demo_order) convey_queue_new) =
     replicate 32 demo_order"
  using produce_keeps_newest [of convey_queue_new "replicate 33 demo_order"] sys_init_ok
  by (simp add: sys_ok_def sys_init_def convey_queue_new_def newest_def ORDER_QUEUE_CAPACITY_def)

text \<open>When a full queue drops its oldest order, the front end that waits for it is told at once: its
  channel is closed and its registration is gone; all the other registrations stay.\<close>

theorem dropped_order_told:
  assumes "convey_ok q" and "\<not> queue_poisoned q" and "\<not> waiters_poisoned q"
    and "order_queue q = d # ds" and "length (order_queue q) = ORDER_QUEUE_CAPACITY"
    and "map_of (waiters q) (pk_uni_id d) = Some w"
  shows "\<exists>q'. produce_order p q = (Inr (), q') \<and> order_queue q' = ds @ [p] \<and>
    chans q' ! we_sender w = Closed \<and>
    map_of (waiters q') = (map_of (waiters q))(pk_uni_id d := None)"
proof -
  have "we_sender w < length (chans q)" "chans q ! we_sender w = Waiting"
    using waiters_okD(2,3) assms(1,6) by (auto simp: convey_ok_def)
  with assms show ?thesis
    by (auto simp: produce_order_def push_order_def unregister_waiter_def notify_orders_def
        drop_sender_nth Let_def)
qed

theorem dropped_order_told_witness:
  "\<exists>q'. produce_order (demo_order\<lparr>pk_uni_id := ''r2''\<rparr>)
      ((snd (register_waiter 5 ''r1'' convey_queue_new))\<lparr>order_queue := replicate 32 demo_order\<rparr>) =
      (Inr (), q') \<and> chans q' ! 0 = Closed"
proof -
  let ?q = "(snd (register_waiter 5 ''r1'' convey_queue_new))\<lparr>order_queue := replicate 32 demo_order\<rparr>"
  have "convey_ok convey_queue_new" using sys_init_ok by (simp add: sys_ok_def sys_init_def)
  then have "convey_ok ?q"
    using register_waiter_ok [of convey_queue_new 5 "''r1''"] by (simp add: convey_ok_def ORDER_QUEUE_CAPACITY_def)
  moreover have "order_queue ?q = demo_order # replicate 31 demo_order"
    by (simp add: numeral_eq_Suc)
  ultimately show ?thesis
    using dropped_order_told [of ?q demo_order "replicate 31 demo_order"
        "\<lparr>we_sender = 0, we_created_at = 5\<rparr>" "demo_order\<lparr>pk_uni_id := ''r2''\<rparr>"]
    by (auto simp: demo_run_defs)
qed

text \<open>The cleanup at an instant removes exactly the waiters that are more than 20 seconds old,
  and exactly their orders; the other orders keep their order.\<close>

theorem cleanup_removes_expired:
  assumes "convey_ok q" and "\<not> queue_poisoned q" and "\<not> waiters_poisoned q"
  shows "(\<forall>u. map_of (waiters (cleanup_expired_waiters now q)) u =
      (case map_of (waiters q) u of
         None \<Rightarrow> None
       | Some w \<Rightarrow> if now - we_created_at w > secs 20 then None else Some w)) \<and>
    order_queue (cleanup_expired_waiters now q) =
      filter (\<lambda>p. case map_of (waiters q) (pk_uni_id p) of
         None \<Rightarrow> True
       | Some w \<Rightarrow> now - we_created_at w \<le> secs 20) (order_queue q)"
proof -
  have ok: "hm_ok (waiters q)" using assms(1) waiters_okD(1) by (simp add: convey_ok_def)
  have "u \<notin> fst ` {e \<in> set (waiters q). is_expired now (snd e)} \<longleftrightarrow>
      (case map_of (waiters q) u of None \<Rightarrow> True | Some w \<Rightarrow> now - we_created_at w \<le> secs 20)" for u
    using hm_mem [OF ok, of u]
    by (auto simp: is_expired_def WAITERS_TTL_def image_iff not_less split: option.splits)
  then have "filter (\<lambda>p. pk_uni_id p \<notin> fst ` {e \<in> set (waiters q). is_expired now (snd e)}) (order_queue q) =
      filter (\<lambda>p. case map_of (waiters q) (pk_uni_id p) of
         None \<Rightarrow> True
       | Some w \<Rightarrow> now - we_created_at w \<le> secs 20) (order_queue q)"
    by simp
  then show ?thesis
    using assms(2,3) ok
    by (auto simp: cleanup_expired_waiters_def expire_waiters_def fold_remove_order Let_def map_of_filter
        is_expired_def WAITERS_TTL_def split: option.splits)
qed

theorem cleanup_removes_expired_witness:
  "map_of (waiters (cleanup_expired_waiters (secs 30) (sys_queue (demo_run 2)))) ''r1'' = None"
proof -
  have "convey_ok (sys_queue (demo_run 2))"
    using sys_reachable_ok [OF demo_run_reachable(1)] by (simp add: sys_ok_def)
  moreover have "\<not> queue_poisoned (sys_queue (demo_run 2))" "\<not> waiters_poisoned (sys_queue (demo_run 2))"
    "map_of (waiters (sys_queue (demo_run 2))) ''r1'' = Some \<lparr>we_sender = 0, we_created_at = 5\<rparr>"
    by (simp_all add: demo_run_defs)
  ultimately show ?thesis
    using cleanup_removes_expired [of "sys_queue (demo_run 2)" "secs 30"] by (simp add: secs_def)
qed

end
