(* ===== verification/Lina_Codec.thy ===== *)
theory Lina_Codec
  imports Lina_Prelude
begin

text \<open>
  The block codec and the hashing helpers of \<^verbatim>\<open>linabase/src/utils.rs\<close>.
  A payload is cut into chunks; each chunk is gzipped, or kept raw when gzip would make it
  longer, and framed as \<^verbatim>\<open>flag(1) + length(u16 LE) + body\<close>.  The gzip coder and the BLAKE3
  hasher are third-party code and parameters of the model.  The \<^verbatim>\<open>unsafe\<close> buffer assembly is
  modelled on a buffer of possibly uninitialised bytes.
\<close>

section \<open>The block manager\<close>

text \<open>\<^verbatim>\<open>GzEncoder\<close> and \<^verbatim>\<open>GzDecoder\<close> as used by \<open>__encode\<close> and \<open>__decode\<close>.\<close>

record gzip =
  gz_encode :: "byte list \<Rightarrow> byte list res"
  gz_decode :: "byte list \<Rightarrow> byte list res"

text \<open>
  What the code relies on: encoding into a \<^verbatim>\<open>Vec\<close> does not fail, and decoding an encoded
  chunk gives the chunk back.
\<close>

definition gzip_lawful :: "gzip \<Rightarrow> bool" where
  "gzip_lawful g \<longleftrightarrow> (\<forall>x. \<exists>y. gz_encode g x = Inr y \<and> gz_decode g y = Inr x)"

record block_manager =
  chunk_size :: nat
  multi_thread_threshold :: nat
  max_threads :: nat

text \<open>The argument is \<^verbatim>\<open>std::thread::available_parallelism()\<close>, \<^const>\<open>None\<close> when it is unknown.\<close>

definition block_manager_new :: "nat option \<Rightarrow> block_manager" where
  "block_manager_new available_parallelism =
     \<lparr>chunk_size = 0x10000 - 0x400,
      multi_thread_threshold = 1024 * 1024,
      max_threads = min 4 (case available_parallelism of None \<Rightarrow> 4 | Some n \<Rightarrow> n)\<rparr>"

definition determine_thread_count :: "block_manager \<Rightarrow> nat \<Rightarrow> nat" where
  "determine_thread_count bm input_size =
     (if input_size < multi_thread_threshold bm then 1 else max_threads bm)"

definition gz_encode_chunk :: "gzip \<Rightarrow> byte list \<Rightarrow> byte list res" where
  "gz_encode_chunk g chunk = gz_encode g chunk"

definition gz_decode_chunk :: "gzip \<Rightarrow> byte list \<Rightarrow> byte list res" where
  "gz_decode_chunk g chunk = gz_decode g chunk"

definition compress_chunk :: "gzip \<Rightarrow> byte list \<Rightarrow> byte list res" where
  "compress_chunk g chunk =
     (case gz_encode_chunk g chunk of
        Inl e \<Rightarrow> Inl e
      | Inr compressed_chunk \<Rightarrow>
          (let raw_len = length chunk; compressed_chunk_len = length compressed_chunk in
           if compressed_chunk_len > raw_len
           then Inr ([0] @ to_le_bytes16 (word_of_nat raw_len) @ chunk)
           else if compressed_chunk_len > 0x10000
           then Inl (IoErr OtherKind ''Compressed chunk length is greater than 64KiB'')
           else Inr ([1] @ to_le_bytes16 (word_of_nat compressed_chunk_len) @ compressed_chunk)))"

text \<open>
  The output buffer after \<^verbatim>\<open>set_len(total_len)\<close> holds uninitialised bytes (\<^const>\<open>None\<close>).
  \<open>copy_nonoverlapping\<close> past its end, or handing out a buffer with an uninitialised byte, is
  undefined behaviour, the result \<^const>\<open>None\<close> here.
\<close>

definition copy_nonoverlapping :: "'a list \<Rightarrow> nat \<Rightarrow> 'a option list \<Rightarrow> 'a option list option" where
  "copy_nonoverlapping src offset buf =
     (if offset + length src \<le> length buf
      then Some (take offset buf @ map Some src @ drop (offset + length src) buf)
      else None)"

fun assemble_loop :: "'a list list \<Rightarrow> nat \<Rightarrow> 'a option list \<Rightarrow> ('a option list \<times> nat) option" where
  "assemble_loop [] offset buf = Some (buf, offset)"
| "assemble_loop (c # cs) offset buf =
     (if length c = 0 then assemble_loop cs offset buf
      else case copy_nonoverlapping c offset buf of
             None \<Rightarrow> None
           | Some buf' \<Rightarrow> assemble_loop cs (offset + length c) buf')"

definition assemble :: "'a list list \<Rightarrow> 'a list option" where
  "assemble cs =
     (let total_len = sum_list (map length cs) in
      case assemble_loop cs 0 (replicate total_len None) of
        None \<Rightarrow> None
      | Some (buf, offset) \<Rightarrow> if offset = total_len then those buf else None)"

text \<open>
  Both branches of \<open>compress_all\<close> map the chunks in order: rayon's \<^verbatim>\<open>par_chunks\<close> followed by
  \<^verbatim>\<open>collect\<close> keeps the order of the chunks (which of several errors it reports is not
  specified; the model reports the first).
\<close>

definition compress_all :: "block_manager \<Rightarrow> gzip \<Rightarrow> byte list \<Rightarrow> byte list res" where
  "compress_all bm g input =
     (let thread_count = determine_thread_count bm (length input);
          compressed_chunks =
            (if thread_count = 1 then traverse (compress_chunk g) (chunks (chunk_size bm) input)
             else traverse (compress_chunk g) (chunks (chunk_size bm) input))
      in case compressed_chunks of
           Inl e \<Rightarrow> Inl e
         | Inr cs \<Rightarrow> (case assemble cs of None \<Rightarrow> Inl Undefined_Behaviour | Some r \<Rightarrow> Inr r))"

function scan_chunks ::
  "byte list \<Rightarrow> nat \<Rightarrow> (byte \<times> nat \<times> nat) list \<Rightarrow> (byte \<times> nat \<times> nat) list res" where
  "scan_chunks input i acc =
     (if i < length input then
        if i + 3 > length input then Inl (IoErr UnexpectedEof ''Incomplete chunk length'')
        else (let flag = input ! i;
                  chunk_len = unat (from_le_bytes16 (input ! (i + 1)) (input ! (i + 2))) in
              if i + 3 + chunk_len > length input
              then Inl (IoErr InvalidData ''Incomplete chunk data'')
              else scan_chunks input (i + 3 + chunk_len)
                     (acc @ [(flag, i + 3, i + 3 + chunk_len)]))
      else Inr acc)"
  by pat_completeness auto
termination
  by (relation "measure (\<lambda>(input, i, acc). length input - i)") auto

declare scan_chunks.simps [simp del]

definition decode_body :: "gzip \<Rightarrow> byte \<Rightarrow> byte list \<Rightarrow> byte list res" where
  "decode_body g flag body =
     (if flag = 0 then Inr body
      else if flag = 1 then gz_decode_chunk g body
      else Inl (IoErr InvalidData ''Unknown chunk flag''))"

definition decode_slice :: "gzip \<Rightarrow> byte list \<Rightarrow> byte \<times> nat \<times> nat \<Rightarrow> byte list res" where
  "decode_slice g input loc =
     (case loc of (flag, start, stop) \<Rightarrow> decode_body g flag (take (stop - start) (drop start input)))"

text \<open>\<open>original_size\<close> only sets the capacity of the output buffer.\<close>

definition decompress_all :: "gzip \<Rightarrow> byte list \<Rightarrow> nat \<Rightarrow> byte list res" where
  "decompress_all g input original_size =
     (case scan_chunks input 0 [] of
        Inl e \<Rightarrow> Inl e
      | Inr chunks_with_flag \<Rightarrow>
          (case traverse (decode_slice g input) chunks_with_flag of
             Inl e \<Rightarrow> Inl e
           | Inr cs \<Rightarrow> (case assemble cs of None \<Rightarrow> Inl Undefined_Behaviour | Some r \<Rightarrow> Inr r)))"

section \<open>Hashing\<close>

text \<open>
  The hasher is a parameter \<open>h\<close>: the hexadecimal digest of all the bytes given to
  \<^verbatim>\<open>Hasher::update\<close>, in order.
\<close>

definition BUFFER_SIZE :: nat where
  "BUFFER_SIZE = 0x80000"

definition get_hash256_from_binary :: "(byte list \<Rightarrow> string) \<Rightarrow> byte list \<Rightarrow> string" where
  "get_hash256_from_binary h input = h (concat (chunks BUFFER_SIZE input))"

text \<open>
  \<open>reads\<close> are the results of the successive \<^verbatim>\<open>file.read\<close> calls, each at most a buffer long;
  past the last one the file is at its end and a read returns no bytes.
\<close>

fun hash_file_loop ::
  "(byte list \<Rightarrow> string) \<Rightarrow> nat \<Rightarrow> byte list res list \<Rightarrow> nat \<Rightarrow> byte list \<Rightarrow> string res" where
  "hash_file_loop h file_size [] total_read acc =
     (if total_read < file_size then Inl (IoErr UnexpectedEof ''Unexpected EOF'') else Inr (h acc))"
| "hash_file_loop h file_size (r # rs) total_read acc =
     (if total_read < file_size then
        (case r of
           Inl e \<Rightarrow> Inl e
         | Inr bytes \<Rightarrow>
             if length bytes = 0 then Inl (IoErr UnexpectedEof ''Unexpected EOF'')
             else hash_file_loop h file_size rs (total_read + length bytes) (acc @ bytes))
      else Inr (h acc))"

definition get_hash256_from_file ::
  "(byte list \<Rightarrow> string) \<Rightarrow> nat \<Rightarrow> byte list res list \<Rightarrow> string res" where
  "get_hash256_from_file h file_size reads = hash_file_loop h file_size reads 0 []"

section \<open>The assembled buffer\<close>

lemma assemble_loop_correct:
  "assemble_loop cs (length done) (map Some done @ replicate (sum_list (map length cs) + n) None) =
     Some (map Some (done @ concat cs) @ replicate n None, length done + sum_list (map length cs))"
proof (induction cs arbitrary: "done")
  case (Cons c cs)
  have "assemble_loop cs (length (done @ c))
      (map Some (done @ c) @ replicate (sum_list (map length cs) + n) None) =
      Some (map Some ((done @ c) @ concat cs) @ replicate n None,
        length (done @ c) + sum_list (map length cs))"
    by (rule Cons.IH)
  then show ?case
    by (cases "c = []") (simp_all add: copy_nonoverlapping_def add.assoc)
qed simp

lemma those_map_Some: "those (map Some xs) = Some xs"
  by (induction xs) auto

text \<open>The \<^verbatim>\<open>unsafe\<close> copies stay inside the buffer and initialise all of it.\<close>

lemma assemble_concat [simp]: "assemble cs = Some (concat cs)"
  using assemble_loop_correct [of cs "[]" 0] by (simp add: assemble_def those_map_Some)

section \<open>Frames\<close>

text \<open>The framed form of a chunk, and where \<open>scan_chunks\<close> finds each body.\<close>

definition frame :: "byte \<times> byte list \<Rightarrow> byte list" where
  "frame fb = (case fb of (flag, body) \<Rightarrow> [flag] @ to_le_bytes16 (word_of_nat (length body)) @ body)"

definition frames_ok :: "(byte \<times> byte list) list \<Rightarrow> bool" where
  "frames_ok fs \<longleftrightarrow> (\<forall>fb\<in>set fs. length (snd fb) < 2 ^ 16)"

fun frame_locs :: "nat \<Rightarrow> (byte \<times> byte list) list \<Rightarrow> (byte \<times> nat \<times> nat) list" where
  "frame_locs i [] = []"
| "frame_locs i (fb # fs) =
     (fst fb, i + 3, i + 3 + length (snd fb)) # frame_locs (i + 3 + length (snd fb)) fs"

lemma length_frame [simp]: "length (frame fb) = 3 + length (snd fb)"
  by (cases fb) (simp add: frame_def)

lemma frame_nth:
  "length body < 2 ^ 16 \<Longrightarrow>
   (pre @ frame (flag, body) @ post) ! length pre = flag \<and>
   unat (from_le_bytes16 ((pre @ frame (flag, body) @ post) ! (length pre + 1))
     ((pre @ frame (flag, body) @ post) ! (length pre + 2))) = length body"
  by (simp add: frame_def to_le_bytes16_def nth_append le_bytes16_roundtrip unat_of_nat)

lemma scan_chunks_done: "\<not> i < length input \<Longrightarrow> scan_chunks input i acc = Inr acc"
  by (subst scan_chunks.simps) simp

lemma scan_chunks_step:
  assumes "length body < 2 ^ 16"
  shows "scan_chunks (pre @ frame (flag, body) @ post) (length pre) acc =
    scan_chunks (pre @ frame (flag, body) @ post) (length pre + 3 + length body)
      (acc @ [(flag, length pre + 3, length pre + 3 + length body)])"
  using frame_nth [OF assms, of pre flag post]
  by (subst scan_chunks.simps) (simp add: Let_def)

lemma scan_chunks_frames:
  "frames_ok fs \<Longrightarrow>
   scan_chunks (pre @ concat (map frame fs)) (length pre) acc = Inr (acc @ frame_locs (length pre) fs)"
proof (induction fs arbitrary: pre acc)
  case Nil
  then show ?case by (simp add: scan_chunks_done)
next
  case (Cons fb fs)
  obtain flag body where fb: "fb = (flag, body)" by force
  with Cons.prems have body: "length body < 2 ^ 16" and ok: "frames_ok fs"
    by (auto simp: frames_ok_def)
  from Cons.IH [OF ok, of "pre @ frame fb"]
  show ?case by (simp add: fb scan_chunks_step [OF body] add.assoc)
qed

lemma decode_slice_frame:
  "decode_slice g (pre @ frame (flag, body) @ post)
     (flag, length pre + 3, length pre + 3 + length body) = decode_body g flag body"
  by (simp add: decode_slice_def frame_def to_le_bytes16_def)

lemma traverse_frame_locs:
  "traverse (decode_slice g (pre @ concat (map frame fs))) (frame_locs (length pre) fs) =
   traverse (\<lambda>fb. decode_body g (fst fb) (snd fb)) fs"
proof (induction fs arbitrary: pre)
  case (Cons fb fs)
  obtain flag body where fb: "fb = (flag, body)" by force
  have "traverse (decode_slice g (pre @ concat (map frame (fb # fs))))
      (frame_locs (length pre + 3 + length body) fs) =
    traverse (\<lambda>fb. decode_body g (fst fb) (snd fb)) fs"
    using Cons.IH [of "pre @ frame fb"] by (simp add: fb add.assoc)
  then show ?case
    by (simp add: fb decode_slice_frame split: sum.splits)
qed simp

lemma decompress_frames:
  assumes "frames_ok fs"
    and "traverse (\<lambda>fb. decode_body g (fst fb) (snd fb)) fs = Inr ds"
  shows "decompress_all g (concat (map frame fs)) n = Inr (concat ds)"
  using scan_chunks_frames [OF assms(1), of "[]" "[]"] traverse_frame_locs [of g "[]" fs] assms(2)
  by (simp add: decompress_all_def)

text \<open>Conversely, a scan that succeeds has read a sequence of complete frames.\<close>

lemma scan_chunks_InrD:
  "scan_chunks input i acc = Inr locs \<Longrightarrow> i \<le> length input \<Longrightarrow>
   \<exists>fs. frames_ok fs \<and> drop i input = concat (map frame fs)"
proof (induction input i acc rule: scan_chunks.induct)
  case (1 input i acc)
  show ?case
  proof (cases "i < length input")
    case False
    with "1.prems" have "drop i input = []" by simp
    then show ?thesis by (intro exI [of _ "[]"]) (simp add: frames_ok_def)
  next
    case True
    let ?w = "from_le_bytes16 (input ! (i + 1)) (input ! (i + 2))"
    let ?n = "unat ?w"
    from True "1.prems"(1) have le: "i + 3 + ?n \<le> length input"
      and rec: "scan_chunks input (i + 3 + ?n) (acc @ [(input ! i, i + 3, i + 3 + ?n)]) = Inr locs"
      by (auto simp: scan_chunks.simps [of input i acc] Let_def split: if_splits)
    from "1.IH" [OF True _ refl refl _ rec] le obtain fs
      where ok: "frames_ok fs" and rest: "drop (i + 3 + ?n) input = concat (map frame fs)"
      by auto
    define body where "body = take ?n (drop (i + 3) input)"
    have len: "length body = ?n" using le by (simp add: body_def)
    have bytes: "to_le_bytes16 ?w = [input ! (i + 1), input ! (i + 2)]"
      by (rule to_le_from_le_bytes16)
    have "drop i input = input ! i # input ! (i + 1) # input ! (i + 2) # drop (i + 3) input"
      using le by (simp add: Cons_nth_drop_Suc eval_nat_numeral)
    also have "drop (i + 3) input = body @ drop (i + 3 + ?n) input"
      using append_take_drop_id [of ?n "drop (i + 3) input"]
      by (simp only: body_def drop_drop add.commute [of ?n])
    finally have "drop i input = frame (input ! i, body) @ concat (map frame fs)"
      using len bytes by (simp only: frame_def rest) simp
    moreover have "frames_ok ((input ! i, body) # fs)"
      using ok len unsigned_less [of ?w, where 'a = nat] by (simp add: frames_ok_def)
    ultimately show ?thesis by (intro exI [of _ "(input ! i, body) # fs"]) simp
  qed
qed

section \<open>Compression\<close>

text \<open>The frame that \<open>compress_chunk\<close> makes of a chunk: its flag and body.\<close>

definition chunk_frame :: "gzip \<Rightarrow> byte list \<Rightarrow> byte \<times> byte list" where
  "chunk_frame g chunk =
     (case gz_encode g chunk of
        Inr c \<Rightarrow> if length c > length chunk then (0, chunk) else (1, c)
      | Inl _ \<Rightarrow> (0, chunk))"

lemma chunk_frame_length: "length (snd (chunk_frame g chunk)) \<le> length chunk"
  by (auto simp: chunk_frame_def split: sum.splits)

lemma compress_chunk_frame:
  assumes "gzip_lawful g" and "length chunk \<le> 0x10000"
  shows "compress_chunk g chunk = Inr (frame (chunk_frame g chunk))"
proof -
  from assms(1) obtain c where "gz_encode g chunk = Inr c"
    by (auto simp: gzip_lawful_def)
  with assms(2) show ?thesis
    by (simp add: compress_chunk_def gz_encode_chunk_def chunk_frame_def frame_def Let_def)
qed

lemma decode_chunk_frame:
  assumes "gzip_lawful g"
  shows "decode_body g (fst (chunk_frame g chunk)) (snd (chunk_frame g chunk)) = Inr chunk"
proof -
  from assms obtain c where "gz_encode g chunk = Inr c" "gz_decode g c = Inr chunk"
    by (auto simp: gzip_lawful_def)
  then show ?thesis
    by (simp add: decode_body_def gz_decode_chunk_def chunk_frame_def)
qed

definition bm_ok :: "block_manager \<Rightarrow> bool" where
  "bm_ok bm \<longleftrightarrow> 0 < chunk_size bm \<and> chunk_size bm < 0x10000"

lemma bm_ok_new [simp]: "bm_ok (block_manager_new p)"
  by (simp add: bm_ok_def block_manager_new_def)

lemma compress_all_frames:
  assumes "gzip_lawful g" and "bm_ok bm"
  shows "compress_all bm g input =
    Inr (concat (map (frame \<circ> chunk_frame g) (chunks (chunk_size bm) input)))"
proof -
  have "traverse (compress_chunk g) (chunks (chunk_size bm) input) =
      Inr (map (frame \<circ> chunk_frame g) (chunks (chunk_size bm) input))"
    using assms chunks_length_le [of _ "chunk_size bm" input]
    by (intro traverse_total) (fastforce simp: bm_ok_def intro!: compress_chunk_frame)
  then show ?thesis by (simp add: compress_all_def Let_def)
qed

lemma compress_decompress:
  assumes "gzip_lawful g" and "bm_ok bm" and "compress_all bm g input = Inr out"
  shows "decompress_all g out n = Inr input"
proof -
  let ?cs = "chunks (chunk_size bm) input"
  have out: "out = concat (map frame (map (chunk_frame g) ?cs))"
    using assms compress_all_frames [OF assms(1,2)] by simp
  have ok: "frames_ok (map (chunk_frame g) ?cs)"
  proof -
    have "length (snd (chunk_frame g c)) < 2 ^ 16" if "c \<in> set ?cs" for c
      using chunk_frame_length [of g c] chunks_length_le [OF that] assms(2)
      by (simp add: bm_ok_def)
    then show ?thesis by (auto simp: frames_ok_def)
  qed
  have "traverse (\<lambda>fb. decode_body g (fst fb) (snd fb)) (map (chunk_frame g) ?cs) = Inr ?cs"
    using traverse_total [of ?cs "(\<lambda>fb. decode_body g (fst fb) (snd fb)) \<circ> chunk_frame g" id]
      decode_chunk_frame [OF assms(1)] by (simp add: traverse_map)
  from decompress_frames [OF ok this, of n] show ?thesis
    using assms(2) by (simp add: out bm_ok_def del: map_map)
qed

section \<open>The codec as an interface\<close>

text \<open>What the store relies on: compression succeeds and decompression undoes it.\<close>

locale block_codec =
  fixes lawful :: "'g \<Rightarrow> bool"
    and compress :: "'g \<Rightarrow> byte list \<Rightarrow> byte list res"
    and decompress :: "'g \<Rightarrow> byte list \<Rightarrow> nat \<Rightarrow> byte list res"
  assumes compress_total: "lawful g \<Longrightarrow> \<exists>out. compress g input = Inr out"
    and decompress_compress: "lawful g \<Longrightarrow> compress g input = Inr out \<Longrightarrow> decompress g out n = Inr input"
begin

lemma compress_inject:
  "lawful g \<Longrightarrow> compress g x = Inr out \<Longrightarrow> compress g y = Inr out \<Longrightarrow> x = y"
  by (metis decompress_compress sum.inject(2))

lemma codec_roundtrip:
  "lawful g \<Longrightarrow> \<exists>out. compress g input = Inr out \<and> decompress g out n = Inr input"
  using compress_total decompress_compress by blast

end

interpretation bm: block_codec gzip_lawful "compress_all (block_manager_new p)" decompress_all
  for p
  by unfold_locales (auto simp: compress_all_frames intro: compress_decompress [OF _ bm_ok_new])

section \<open>Properties of the codec\<close>

definition stored_gzip :: gzip where
  "stored_gzip = \<lparr>gz_encode = Inr, gz_decode = Inr\<rparr>"

lemma stored_gzip_lawful: "gzip_lawful stored_gzip"
  by (simp add: gzip_lawful_def stored_gzip_def)

text \<open>C11: Compression never fails on the block manager the program builds, whatever parallelism it
  finds, and decompression gives the input back, whatever size hint it is passed.\<close>

theorem compress_roundtrip:
  assumes "gzip_lawful g"
  shows "\<exists>out. compress_all (block_manager_new p) g input = Inr out \<and>
    decompress_all g out original_size = Inr input"
  by (rule bm.codec_roundtrip [OF assms])

theorem compress_roundtrip_witness:
  "\<exists>out. compress_all (block_manager_new None) stored_gzip [1, 2, 3] = Inr out \<and>
     decompress_all stored_gzip out 0 = Inr [1, 2, 3]"
  by (rule compress_roundtrip [OF stored_gzip_lawful])

lemma length_concat_frames:
  "(\<And>c. c \<in> set cs \<Longrightarrow> length (f c) \<le> length c + 3) \<Longrightarrow>
   length (concat (map f cs)) \<le> length (concat cs) + 3 * length cs"
proof (induction cs)
  case (Cons c cs)
  then have "length (f c) \<le> length c + 3"
    and "length (concat (map f cs)) \<le> length (concat cs) + 3 * length cs" by simp_all
  then show ?case by simp
qed simp

text \<open>Incompressible input costs three bytes for each block of 63 KiB and no more, since a block that
  gzip would enlarge is stored as it is.\<close>

theorem compress_size_bound:
  assumes "gzip_lawful g" and "compress_all (block_manager_new p) g input = Inr out"
  shows "length out \<le> length input + 3 * ((length input + 64511) div 64512)"
proof -
  let ?bm = "block_manager_new p"
  let ?cs = "chunks (chunk_size ?bm) input"
  have size: "chunk_size ?bm = 64512" by (simp add: block_manager_new_def)
  have out: "out = concat (map (frame \<circ> chunk_frame g) ?cs)"
    using assms compress_all_frames [OF assms(1) bm_ok_new, of p input] by simp
  have "length out \<le> length (concat ?cs) + 3 * length ?cs"
    unfolding out by (rule length_concat_frames) (simp add: chunk_frame_length)
  then show ?thesis by (simp add: size length_chunks add.commute)
qed

theorem compress_size_bound_witness:
  "\<exists>out. compress_all (block_manager_new None) stored_gzip [1, 2, 3] = Inr out \<and> length out \<le> 6"
proof -
  obtain out where "compress_all (block_manager_new None) stored_gzip [1, 2, 3] = Inr out"
    using bm.compress_total [OF stored_gzip_lawful] by blast
  with compress_size_bound [OF stored_gzip_lawful this] show ?thesis by simp
qed



text \<open>Only a sequence of complete frames decompresses: a truncated header, a truncated body and an
  unknown flag are errors.\<close>

theorem decompress_accepts_frames:
  assumes "decompress_all g input original_size = Inr out"
  shows "\<exists>fs ds. input = concat (map frame fs) \<and>
    list_all2 (\<lambda>fb d. decode_body g (fst fb) (snd fb) = Inr d) fs ds \<and> out = concat ds \<and>
    (\<forall>fb\<in>set fs. fst fb \<in> {0, 1} \<and> length (snd fb) < 2 ^ 16)"
proof -
  obtain locs where "scan_chunks input 0 [] = Inr locs"
    using assms by (auto simp: decompress_all_def split: sum.splits)
  then obtain fs where fs: "frames_ok fs" "input = concat (map frame fs)"
    using scan_chunks_InrD [of input 0 "[]" locs] by auto
  have scan: "scan_chunks input 0 [] = Inr (frame_locs 0 fs)"
    using scan_chunks_frames [OF fs(1), of "[]" "[]"] by (simp add: fs(2))
  obtain ds where ds: "traverse (\<lambda>fb. decode_body g (fst fb) (snd fb)) fs = Inr ds" "out = concat ds"
    using assms scan traverse_frame_locs [of g "[]" fs]
    by (auto simp: decompress_all_def fs(2) split: sum.splits)
  have flags: "fst fb \<in> {0, 1}" if mem: "fb \<in> set fs" for fb
  proof -
    obtain d where "decode_body g (fst fb) (snd fb) = Inr d"
      using traverse_Inr_mem [OF ds(1) mem] by auto
    then show ?thesis by (auto simp: decode_body_def split: if_splits)
  qed
  have "list_all2 (\<lambda>fb d. decode_body g (fst fb) (snd fb) = Inr d) fs ds"
    using ds(1) by (simp add: traverse_Inr_iff)
  with fs ds(2) flags show ?thesis by (intro exI [of _ fs] exI [of _ ds]) (auto simp: frames_ok_def)
qed

theorem decompress_accepts_frames_witness:
  "\<exists>fs. [0, 2, 0, 7, 8] = concat (map frame fs)"
proof -
  have "decompress_all stored_gzip (concat (map frame [(0, [7, 8])])) 0 = Inr (concat [[7, 8]])"
    by (rule decompress_frames) (simp_all add: frames_ok_def decode_body_def)
  moreover have "concat (map frame [(0, [7, 8])]) = [0, 2, 0, 7, 8]"
    by (simp add: frame_def to_le_bytes16_def)
  ultimately have "decompress_all stored_gzip [0, 2, 0, 7, 8] 0 = Inr [7, 8]" by simp
  from decompress_accepts_frames [OF this] show ?thesis by blast
qed

lemma hash_file_loop_complete:
  "length acc = total_read \<Longrightarrow> file_size = total_read + length (concat bs) \<Longrightarrow> [] \<notin> set bs \<Longrightarrow>
   hash_file_loop h file_size (map Inr bs) total_read acc = Inr (h (acc @ concat bs))"
proof (induction bs arbitrary: total_read acc)
  case (Cons b bs)
  have "0 < length b" using Cons.prems(3) by auto
  moreover have "hash_file_loop h file_size (map Inr bs) (total_read + length b) (acc @ b) =
      Inr (h ((acc @ b) @ concat bs))"
    using Cons.prems by (intro Cons.IH) simp_all
  ultimately show ?case using Cons.prems by simp
qed simp

text \<open>Hashing a file gives the hash of its bytes in memory, however the reads cut it up, so a file
  that \<open>tidy\<close> hashes and a payload that \<open>put\<close> hashes agree.\<close>

theorem hash_file_eq_hash_binary:
  assumes "concat bs = content" and "[] \<notin> set bs"
  shows "get_hash256_from_file h (length content) (map Inr bs) = Inr (get_hash256_from_binary h content)"
  using hash_file_loop_complete [of "[]" 0 "length content" bs h] assms
  by (simp add: get_hash256_from_file_def get_hash256_from_binary_def BUFFER_SIZE_def)

theorem hash_file_eq_hash_binary_witness:
  "get_hash256_from_file of_bytes 3 (map Inr [[1], [2, 3]]) = Inr (get_hash256_from_binary of_bytes [1, 2, 3])"
  using hash_file_eq_hash_binary [of "[[1], [2, 3]]" "[1, 2, 3]" of_bytes] by (simp add: numeral_3_eq_3)

end
