(* ===== verification/Lina_World.thy ===== *)
theory Lina_World
  imports Lina_Codec
begin

text \<open>
  The state the store works on and the effects it uses: the three SQLite tables of
  \<^verbatim>\<open>linabase/src/dao.rs\<close>, the payload files under \<^verbatim>\<open>linadata\<close>, and a script of faults.
  Every database statement and every file-system call is an external call; \<open>call\<close> takes one
  entry off the script and fails the call when it is \<^const>\<open>True\<close>, so that a theorem about all
  scripts is a theorem about all patterns of failing calls.  An empty script means no fault.
\<close>

section \<open>Tables and files\<close>

record link =
  l_id :: string
  l_name :: string
  l_ext :: string
  l_source_id :: string
  l_mode :: u32

text \<open>\<open>size\<close> and \<open>count\<close> are \<^verbatim>\<open>u64\<close>; their subtraction is checked in the code, and the sums
  they hold are numbers of bytes and of rows.\<close>

record source =
  s_id :: string
  s_hash256 :: string
  s_compressed :: bool
  s_size :: nat
  s_count :: nat
  s_create_at :: string
  s_update_at :: string

record dir_entry =
  d_path :: string
  d_parent :: string
  d_mode :: u32

text \<open>A path below \<^verbatim>\<open>linadata\<close>, as its components.\<close>

type_synonym path = "string list"

text \<open>
  The tables are lists in rowid order, the order in which SQLite scans them.  \<open>host\<close> are the
  files outside \<^verbatim>\<open>linadata\<close> that \<open>put\<close> reads and \<open>get_and_save\<close> writes.  \<open>rng\<close> counts the
  identifiers generated so far and \<open>clock\<close> is the formatted time.
\<close>

record world =
  links :: "link list"
  sources :: "source list"
  dirs :: "dir_entry list"
  files :: "path \<Rightarrow> byte list option"
  host :: "string \<Rightarrow> byte list option"
  faults :: "bool list"
  rng :: nat
  clock :: string

text \<open>Third-party code and system services the store calls.  The generators are functions of the number
  of identifiers drawn before; \<open>id_horizon\<close> bounds the draws for which they are assumed not to repeat
  themselves.\<close>

record env =
  gz :: gzip
  hash256 :: "byte list \<Rightarrow> string"
  parallelism :: "nat option"
  uuid_v4 :: "nat \<Rightarrow> string"
  utc_stamp :: "nat \<Rightarrow> string"
  nano_id8 :: "nat \<Rightarrow> string"
  id_horizon :: nat

section \<open>Operations with effects\<close>

type_synonym 'a op = "world \<Rightarrow> 'a res \<times> world"

definition ok :: "'a \<Rightarrow> 'a op" where
  "ok x = (\<lambda>w. (Inr x, w))"

definition fail :: "err \<Rightarrow> 'a op" where
  "fail e = (\<lambda>w. (Inl e, w))"

text \<open>\<open>and_then\<close> is the \<^verbatim>\<open>?\<close> operator, \<open>or_else\<close> is \<^verbatim>\<open>if let Err(err) = m\<close> with a handler, and
  \<open>ignore\<close> is \<^verbatim>\<open>let _ = m\<close>.\<close>

definition and_then :: "'a op \<Rightarrow> ('a \<Rightarrow> 'b op) \<Rightarrow> 'b op" where
  "and_then m f = (\<lambda>w. case m w of (Inl e, w') \<Rightarrow> (Inl e, w') | (Inr x, w') \<Rightarrow> f x w')"

definition or_else :: "'a op \<Rightarrow> (err \<Rightarrow> 'a op) \<Rightarrow> 'a op" where
  "or_else m h = (\<lambda>w. case m w of (Inl e, w') \<Rightarrow> h e w' | (Inr x, w') \<Rightarrow> (Inr x, w'))"

definition ignore :: "'a op \<Rightarrow> unit op" where
  "ignore m = (\<lambda>w. (Inr (), snd (m w)))"

definition pop :: "world \<Rightarrow> world" where
  "pop w = w\<lparr>faults := tl (faults w)\<rparr>"

definition faulty :: "world \<Rightarrow> bool" where
  "faulty w = (case faults w of [] \<Rightarrow> False | b # _ \<Rightarrow> b)"

definition call :: "err \<Rightarrow> 'a op \<Rightarrow> 'a op" where
  "call e m = (\<lambda>w. if faulty w then (Inl e, pop w) else m (pop w))"

text \<open>Reading the state, and changing it, inside an external call.\<close>

definition get :: "(world \<Rightarrow> 'a) \<Rightarrow> 'a op" where
  "get f = (\<lambda>w. (Inr (f w), w))"

definition modify :: "(world \<Rightarrow> world) \<Rightarrow> unit op" where
  "modify f = (\<lambda>w. (Inr (), f w))"

text \<open>A \<^verbatim>\<open>for\<close> loop whose body may return early with an error.\<close>

primrec for_each :: "('a \<Rightarrow> unit op) \<Rightarrow> 'a list \<Rightarrow> unit op" where
  "for_each f [] = ok ()"
| "for_each f (x # xs) = and_then (f x) (\<lambda>_. for_each f xs)"

section \<open>File-system calls\<close>

definition io_error :: err where
  "io_error = IoErr OtherKind ''I/O error''"

definition not_found :: err where
  "not_found = IoErr NotFound ''No such file''"

definition fs_create_dir_all :: "unit op" where
  "fs_create_dir_all = call io_error (ok ())"

definition fs_read :: "path \<Rightarrow> byte list op" where
  "fs_read p = call io_error
     (\<lambda>w. case files w p of None \<Rightarrow> (Inl not_found, w) | Some b \<Rightarrow> (Inr b, w))"

text \<open>\<^verbatim>\<open>File::create\<close> truncates; \<^verbatim>\<open>write_all\<close> on the fresh file then gives it its content.  A failed
  write leaves the file as it was created.\<close>

definition fs_create :: "path \<Rightarrow> unit op" where
  "fs_create p = call io_error (modify (\<lambda>w. w\<lparr>files := (files w)(p := Some [])\<rparr>))"

definition fs_write_all :: "path \<Rightarrow> byte list \<Rightarrow> unit op" where
  "fs_write_all p b = call io_error (modify (\<lambda>w. w\<lparr>files := (files w)(p := Some b)\<rparr>))"

definition fs_sync_all :: "unit op" where
  "fs_sync_all = call io_error (ok ())"

definition fs_rename :: "path \<Rightarrow> path \<Rightarrow> unit op" where
  "fs_rename p q = call io_error
     (\<lambda>w. case files w p of
            None \<Rightarrow> (Inl not_found, w)
          | Some b \<Rightarrow> (Inr (), w\<lparr>files := (files w)(p := None, q := Some b)\<rparr>))"

definition fs_remove_file :: "path \<Rightarrow> unit op" where
  "fs_remove_file p = call io_error
     (\<lambda>w. case files w p of
            None \<Rightarrow> (Inl not_found, w)
          | Some _ \<Rightarrow> (Inr (), w\<lparr>files := (files w)(p := None)\<rparr>))"

definition host_read :: "string \<Rightarrow> byte list op" where
  "host_read p = call io_error
     (\<lambda>w. case host w p of None \<Rightarrow> (Inl not_found, w) | Some b \<Rightarrow> (Inr b, w))"

definition host_write :: "string \<Rightarrow> byte list \<Rightarrow> unit op" where
  "host_write p b = call io_error (modify (\<lambda>w. w\<lparr>host := (host w)(p := Some b)\<rparr>))"

section \<open>Identifiers\<close>

definition fresh_uuid :: "env \<Rightarrow> string op" where
  "fresh_uuid e = (\<lambda>w. (Inr (uuid_v4 e (rng w)), w\<lparr>rng := Suc (rng w)\<rparr>))"

lemmas monad_defs = ok_def fail_def and_then_def or_else_def ignore_def get_def modify_def

lemmas fs_defs = fs_create_dir_all_def fs_read_def fs_create_def fs_write_all_def fs_sync_all_def
  fs_rename_def fs_remove_file_def host_read_def host_write_def

section \<open>Fault scripts\<close>

text \<open>\<open>quiet\<close>: no call to come fails.  \<open>one_fault\<close>: at most one does.\<close>

definition quiet :: "world \<Rightarrow> bool" where
  "quiet w \<longleftrightarrow> True \<notin> set (faults w)"

definition one_fault :: "world \<Rightarrow> bool" where
  "one_fault w \<longleftrightarrow> count_list (faults w) True \<le> 1"

lemma pop_sel [simp]:
  "links (pop w) = links w" "sources (pop w) = sources w" "dirs (pop w) = dirs w"
  "files (pop w) = files w" "host (pop w) = host w" "rng (pop w) = rng w" "clock (pop w) = clock w"
  "faults (pop w) = tl (faults w)"
  by (simp_all add: pop_def)

lemma quiet_not_faulty [simp]: "quiet w \<Longrightarrow> \<not> faulty w"
  by (auto simp: quiet_def faulty_def split: list.splits)

lemma quiet_pop [simp]: "quiet w \<Longrightarrow> quiet (pop w)"
  by (cases "faults w") (auto simp: quiet_def pop_def)

lemma quiet_cong: "faults w' = faults w \<Longrightarrow> quiet w' = quiet w"
  by (simp add: quiet_def)

lemma one_fault_cong: "faults w' = faults w \<Longrightarrow> one_fault w' = one_fault w"
  by (simp add: one_fault_def)

lemma quiet_one_fault [simp]: "quiet w \<Longrightarrow> one_fault w"
  by (simp add: quiet_def one_fault_def count_list_0_iff)

lemma one_fault_pop [simp]: "one_fault w \<Longrightarrow> one_fault (pop w)"
  by (cases "faults w") (auto simp: one_fault_def pop_def split: if_splits)

lemma one_fault_faulty [simp]: "one_fault w \<Longrightarrow> faulty w \<Longrightarrow> quiet (pop w)"
  by (cases "faults w")
     (auto simp: one_fault_def faulty_def quiet_def pop_def count_list_0_iff split: if_splits)

lemma quiet_Nil [simp]: "faults w = [] \<Longrightarrow> quiet w"
  by (simp add: quiet_def)

lemma call_quiet [simp]: "quiet w \<Longrightarrow> call e m w = m (pop w)"
  by (simp add: call_def)

lemma quiet_updates [simp]:
  "quiet (w\<lparr>links := a\<rparr>) = quiet w" "quiet (w\<lparr>sources := b\<rparr>) = quiet w"
  "quiet (w\<lparr>dirs := c\<rparr>) = quiet w" "quiet (w\<lparr>files := d\<rparr>) = quiet w"
  "quiet (w\<lparr>host := f\<rparr>) = quiet w" "quiet (w\<lparr>rng := g\<rparr>) = quiet w"
  by (simp_all add: quiet_def)

lemma one_fault_updates [simp]:
  "one_fault (w\<lparr>links := a\<rparr>) = one_fault w" "one_fault (w\<lparr>sources := b\<rparr>) = one_fault w"
  "one_fault (w\<lparr>dirs := c\<rparr>) = one_fault w" "one_fault (w\<lparr>files := d\<rparr>) = one_fault w"
  "one_fault (w\<lparr>host := f\<rparr>) = one_fault w" "one_fault (w\<lparr>rng := g\<rparr>) = one_fault w"
  by (simp_all add: one_fault_def)

section \<open>Predicates an operation keeps\<close>

text \<open>\<open>keeps P m\<close>: whatever calls fail, \<open>m\<close> leads from a world in \<open>P\<close> to a world in \<open>P\<close>.\<close>

definition keeps :: "(world \<Rightarrow> bool) \<Rightarrow> 'a op \<Rightarrow> bool" where
  "keeps P m \<longleftrightarrow> (\<forall>w. P w \<longrightarrow> P (snd (m w)))"

text \<open>A predicate that does not look at the fault script or the generator.\<close>

definition oblivious :: "(world \<Rightarrow> bool) \<Rightarrow> bool" where
  "oblivious P \<longleftrightarrow> (\<forall>w fs n. P (w\<lparr>faults := fs, rng := n\<rparr>) = P w)"

lemma obliviousD: "oblivious P \<Longrightarrow> P (pop w) = P w"
proof -
  assume "oblivious P"
  then have "P (w\<lparr>faults := tl (faults w), rng := rng w\<rparr>) = P w"
    unfolding oblivious_def by blast
  then show ?thesis by (simp add: pop_def)
qed

lemma oblivious_rng: "oblivious P \<Longrightarrow> P (w\<lparr>rng := n\<rparr>) = P w"
proof -
  assume "oblivious P"
  then have "P (w\<lparr>faults := faults w, rng := n\<rparr>) = P w"
    unfolding oblivious_def by blast
  then show ?thesis by simp
qed

lemma keepsD: "keeps P m \<Longrightarrow> P w \<Longrightarrow> P (snd (m w))"
  by (simp add: keeps_def)

lemma keeps_ok [keeps_intros]: "keeps P (ok x)"
  by (simp add: keeps_def ok_def)

lemma keeps_fail [keeps_intros]: "keeps P (fail e)"
  by (simp add: keeps_def fail_def)

lemma keeps_and_then [keeps_intros]:
  "keeps P m \<Longrightarrow> (\<And>x. keeps P (f x)) \<Longrightarrow> keeps P (and_then m f)"
  by (fastforce simp: keeps_def and_then_def split: prod.splits sum.splits)

lemma keeps_or_else [keeps_intros]:
  "keeps P m \<Longrightarrow> (\<And>e. keeps P (h e)) \<Longrightarrow> keeps P (or_else m h)"
  by (fastforce simp: keeps_def or_else_def split: prod.splits sum.splits)

lemma keeps_ignore [keeps_intros]: "keeps P m \<Longrightarrow> keeps P (ignore m)"
  by (simp add: keeps_def ignore_def)

lemma keeps_for_each [keeps_intros]: "(\<And>x. x \<in> set xs \<Longrightarrow> keeps P (f x)) \<Longrightarrow> keeps P (for_each f xs)"
  by (induction xs) (auto intro!: keeps_intros)

lemma keeps_call [keeps_intros]: "oblivious P \<Longrightarrow> keeps P m \<Longrightarrow> keeps P (call e m)"
  by (auto simp: keeps_def call_def obliviousD)

lemma keeps_modify: "(\<And>w. P w \<Longrightarrow> P (f w)) \<Longrightarrow> keeps P (modify f)"
  by (simp add: keeps_def modify_def)

lemma keeps_fresh_uuid [keeps_intros]: "oblivious P \<Longrightarrow> keeps P (fresh_uuid e)"
  by (simp add: keeps_def fresh_uuid_def oblivious_rng)

lemma keeps_fs_create_dir_all [keeps_intros]: "oblivious P \<Longrightarrow> keeps P fs_create_dir_all"
  unfolding fs_create_dir_all_def by (intro keeps_call keeps_ok)

lemma keeps_fs_sync_all [keeps_intros]: "oblivious P \<Longrightarrow> keeps P fs_sync_all"
  unfolding fs_sync_all_def by (intro keeps_call keeps_ok)

lemma keeps_fs_read [keeps_intros]: "oblivious P \<Longrightarrow> keeps P (fs_read p)"
  unfolding fs_read_def by (rule keeps_call) (auto simp: keeps_def split: option.splits)

lemma keeps_host_read [keeps_intros]: "oblivious P \<Longrightarrow> keeps P (host_read p)"
  unfolding host_read_def by (rule keeps_call) (auto simp: keeps_def split: option.splits)

end
