(* ===== verification/Lina_Dao.thy ===== *)
theory Lina_Dao
  imports Lina_World
begin

text \<open>
  The statements of \<^verbatim>\<open>linabase/src/dao.rs\<close> over the tables, with the constraints that
  \<^verbatim>\<open>SQL_INIT\<close> declares: primary keys on \<open>link.id\<close>, \<open>source.id\<close> and \<open>dir.path\<close>, and the foreign
  key from \<open>link.source_id\<close> to \<open>source.id\<close> with \<^verbatim>\<open>ON DELETE RESTRICT\<close> (foreign keys are switched
  on by \<open>Dao::new\<close>).  Under the key constraints the tables are maps; the second half relates
  each statement to its effect on those maps.
\<close>

section \<open>Schema and connection\<close>

definition source_exists :: "world \<Rightarrow> string \<Rightarrow> bool" where
  "source_exists w i \<longleftrightarrow> (\<exists>s\<in>set (sources w). s_id s = i)"

definition source_referenced :: "world \<Rightarrow> string \<Rightarrow> bool" where
  "source_referenced w i \<longleftrightarrow> (\<exists>l\<in>set (links w). l_source_id l = i)"

text \<open>\<open>CREATE TABLE IF NOT EXISTS\<close> keeps existing tables; the two \<open>ALTER TABLE\<close> migrations are
  ignored when the column exists.\<close>

definition init_schema :: "unit op" where
  "init_schema =
     and_then (call DbErr (ok ())) (\<lambda>_.
     and_then (ignore (call DbErr (ok ()))) (\<lambda>_.
     ignore (call DbErr (ok ()))))"

definition dao_new :: "unit op" where
  "dao_new =
     and_then fs_create_dir_all (\<lambda>_.
     and_then (call DbErr (ok ())) (\<lambda>_.
     init_schema))"

section \<open>Links\<close>

definition insert_link_with_id :: "string \<Rightarrow> string \<Rightarrow> string \<Rightarrow> string \<Rightarrow> u32 \<Rightarrow> unit op" where
  "insert_link_with_id lid name ext source_id mode = call DbErr
     (\<lambda>w. if lid \<in> l_id ` set (links w) \<or> \<not> source_exists w source_id then (Inl DbErr, w)
          else (Inr (), w\<lparr>links := links w @
            [\<lparr>l_id = lid, l_name = name, l_ext = ext, l_source_id = source_id, l_mode = mode\<rparr>]\<rparr>))"

text \<open>
  SQLite's \<open>LIKE\<close>: ASCII letters match without regard to case, \<open>%\<close> matches any string and \<open>_\<close>
  one character, that is one byte together with the UTF-8 continuation bytes that follow a
  lead byte.  The statement has no \<open>ESCAPE\<close>.
\<close>

definition ascii_lower :: "char \<Rightarrow> char" where
  "ascii_lower c = (if CHR ''A'' \<le> c \<and> c \<le> CHR ''Z'' then char_of (of_char c + (32 :: nat)) else c)"

fun skip_cont :: "string \<Rightarrow> string" where
  "skip_cont [] = []"
| "skip_cont (c # s) = (if utf8_cont (char_byte c) then skip_cont s else c # s)"

definition next_char :: "string \<Rightarrow> string" where
  "next_char s = (case s of [] \<Rightarrow> [] | c # s' \<Rightarrow> if char_byte c < 0xC0 then s' else skip_cont s')"

lemma length_skip_cont: "length (skip_cont s) \<le> length s"
  by (induction s) auto

lemma length_next_char: "length (next_char (c # s)) \<le> length s"
  by (simp add: next_char_def length_skip_cont)

function sql_like :: "string \<Rightarrow> string \<Rightarrow> bool" where
  "sql_like [] s = (s = [])"
| "sql_like (p # ps) s =
     (if p = CHR ''%'' then sql_like ps s \<or> (if s = [] then False else sql_like (p # ps) (tl s))
      else if s = [] then False
      else if p = CHR ''_'' then sql_like ps (next_char s)
      else ascii_lower p = ascii_lower (hd s) \<and> sql_like ps (tl s))"
  by pat_completeness auto
termination
  by (relation "measures [\<lambda>(p, s). length p, \<lambda>(p, s). length s]") auto

definition get_links_by_name :: "string \<Rightarrow> bool \<Rightarrow> link list op" where
  "get_links_by_name name fuzzy = call DbErr
     (get (\<lambda>w. if fuzzy then filter (\<lambda>l. sql_like name (l_name l)) (links w)
               else filter (\<lambda>l. l_name l = name) (links w)))"

definition get_links_by_ext :: "string \<Rightarrow> link list op" where
  "get_links_by_ext ext = call DbErr (get (\<lambda>w. filter (\<lambda>l. l_ext l = ext) (links w)))"

text \<open>The limit is bound as an \<^verbatim>\<open>i64\<close>; a negative limit is no limit.\<close>

definition get_n_links :: "nat \<Rightarrow> link list op" where
  "get_n_links n = call DbErr
     (get (\<lambda>w. if n = 0 then links w
               else if n \<ge> 2 ^ 63 then links w
               else take n (links w)))"

definition set_link_mode :: "string \<Rightarrow> u32 \<Rightarrow> unit op" where
  "set_link_mode name mode = call DbErr (modify (\<lambda>w. w\<lparr>links :=
     map (\<lambda>l. if l_name l = name then l\<lparr>l_mode := mode\<rparr> else l) (links w)\<rparr>))"

definition delete_link_by_id :: "string \<Rightarrow> unit op" where
  "delete_link_by_id lid = call DbErr (modify (\<lambda>w. w\<lparr>links :=
     filter (\<lambda>l. l_id l \<noteq> lid) (links w)\<rparr>))"

definition update_link_source_id :: "string \<Rightarrow> string \<Rightarrow> unit op" where
  "update_link_source_id link_id new_source_id = call DbErr
     (\<lambda>w. if (\<exists>l\<in>set (links w). l_id l = link_id) \<and> \<not> source_exists w new_source_id
          then (Inl DbErr, w)
          else (Inr (), w\<lparr>links :=
            map (\<lambda>l. if l_id l = link_id then l\<lparr>l_source_id := new_source_id\<rparr> else l) (links w)\<rparr>))"

section \<open>Directories\<close>

definition insert_dir :: "string \<Rightarrow> string \<Rightarrow> unit op" where
  "insert_dir path parent = call DbErr
     (\<lambda>w. if path \<in> d_path ` set (dirs w) then (Inl DbErr, w)
          else (Inr (), w\<lparr>dirs := dirs w @ [\<lparr>d_path = path, d_parent = parent, d_mode = 493\<rparr>]\<rparr>))"

definition delete_dir :: "string \<Rightarrow> unit op" where
  "delete_dir path = call DbErr (modify (\<lambda>w. w\<lparr>dirs :=
     filter (\<lambda>d. d_path d \<noteq> path) (dirs w)\<rparr>))"

definition get_dir_by_path :: "string \<Rightarrow> dir_entry option op" where
  "get_dir_by_path path = call DbErr (get (\<lambda>w. find (\<lambda>d. d_path d = path) (dirs w)))"

definition list_dirs_by_parent :: "string \<Rightarrow> dir_entry list op" where
  "list_dirs_by_parent parent = call DbErr
     (get (\<lambda>w. sort_key d_path (filter (\<lambda>d. d_parent d = parent) (dirs w))))"

definition list_all_dirs :: "dir_entry list op" where
  "list_all_dirs = call DbErr (get (\<lambda>w. sort_key d_path (dirs w)))"

definition set_dir_mode :: "string \<Rightarrow> u32 \<Rightarrow> unit op" where
  "set_dir_mode path mode = call DbErr (modify (\<lambda>w. w\<lparr>dirs :=
     map (\<lambda>d. if d_path d = path then d\<lparr>d_mode := mode\<rparr> else d) (dirs w)\<rparr>))"

section \<open>Sources\<close>

definition insert_source_with_count :: "string \<Rightarrow> string \<Rightarrow> bool \<Rightarrow> nat \<Rightarrow> nat \<Rightarrow> unit op" where
  "insert_source_with_count sid hash compressed sz count = call DbErr
     (\<lambda>w. if source_exists w sid then (Inl DbErr, w)
          else (Inr (), w\<lparr>sources := sources w @
            [\<lparr>s_id = sid, s_hash256 = hash, s_compressed = compressed, s_size = sz, s_count = count,
              s_create_at = clock w, s_update_at = clock w\<rparr>]\<rparr>))"

definition insert_source :: "string \<Rightarrow> string \<Rightarrow> bool \<Rightarrow> nat \<Rightarrow> unit op" where
  "insert_source sid hash compressed sz = insert_source_with_count sid hash compressed sz 1"

definition list_source_ids :: "string list op" where
  "list_source_ids = call DbErr (get (\<lambda>w. map s_id (sources w)))"

definition get_source_by_id :: "string \<Rightarrow> source option op" where
  "get_source_by_id sid = call DbErr (get (\<lambda>w. find (\<lambda>s. s_id s = sid) (sources w)))"

definition get_source_by_hash256 :: "string \<Rightarrow> source option op" where
  "get_source_by_hash256 hash = call DbErr (get (\<lambda>w. find (\<lambda>s. s_hash256 s = hash) (sources w)))"

definition update_source :: "string \<Rightarrow> string \<Rightarrow> bool \<Rightarrow> nat \<Rightarrow> nat \<Rightarrow> unit op" where
  "update_source sid new_hash256 new_compressed new_size new_count = call DbErr
     (modify (\<lambda>w. w\<lparr>sources :=
        map (\<lambda>s. if s_id s = sid
                 then s\<lparr>s_hash256 := new_hash256, s_compressed := new_compressed,
                        s_size := new_size, s_count := new_count, s_update_at := clock w\<rparr>
                 else s) (sources w)\<rparr>))"

definition delete_source_by_id :: "string \<Rightarrow> unit op" where
  "delete_source_by_id sid = call DbErr
     (\<lambda>w. if source_referenced w sid then (Inl DbErr, w)
          else (Inr (), w\<lparr>sources := filter (\<lambda>s. s_id s \<noteq> sid) (sources w)\<rparr>))"

section \<open>The tables as maps\<close>

definition link_map :: "world \<Rightarrow> string \<Rightarrow> link option" where
  "link_map w = map_of (map (\<lambda>l. (l_name l, l)) (links w))"

definition source_map :: "world \<Rightarrow> string \<Rightarrow> source option" where
  "source_map w = map_of (map (\<lambda>s. (s_id s, s)) (sources w))"

text \<open>Link names are unique because \<open>put\<close> looks a name up before it inserts a link; the other two
  are primary keys.\<close>

definition keys_ok :: "world \<Rightarrow> bool" where
  "keys_ok w \<longleftrightarrow> distinct (map l_id (links w)) \<and> distinct (map l_name (links w)) \<and>
     distinct (map s_id (sources w))"

lemma keys_okD:
  "keys_ok w \<Longrightarrow> distinct (map l_id (links w))" "keys_ok w \<Longrightarrow> distinct (map l_name (links w))"
  "keys_ok w \<Longrightarrow> distinct (map s_id (sources w))"
  by (simp_all add: keys_ok_def)

text \<open>A table whose key column has no duplicates is a map.\<close>

lemma find_key: "find (\<lambda>x. k x = a) xs = map_of (map (\<lambda>x. (k x, x)) xs) a"
  by (induction xs) auto

lemma map_of_key_SomeD: "map_of (map (\<lambda>x. (k x, x)) xs) a = Some x \<Longrightarrow> x \<in> set xs \<and> k x = a"
  by (auto dest: map_of_SomeD)

lemma map_of_key_None: "map_of (map (\<lambda>x. (k x, x)) xs) a = None \<longleftrightarrow> a \<notin> k ` set xs"
  by (simp add: map_of_eq_None_iff image_image)

lemma filter_key:
  "distinct (map k xs) \<Longrightarrow>
   filter (\<lambda>x. k x = a) xs = (case map_of (map (\<lambda>x. (k x, x)) xs) a of None \<Rightarrow> [] | Some x \<Rightarrow> [x])"
  by (induction xs) (auto simp: filter_empty_conv map_of_key_None [THEN iffD2] split: option.splits)

lemma map_of_key_mem:
  "distinct (map k xs) \<Longrightarrow> x \<in> set xs \<Longrightarrow> map_of (map (\<lambda>x. (k x, x)) xs) (k x) = Some x"
  by (induction xs) (auto simp: image_iff)

lemma map_of_key_snoc:
  "k x \<notin> k ` set xs \<Longrightarrow>
   map_of (map (\<lambda>x. (k x, x)) (xs @ [x])) = (map_of (map (\<lambda>x. (k x, x)) xs))(k x \<mapsto> x)"
  by (induction xs) (auto simp: fun_eq_iff)

lemma map_of_key_filter:
  "map_of (map (\<lambda>x. (k x, x)) (filter (\<lambda>x. k x \<noteq> a) xs)) = (map_of (map (\<lambda>x. (k x, x)) xs))(a := None)"
  by (induction xs) (auto simp: fun_eq_iff)

lemma map_of_key_map:
  assumes "\<And>x. k (f x) = k x"
  shows "map_of (map (\<lambda>x. (k x, x)) (map f xs)) a = map_option f (map_of (map (\<lambda>x. (k x, x)) xs) a)"
  by (induction xs) (auto simp: assms)

lemma link_map_SomeD: "link_map w n = Some l \<Longrightarrow> l \<in> set (links w) \<and> l_name l = n"
  unfolding link_map_def by (rule map_of_key_SomeD)

lemma source_map_SomeD: "source_map w i = Some s \<Longrightarrow> s \<in> set (sources w) \<and> s_id s = i"
  unfolding source_map_def by (rule map_of_key_SomeD)

lemma link_map_mem: "keys_ok w \<Longrightarrow> l \<in> set (links w) \<Longrightarrow> link_map w (l_name l) = Some l"
  unfolding link_map_def by (rule map_of_key_mem) (auto dest: keys_okD)

lemma source_map_mem: "keys_ok w \<Longrightarrow> s \<in> set (sources w) \<Longrightarrow> source_map w (s_id s) = Some s"
  unfolding source_map_def by (rule map_of_key_mem) (auto dest: keys_okD)

lemma source_exists_iff: "source_exists w i \<longleftrightarrow> source_map w i \<noteq> None"
  by (auto simp: source_exists_def source_map_def map_of_key_None)

lemma source_referenced_iff:
  "keys_ok w \<Longrightarrow> source_referenced w i \<longleftrightarrow> (\<exists>n l. link_map w n = Some l \<and> l_source_id l = i)"
  by (auto simp: source_referenced_def dest: link_map_SomeD link_map_mem)

lemma links_by_name:
  "keys_ok w \<Longrightarrow>
   filter (\<lambda>l. l_name l = n) (links w) = (case link_map w n of None \<Rightarrow> [] | Some l \<Rightarrow> [l])"
  unfolding link_map_def by (rule filter_key) (auto dest: keys_okD)

lemma find_source_id: "find (\<lambda>s. s_id s = i) (sources w) = source_map w i"
  by (simp add: source_map_def find_key)

lemma maps_pop [simp]:
  "link_map (pop w) = link_map w" "source_map (pop w) = source_map w" "keys_ok (pop w) = keys_ok w"
  by (simp_all add: link_map_def source_map_def keys_ok_def)

lemma maps_updates [simp]:
  "link_map (w\<lparr>files := f\<rparr>) = link_map w" "source_map (w\<lparr>files := f\<rparr>) = source_map w"
  "keys_ok (w\<lparr>files := f\<rparr>) = keys_ok w" "link_map (w\<lparr>rng := n\<rparr>) = link_map w"
  "source_map (w\<lparr>rng := n\<rparr>) = source_map w" "keys_ok (w\<lparr>rng := n\<rparr>) = keys_ok w"
  "link_map (w\<lparr>sources := ss\<rparr>) = link_map w" "source_map (w\<lparr>links := ls\<rparr>) = source_map w"
  "link_map (w\<lparr>dirs := ds\<rparr>) = link_map w" "source_map (w\<lparr>dirs := ds\<rparr>) = source_map w"
  "keys_ok (w\<lparr>dirs := ds\<rparr>) = keys_ok w"
  "link_map (w\<lparr>host := h\<rparr>) = link_map w" "source_map (w\<lparr>host := h\<rparr>) = source_map w"
  "keys_ok (w\<lparr>host := h\<rparr>) = keys_ok w"
  by (simp_all add: link_map_def source_map_def keys_ok_def)

section \<open>Effects of the statements on the maps\<close>

lemma insert_link_map:
  assumes "keys_ok w" and "l_id l \<notin> l_id ` set (links w)" and "link_map w (l_name l) = None"
  shows "link_map (w\<lparr>links := links w @ [l]\<rparr>) = (link_map w)(l_name l \<mapsto> l) \<and>
    keys_ok (w\<lparr>links := links w @ [l]\<rparr>)"
proof -
  have "l_name l \<notin> l_name ` set (links w)"
    using assms(3) by (simp add: link_map_def map_of_key_None)
  with assms show ?thesis
    using map_of_key_snoc [of l_name l "links w"] by (simp add: link_map_def keys_ok_def)
qed

lemma insert_source_map:
  assumes "keys_ok w" and "source_map w (s_id s) = None"
  shows "source_map (w\<lparr>sources := sources w @ [s]\<rparr>) = (source_map w)(s_id s \<mapsto> s) \<and>
    keys_ok (w\<lparr>sources := sources w @ [s]\<rparr>)"
proof -
  have "s_id s \<notin> s_id ` set (sources w)"
    using assms(2) by (simp add: source_map_def map_of_key_None)
  with assms show ?thesis
    using map_of_key_snoc [of s_id s "sources w"] by (simp add: source_map_def keys_ok_def)
qed

lemma same_link_id: "keys_ok w \<Longrightarrow> l \<in> set (links w) \<Longrightarrow> k \<in> set (links w) \<Longrightarrow>
  l_id l = l_id k \<longleftrightarrow> l = k"
  by (auto dest!: keys_okD(1) simp: distinct_map inj_on_def)

lemma delete_link_map:
  assumes "keys_ok w" and "link_map w n = Some l"
  shows "link_map (w\<lparr>links := filter (\<lambda>k. l_id k \<noteq> l_id l) (links w)\<rparr>) = (link_map w)(n := None) \<and>
    keys_ok (w\<lparr>links := filter (\<lambda>k. l_id k \<noteq> l_id l) (links w)\<rparr>)"
proof -
  from assms have l: "l \<in> set (links w)" "l_name l = n" by (auto dest: link_map_SomeD)
  have "filter (\<lambda>k. l_id k \<noteq> l_id l) (links w) = filter (\<lambda>k. l_name k \<noteq> n) (links w)"
    using l assms(1) by (intro filter_cong refl)
      (metis link_map_mem assms(2) option.inject same_link_id)
  then show ?thesis
    using assms(1) by (simp add: link_map_def map_of_key_filter keys_ok_def distinct_map_filter)
qed

lemma update_link_map:
  assumes "keys_ok w" and "link_map w n = Some l" and "\<And>k. l_name (f k) = l_name k"
    and "\<And>k. l_id (f k) = l_id k"
  shows "link_map (w\<lparr>links := map (\<lambda>k. if l_id k = l_id l then f k else k) (links w)\<rparr>) =
      (link_map w)(n \<mapsto> f l) \<and>
    keys_ok (w\<lparr>links := map (\<lambda>k. if l_id k = l_id l then f k else k) (links w)\<rparr>)"
proof -
  let ?g = "\<lambda>k. if l_id k = l_id l then f k else k"
  from assms have l: "l \<in> set (links w)" "l_name l = n" by (auto dest: link_map_SomeD)
  have key: "map l_name (map ?g (links w)) = map l_name (links w)"
    "map l_id (map ?g (links w)) = map l_id (links w)"
    by (auto simp: assms(3,4))
  have "link_map (w\<lparr>links := map ?g (links w)\<rparr>) m = ((link_map w)(n \<mapsto> f l)) m" for m
  proof -
    have "link_map (w\<lparr>links := map ?g (links w)\<rparr>) m = map_option ?g (link_map w m)"
      unfolding link_map_def using map_of_key_map [of l_name ?g "links w" m] assms(3) by simp
    also have "\<dots> = ((link_map w)(n \<mapsto> f l)) m"
    proof (cases "link_map w m")
      case None
      then show ?thesis using assms(2) by auto
    next
      case (Some k)
      then have k: "k \<in> set (links w)" "l_name k = m" by (auto dest: link_map_SomeD)
      then have "l_id k = l_id l \<longleftrightarrow> m = n"
        using l assms(1,2) Some same_link_id [of w k l] by auto
      with Some assms(2) show ?thesis by auto
    qed
    finally show ?thesis .
  qed
  then have "link_map (w\<lparr>links := map ?g (links w)\<rparr>) = (link_map w)(n \<mapsto> f l)" by blast
  moreover have "keys_ok (w\<lparr>links := map ?g (links w)\<rparr>)"
    using assms(1) key by (simp add: keys_ok_def del: map_map)
  ultimately show ?thesis by blast
qed

lemma delete_source_map:
  assumes "keys_ok w"
  shows "source_map (w\<lparr>sources := filter (\<lambda>s. s_id s \<noteq> i) (sources w)\<rparr>) = (source_map w)(i := None) \<and>
    keys_ok (w\<lparr>sources := filter (\<lambda>s. s_id s \<noteq> i) (sources w)\<rparr>)"
  using assms by (simp add: source_map_def map_of_key_filter keys_ok_def distinct_map_filter)

lemma update_source_map:
  assumes "keys_ok w" and "\<And>s. s_id (f s) = s_id s" and "source_map w i = Some s"
  shows "source_map (w\<lparr>sources := map (\<lambda>s. if s_id s = i then f s else s) (sources w)\<rparr>) =
      (source_map w)(i \<mapsto> f s) \<and>
    keys_ok (w\<lparr>sources := map (\<lambda>s. if s_id s = i then f s else s) (sources w)\<rparr>)"
proof -
  let ?g = "\<lambda>s. if s_id s = i then f s else s"
  have key: "map s_id (map ?g (sources w)) = map s_id (sources w)"
    by (auto simp: assms(2))
  have "source_map (w\<lparr>sources := map ?g (sources w)\<rparr>) j = map_option ?g (source_map w j)" for j
    unfolding source_map_def using map_of_key_map [of s_id ?g "sources w" j] assms(2) by simp
  then have "source_map (w\<lparr>sources := map ?g (sources w)\<rparr>) = (source_map w)(i \<mapsto> f s)"
    using assms(3) by (auto simp: fun_eq_iff map_option_case dest: source_map_SomeD split: option.splits)
  moreover have "keys_ok (w\<lparr>sources := map ?g (sources w)\<rparr>)"
    using assms(1) key by (simp add: keys_ok_def del: map_map)
  ultimately show ?thesis by blast
qed

end
