(* ===== verification/Lina_Store.thy ===== *)
theory Lina_Store
  imports Lina_Dao
begin

text \<open>
  \<open>StoreManager\<close> of \<^verbatim>\<open>linabase/src/service.rs\<close>: the content-addressed object store with reference
  counted sources.  The write lock serialises the operations that change state and the read
  lock keeps them out of a read, so an operation runs as one step of the model; hashing and
  compression happen before the lock is taken and read no shared state.
\<close>

section \<open>Filesystem and identifier helpers\<close>

definition NANOID_MAP :: "char list" where
  "NANOID_MAP = ''0123456789abcdefghijklmnopqrstuvwxyzABCDEFGHIJKLMNOPQRSTUVWXYZ''"

definition other_error :: "string \<Rightarrow> err" where
  "other_error m = IoErr OtherKind m"

definition file_name_gen :: "env \<Rightarrow> string op" where
  "file_name_gen e =
     (\<lambda>w. (Inr (utc_stamp e (rng w) @ nano_id8 e (rng w)), w\<lparr>rng := Suc (rng w)\<rparr>))"

text \<open>Slicing a string outside a character boundary panics.\<close>

definition source_dir :: "string \<Rightarrow> path op" where
  "source_dir source_id =
     (if is_char_boundary source_id 4 \<and> is_char_boundary source_id 6
      then ok [take 4 source_id, take 2 (drop 4 source_id)]
      else fail Panicked)"

definition source_path :: "string \<Rightarrow> path op" where
  "source_path source_id = and_then (source_dir source_id) (\<lambda>d. ok (d @ [source_id]))"

definition persist_source_bytes :: "env \<Rightarrow> string \<Rightarrow> byte list \<Rightarrow> unit op" where
  "persist_source_bytes e source_id bytes =
     and_then (source_dir source_id) (\<lambda>dir.
     and_then fs_create_dir_all (\<lambda>_.
     and_then (fresh_uuid e) (\<lambda>u.
       let target_path = dir @ [source_id]; tmp_path = dir @ [source_id @ ''.tmp-'' @ u] in
       and_then (fs_create tmp_path) (\<lambda>_.
       and_then (fs_write_all tmp_path bytes) (\<lambda>_.
       and_then fs_sync_all (\<lambda>_.
       or_else (fs_rename tmp_path target_path)
         (\<lambda>err. and_then (ignore (fs_remove_file tmp_path)) (\<lambda>_. fail err))))))))"

definition remove_source_file_if_exists :: "string \<Rightarrow> unit op" where
  "remove_source_file_if_exists source_id =
     and_then (source_path source_id) (\<lambda>p.
     or_else (fs_remove_file p)
       (\<lambda>err. case err of IoErr NotFound _ \<Rightarrow> ok () | _ \<Rightarrow> fail err))"

section \<open>Source lifecycle\<close>

definition list_locked :: "string \<Rightarrow> nat \<Rightarrow> bool \<Rightarrow> bool \<Rightarrow> link list op" where
  "list_locked pattern n isext use_regex =
     (if isext then get_links_by_ext pattern
      else if (pattern = [] \<or> pattern = ''*'') \<and> use_regex then get_n_links n
      else if CHR ''*'' \<in> set pattern \<and> use_regex
        then get_links_by_name (replace_char (CHR ''*'') (CHR ''%'') pattern) True
      else get_links_by_name pattern False)"

definition release_source :: "link \<Rightarrow> source \<Rightarrow> nat \<Rightarrow> unit op" where
  "release_source link source source_count =
     (if source_count > 0
      then update_source (s_id source) (s_hash256 source) (s_compressed source) (s_size source)
             source_count
      else
        and_then (source_path (l_source_id link)) (\<lambda>source_path.
        and_then (source_dir (l_source_id link)) (\<lambda>source_dir.
          let tombstone_path = source_dir @ [l_source_id link @ ''.deleting''] in
          and_then (fs_rename source_path tombstone_path) (\<lambda>_.
          and_then
            (or_else (delete_source_by_id (s_id source))
               (\<lambda>err. and_then (ignore (fs_rename tombstone_path source_path)) (\<lambda>_. fail err))) (\<lambda>_.
          or_else (fs_remove_file tombstone_path)
            (\<lambda>err. and_then (ignore (fs_rename tombstone_path source_path)) (\<lambda>_.
                    and_then (ignore (insert_source_with_count (s_id source) (s_hash256 source)
                      (s_compressed source) (s_size source) (s_count source))) (\<lambda>_.
                    fail err))))))))"

definition checked_pred :: "nat \<Rightarrow> nat op" where
  "checked_pred n = (if n = 0 then fail (other_error ''Source count is 0'') else ok (n - 1))"

definition error_text :: "err \<Rightarrow> string" where
  "error_text err = (case err of IoErr _ m \<Rightarrow> m | _ \<Rightarrow> [])"

text \<open>What \<open>put_binary_data_locked\<close> does with an existing link that must get a source of its own:
  the code has this sequence once for \<open>cover\<close> and once without it.\<close>

definition put_repoint ::
  "env \<Rightarrow> link \<Rightarrow> source \<Rightarrow> bool \<Rightarrow> string \<Rightarrow> nat \<Rightarrow> byte list \<Rightarrow> unit op" where
  "put_repoint e link source compressed new_hash256 new_size new_storage_bytes =
     and_then (file_name_gen e) (\<lambda>new_source_id.
     and_then (persist_source_bytes e new_source_id new_storage_bytes) (\<lambda>_.
     and_then
       (or_else (insert_source new_source_id new_hash256 compressed new_size)
          (\<lambda>err. and_then (ignore (remove_source_file_if_exists new_source_id)) (\<lambda>_. fail err))) (\<lambda>_.
     and_then
       (or_else (update_link_source_id (l_id link) new_source_id)
          (\<lambda>err. and_then (ignore (delete_source_by_id new_source_id)) (\<lambda>_.
                 and_then (ignore (remove_source_file_if_exists new_source_id)) (\<lambda>_.
                 fail err)))) (\<lambda>_.
     and_then (checked_pred (s_count source)) (\<lambda>source_count.
     or_else (release_source link source source_count)
       (\<lambda>err. and_then (ignore (update_link_source_id (l_id link) (s_id source))) (\<lambda>_.
              and_then (ignore (delete_source_by_id new_source_id)) (\<lambda>_.
              and_then (ignore (remove_source_file_if_exists new_source_id)) (\<lambda>_.
              fail (other_error (error_text err)))))))))))"

definition put_overwrite ::
  "env \<Rightarrow> link \<Rightarrow> source \<Rightarrow> bool \<Rightarrow> string \<Rightarrow> nat \<Rightarrow> byte list \<Rightarrow> unit op" where
  "put_overwrite e link source compressed new_hash256 new_size new_storage_bytes =
     and_then (source_path (l_source_id link)) (\<lambda>p.
     and_then (fs_read p) (\<lambda>previous_storage_bytes.
     and_then (persist_source_bytes e (l_source_id link) new_storage_bytes) (\<lambda>_.
     or_else
       (update_source (l_source_id link) new_hash256 compressed new_size (s_count source))
       (\<lambda>err. and_then
          (ignore (persist_source_bytes e (l_source_id link) previous_storage_bytes)) (\<lambda>_.
          fail err)))))"

definition put_dedup :: "env \<Rightarrow> string \<Rightarrow> string \<Rightarrow> source \<Rightarrow> unit op" where
  "put_dedup e file_name ext source =
     and_then (fresh_uuid e) (\<lambda>link_id.
     and_then (insert_link_with_id link_id file_name ext (s_id source) 420) (\<lambda>_.
     or_else
       (update_source (s_id source) (s_hash256 source) (s_compressed source) (s_size source)
          (s_count source + 1))
       (\<lambda>err. and_then (ignore (delete_link_by_id link_id)) (\<lambda>_. fail err))))"

definition put_new ::
  "env \<Rightarrow> string \<Rightarrow> string \<Rightarrow> bool \<Rightarrow> string \<Rightarrow> nat \<Rightarrow> byte list \<Rightarrow> unit op" where
  "put_new e file_name ext compressed new_hash256 new_size new_storage_bytes =
     and_then (file_name_gen e) (\<lambda>source_id.
     and_then (fresh_uuid e) (\<lambda>link_id.
     and_then (persist_source_bytes e source_id new_storage_bytes) (\<lambda>_.
     and_then
       (or_else (insert_source source_id new_hash256 compressed new_size)
          (\<lambda>err. and_then (ignore (remove_source_file_if_exists source_id)) (\<lambda>_. fail err))) (\<lambda>_.
     or_else (insert_link_with_id link_id file_name ext source_id 420)
       (\<lambda>err. and_then (ignore (delete_source_by_id source_id)) (\<lambda>_.
              and_then (ignore (remove_source_file_if_exists source_id)) (\<lambda>_.
              fail err)))))))"

definition put_binary_data_locked ::
  "env \<Rightarrow> string \<Rightarrow> bool \<Rightarrow> bool \<Rightarrow> string \<Rightarrow> nat \<Rightarrow> byte list \<Rightarrow> string \<Rightarrow> unit op" where
  "put_binary_data_locked e file_name cover compressed new_hash256 new_size new_storage_bytes ext =
     and_then (get_links_by_name file_name False) (\<lambda>links.
     case links of
       link # _ \<Rightarrow>
         and_then (get_source_by_id (l_source_id link)) (\<lambda>found.
         case found of
           None \<Rightarrow> fail (IoErr NotFound ''Source not found'')
         | Some source \<Rightarrow>
             if cover then
               if s_count source > 1
               then put_repoint e link source compressed new_hash256 new_size new_storage_bytes
               else put_overwrite e link source compressed new_hash256 new_size new_storage_bytes
             else if new_hash256 = s_hash256 source \<and> s_compressed source = compressed then ok ()
             else put_repoint e link source compressed new_hash256 new_size new_storage_bytes)
     | [] \<Rightarrow>
         and_then (get_source_by_hash256 new_hash256) (\<lambda>found.
         case found of
           Some source \<Rightarrow> put_dedup e file_name ext source
         | None \<Rightarrow> put_new e file_name ext compressed new_hash256 new_size new_storage_bytes))"

section \<open>Read and write storage APIs\<close>

definition lift_res :: "'a res \<Rightarrow> 'a op" where
  "lift_res r = (\<lambda>w. (r, w))"

definition decode_source :: "env \<Rightarrow> bool \<Rightarrow> nat \<Rightarrow> byte list \<Rightarrow> byte list res" where
  "decode_source e compressed src_size file_bytes =
     (if compressed then decompress_all (gz e) file_bytes src_size else Inr file_bytes)"

definition check_hash :: "env \<Rightarrow> string \<Rightarrow> byte list \<Rightarrow> byte list op" where
  "check_hash e expected_hash data =
     (if get_hash256_from_binary (hash256 e) data \<noteq> expected_hash
      then fail (IoErr InvalidData ''data integrity check failed'')
      else ok data)"

definition get_binary_data :: "env \<Rightarrow> string \<Rightarrow> byte list op" where
  "get_binary_data e file_name =
     (if file_name = [] then fail (other_error ''No filename provided'')
      else
        and_then (get_links_by_name file_name False) (\<lambda>links.
        case links of
          [] \<Rightarrow> fail (IoErr NotFound ''File not found'')
        | link # _ \<Rightarrow>
            and_then (get_source_by_id (l_source_id link)) (\<lambda>found.
            case found of
              None \<Rightarrow> fail (IoErr NotFound ''File not found'')
            | Some source \<Rightarrow>
                and_then (source_path (s_id source)) (\<lambda>p.
                and_then (fs_read p) (\<lambda>file_bytes.
                and_then (lift_res (decode_source e (s_compressed source) (s_size source) file_bytes))
                  (\<lambda>decoded. check_hash e (s_hash256 source) decoded))))))"

definition extension_of :: "string \<Rightarrow> string" where
  "extension_of name = (case path_extension name of None \<Rightarrow> [] | Some x \<Rightarrow> x)"

definition encode_source :: "env \<Rightarrow> bool \<Rightarrow> byte list \<Rightarrow> byte list res" where
  "encode_source e compressed input =
     (if compressed then compress_all (block_manager_new (parallelism e)) (gz e) input else Inr input)"

definition put_binary_data :: "env \<Rightarrow> string \<Rightarrow> byte list \<Rightarrow> bool \<Rightarrow> bool \<Rightarrow> unit op" where
  "put_binary_data e file_name input cover compressed =
     (if file_name = [] then fail (other_error ''No filename provided'')
      else
        and_then (lift_res (encode_source e compressed input)) (\<lambda>new_storage_bytes.
        put_binary_data_locked e file_name cover compressed
          (get_hash256_from_binary (hash256 e) input) (length input) new_storage_bytes
          (extension_of file_name)))"

definition put_file :: "env \<Rightarrow> bool \<Rightarrow> bool \<Rightarrow> string \<Rightarrow> unit op" where
  "put_file e cover compressed file =
     (case path_file_name file of
        None \<Rightarrow> fail (IoErr InvalidInput ''Invalid file path format'')
      | Some file_name \<Rightarrow>
          and_then
            (or_else (host_read file)
               (\<lambda>err. case err of
                  IoErr NotFound _ \<Rightarrow> fail (IoErr NotFound (''File '' @ file @ '' not found''))
                | _ \<Rightarrow> fail err)) (\<lambda>input.
          put_binary_data e file_name input cover compressed))"

definition put :: "env \<Rightarrow> string list \<Rightarrow> bool \<Rightarrow> bool \<Rightarrow> unit op" where
  "put e fs cover compressed =
     (if fs = [] then fail (other_error ''No files requested'')
      else for_each (put_file e cover compressed) fs)"

definition save_file :: "env \<Rightarrow> string \<Rightarrow> string \<Rightarrow> unit op" where
  "save_file e dest_root file =
     and_then (get_binary_data e file) (\<lambda>data.
     case path_file_name file of
       None \<Rightarrow> fail (IoErr InvalidInput ''Invalid file name for save target'')
     | Some file_name \<Rightarrow>
         and_then fs_create_dir_all (\<lambda>_.
         host_write (path_join dest_root file_name) data))"

definition get_and_save :: "env \<Rightarrow> string list \<Rightarrow> string \<Rightarrow> unit op" where
  "get_and_save e fs dest =
     (if fs = [] then fail (other_error ''No files requested'')
      else and_then fs_create_dir_all (\<lambda>_. for_each (save_file e dest) fs))"

definition delete_link :: "link \<Rightarrow> unit op" where
  "delete_link link =
     and_then (get_source_by_id (l_source_id link)) (\<lambda>found.
     case found of
       None \<Rightarrow> fail (IoErr NotFound ''File not found'')
     | Some source \<Rightarrow>
         and_then (checked_pred (s_count source)) (\<lambda>source_count.
         and_then (delete_link_by_id (l_id link)) (\<lambda>_.
         or_else (release_source link source source_count)
           (\<lambda>err. and_then
              (ignore (insert_link_with_id (l_id link) (l_name link) (extension_of (l_name link))
                 (l_source_id link) (l_mode link))) (\<lambda>_.
              fail err)))))"

definition delete :: "string \<Rightarrow> bool \<Rightarrow> unit op" where
  "delete pattern use_regx =
     (if pattern = [] then fail (other_error ''No files requested'')
      else and_then (list_locked pattern 0 False use_regx) (\<lambda>links. for_each delete_link links))"

section \<open>Query-oriented APIs\<close>

definition list_links :: "string \<Rightarrow> nat \<Rightarrow> bool \<Rightarrow> bool \<Rightarrow> link list op" where
  "list_links pattern n isext use_regex = list_locked pattern n isext use_regex"

definition is_dir :: "string \<Rightarrow> bool op" where
  "is_dir path = and_then (get_dir_by_path path) (\<lambda>d. ok (d \<noteq> None))"

definition list_child_dirs :: "string \<Rightarrow> dir_entry list op" where
  "list_child_dirs parent = list_dirs_by_parent parent"

definition all_dirs :: "dir_entry list op" where
  "all_dirs = list_all_dirs"

definition mkdir :: "string \<Rightarrow> string \<Rightarrow> unit op" where
  "mkdir path parent = insert_dir path parent"

definition rmdir :: "string \<Rightarrow> unit op" where
  "rmdir path = delete_dir path"

definition set_file_mode :: "string \<Rightarrow> u32 \<Rightarrow> unit op" where
  "set_file_mode name mode = set_link_mode name mode"

definition set_directory_mode :: "string \<Rightarrow> u32 \<Rightarrow> unit op" where
  "set_directory_mode path mode = set_dir_mode path mode"

text \<open>The parent chain of a name, as the pairs (path, parent) that are inserted.\<close>

fun dir_chain :: "string \<Rightarrow> string \<Rightarrow> string list \<Rightarrow> (string \<times> string) list" where
  "dir_chain acc prev [] = []"
| "dir_chain acc prev (part # parts) =
     (let acc' = (if acc = [] then acc else acc @ ''/'') @ part in
      (acc', prev) # dir_chain acc' acc' parts)"

definition parent_dirs :: "string \<Rightarrow> (string \<times> string) list" where
  "parent_dirs name =
     (case rfind (CHR ''/'') name of
        None \<Rightarrow> []
      | Some slash \<Rightarrow> dir_chain [] [] (split_on (CHR ''/'') (take slash name)))"

definition sync_dirs_from_links :: "unit op" where
  "sync_dirs_from_links =
     and_then (list_locked ''*'' 0 False True)
       (for_each (\<lambda>link. for_each (\<lambda>(path, parent). ignore (insert_dir path parent))
          (parent_dirs (l_name link))))"

section \<open>Startup\<close>

text \<open>A directory listing, as the nested \<^verbatim>\<open>read_dir\<close> iterators of the startup scan yield it.  Its
  order is up to the operating system.\<close>

datatype node = File string | Dir string "node list"

definition succeeds :: "'a op \<Rightarrow> bool op" where
  "succeeds m = or_else (and_then m (\<lambda>_. ok True)) (\<lambda>_. ok False)"

text \<open>The steps the three nested loops share: reading the next entry may fail, which ends the scan;
  reading its metadata may fail, which skips the entry.\<close>

definition scan_entry :: "unit op \<Rightarrow> unit op" where
  "scan_entry body =
     and_then (call io_error (ok ())) (\<lambda>_.
     and_then (succeeds (call io_error (ok ()))) (\<lambda>readable.
     if readable then body else ok ()))"

definition reconcile_leaf :: "string list \<Rightarrow> string \<Rightarrow> string \<Rightarrow> node \<Rightarrow> unit op" where
  "reconcile_leaf known_ids top_dir mid leaf = scan_entry
     (case leaf of
        Dir _ _ \<Rightarrow> ok ()
      | File name \<Rightarrow>
          if \<not> utf8_valid (as_bytes name) then ok ()
          else if contains_sub name ''.tmp-'' then ignore (fs_remove_file [top_dir, mid, name])
          else case strip_suffix name ''.deleting'' of
            Some stem \<Rightarrow>
              if stem \<in> set known_ids then ignore (fs_rename [top_dir, mid, name] [top_dir, mid, stem])
              else ignore (fs_remove_file [top_dir, mid, name])
          | None \<Rightarrow>
              if name \<notin> set known_ids then ignore (fs_remove_file [top_dir, mid, name]) else ok ())"

text \<open>A sub-directory whose \<^verbatim>\<open>read_dir\<close> fails is skipped.\<close>

definition reconcile_sub :: "nat \<Rightarrow> (string \<Rightarrow> node \<Rightarrow> unit op) \<Rightarrow> node \<Rightarrow> unit op" where
  "reconcile_sub len body n = scan_entry
     (case n of
        File _ \<Rightarrow> ok ()
      | Dir name entries \<Rightarrow>
          if \<not> utf8_valid (as_bytes name) \<or> length name \<noteq> len then ok ()
          else and_then (succeeds (call io_error (ok ()))) (\<lambda>readable.
               if readable then for_each (body name) entries else ok ()))"

text \<open>\<^verbatim>\<open>linadata\<close> itself exists: \<open>new\<close> creates it first.  The counters of removed files only feed a
  log line.\<close>

definition reconcile_orphans :: "node list \<Rightarrow> unit op" where
  "reconcile_orphans listing =
     and_then list_source_ids (\<lambda>known_ids.
     and_then (call io_error (ok ())) (\<lambda>_.
     for_each (reconcile_sub 4 (\<lambda>top_dir. reconcile_sub 2 (\<lambda>mid. reconcile_leaf known_ids top_dir mid)))
       listing))"

definition store_new :: "node list \<Rightarrow> unit op" where
  "store_new listing =
     and_then fs_create_dir_all (\<lambda>_.
     and_then dao_new (\<lambda>_.
     and_then
       (or_else (reconcile_orphans listing)
          (\<lambda>err. fail (other_error (''Startup reconciliation failed: '' @ error_text err)))) (\<lambda>_.
     or_else sync_dirs_from_links
       (\<lambda>err. fail (other_error (''Startup dir sync failed: '' @ error_text err))))))"

end
