(* ===== verification/Lina_Store_Spec.thy ===== *)
theory Lina_Store_Spec
  imports Lina_Store
begin

text \<open>
  The abstract object store: what \<open>StoreManager\<close> promises, as a state of maps with a
  well-formedness invariant, the map from names to contents it represents, and the four ways
  an operation may change it.  \<open>Lina_Store_Props\<close> shows that the code's operations implement
  them.
\<close>

section \<open>Abstract state\<close>

text \<open>A source row without its time stamps.\<close>

record core =
  c_hash :: string
  c_compressed :: bool
  c_size :: nat
  c_count :: nat

record astate =
  a_links :: "string \<Rightarrow> link option"
  a_srcs :: "string \<Rightarrow> core option"
  a_pay :: "string \<Rightarrow> byte list option"
  a_rng :: nat

text \<open>Identifiers as \<open>file_name_gen\<close> makes them: a time stamp of digits and characters of
  \<^const>\<open>NANOID_MAP\<close>.\<close>

definition id_ok :: "string \<Rightarrow> bool" where
  "id_ok i \<longleftrightarrow> 6 \<le> length i \<and> set i \<subseteq> set NANOID_MAP"

definition referers :: "astate \<Rightarrow> string \<Rightarrow> string set" where
  "referers a i = {n. \<exists>l. a_links a n = Some l \<and> l_source_id l = i}"

text \<open>The data a source row and its payload file stand for, if the payload decodes and matches the
  recorded hash.\<close>

definition stored_data :: "env \<Rightarrow> astate \<Rightarrow> string \<Rightarrow> byte list option" where
  "stored_data e a i =
     (case (a_srcs a i, a_pay a i) of
        (Some c, Some b) \<Rightarrow>
          (case decode_source e (c_compressed c) (c_size c) b of
             Inl _ \<Rightarrow> None
           | Inr d \<Rightarrow> if get_hash256_from_binary (hash256 e) d = c_hash c then Some d else None)
      | _ \<Rightarrow> None)"

definition contents :: "env \<Rightarrow> astate \<Rightarrow> string \<Rightarrow> byte list option" where
  "contents e a n =
     (case a_links a n of None \<Rightarrow> None | Some l \<Rightarrow> stored_data e a (l_source_id l))"

definition link_ok :: "astate \<Rightarrow> string \<Rightarrow> link \<Rightarrow> bool" where
  "link_ok a n l \<longleftrightarrow>
     l_name l = n \<and> n \<noteq> [] \<and> l_ext l = extension_of n \<and> a_srcs a (l_source_id l) \<noteq> None"

definition source_ok :: "env \<Rightarrow> astate \<Rightarrow> string \<Rightarrow> core \<Rightarrow> bool" where
  "source_ok e a i c \<longleftrightarrow>
     id_ok i \<and> 0 < c_count c \<and> c_count c = card (referers a i) \<and>
     (\<exists>d. stored_data e a i = Some d \<and> length d = c_size c)"

definition wf :: "env \<Rightarrow> astate \<Rightarrow> bool" where
  "wf e a \<longleftrightarrow> finite (dom (a_links a)) \<and>
     (\<forall>n l. a_links a n = Some l \<longrightarrow> link_ok a n l) \<and>
     (\<forall>i c. a_srcs a i = Some c \<longrightarrow> source_ok e a i c)"

text \<open>Generated identifiers are new: \<open>fresh\<close> in a state, \<open>supply_lawful\<close> for the generators (what
  nanoid and UUIDv4 give up to a negligible probability).\<close>

definition gen_id :: "env \<Rightarrow> nat \<Rightarrow> string" where
  "gen_id e n = utc_stamp e n @ nano_id8 e n"

definition supply_lawful :: "env \<Rightarrow> bool" where
  "supply_lawful e \<longleftrightarrow> inj_on (gen_id e) {..<id_horizon e} \<and> inj_on (uuid_v4 e) {..<id_horizon e} \<and>
     (\<forall>n<id_horizon e. id_ok (gen_id e n))"

definition fresh :: "env \<Rightarrow> astate \<Rightarrow> bool" where
  "fresh e a \<longleftrightarrow> (\<forall>k. a_rng a \<le> k \<and> k < id_horizon e \<longrightarrow> a_srcs a (gen_id e k) = None \<and>
     a_pay a (gen_id e k) = None \<and>
     (\<forall>n l. a_links a n = Some l \<longrightarrow> l_id l \<noteq> uuid_v4 e k))"

text \<open>No stored payload has the hash of other data.\<close>

definition no_collision :: "env \<Rightarrow> astate \<Rightarrow> byte list \<Rightarrow> bool" where
  "no_collision e a d \<longleftrightarrow> (\<forall>i d'. stored_data e a i = Some d' \<and>
     get_hash256_from_binary (hash256 e) d' = get_hash256_from_binary (hash256 e) d \<longrightarrow> d' = d)"

section \<open>Abstract operations\<close>

definition a_insert :: "string \<Rightarrow> link \<Rightarrow> core \<Rightarrow> byte list \<Rightarrow> astate \<Rightarrow> astate" where
  "a_insert n l c b a =
     a\<lparr>a_links := (a_links a)(n \<mapsto> l), a_srcs := (a_srcs a)(l_source_id l \<mapsto> c),
       a_pay := (a_pay a)(l_source_id l \<mapsto> b)\<rparr>"

definition a_share :: "string \<Rightarrow> link \<Rightarrow> core \<Rightarrow> astate \<Rightarrow> astate" where
  "a_share n l c a =
     a\<lparr>a_links := (a_links a)(n \<mapsto> l),
       a_srcs := (a_srcs a)(l_source_id l \<mapsto> c\<lparr>c_count := Suc (c_count c)\<rparr>)\<rparr>"

definition a_overwrite :: "string \<Rightarrow> core \<Rightarrow> byte list \<Rightarrow> astate \<Rightarrow> astate" where
  "a_overwrite i c b a = a\<lparr>a_srcs := (a_srcs a)(i \<mapsto> c), a_pay := (a_pay a)(i \<mapsto> b)\<rparr>"

definition a_release :: "string \<Rightarrow> core \<Rightarrow> astate \<Rightarrow> astate" where
  "a_release i c a =
     (if c_count c > 1 then a\<lparr>a_srcs := (a_srcs a)(i \<mapsto> c\<lparr>c_count := c_count c - 1\<rparr>)\<rparr>
      else a\<lparr>a_srcs := (a_srcs a)(i := None), a_pay := (a_pay a)(i := None)\<rparr>)"

definition a_unlink :: "string \<Rightarrow> string \<Rightarrow> core \<Rightarrow> astate \<Rightarrow> astate" where
  "a_unlink n i c a = a_release i c (a\<lparr>a_links := (a_links a)(n := None)\<rparr>)"

section \<open>They keep the invariant and act on the contents\<close>

lemma wfD:
  assumes "wf e a"
  shows wf_finite: "finite (dom (a_links a))"
    and wf_link: "a_links a n = Some l \<Longrightarrow> link_ok a n l"
    and wf_source: "a_srcs a i = Some c \<Longrightarrow> source_ok e a i c"
  using assms by (auto simp: wf_def)

lemma finite_referers: "finite (dom (a_links a)) \<Longrightarrow> finite (referers a i)"
  by (rule finite_subset [of _ "dom (a_links a)"]) (auto simp: referers_def)

lemma stored_data_cong:
  "map_option (\<lambda>c. (c_hash c, c_compressed c, c_size c)) (a_srcs a i) =
     map_option (\<lambda>c. (c_hash c, c_compressed c, c_size c)) (a_srcs b i) \<Longrightarrow>
   a_pay a i = a_pay b i \<Longrightarrow> stored_data e a i = stored_data e b i"
  by (cases "a_srcs a i"; cases "a_srcs b i"; cases "a_pay b i")
     (auto simp: stored_data_def split: sum.splits)

lemma referers_link [simp]:
  "referers (a\<lparr>a_srcs := s\<rparr>) i = referers a i" "referers (a\<lparr>a_pay := p\<rparr>) i = referers a i"
  "referers (a\<lparr>a_rng := k\<rparr>) i = referers a i"
  by (simp_all add: referers_def)

lemma stored_data_rng [simp]: "stored_data e (a\<lparr>a_rng := r\<rparr>) i = stored_data e a i"
  by (rule stored_data_cong) simp_all

lemma contents_rng [simp]: "contents e (a\<lparr>a_rng := r\<rparr>) = contents e a"
  by (auto simp: contents_def split: option.splits)

lemma wf_rng [simp]: "wf e (a\<lparr>a_rng := r\<rparr>) = wf e a"
  by (simp add: wf_def link_ok_def source_ok_def)

lemma referers_upd:
  "referers (a\<lparr>a_links := (a_links a)(n := v)\<rparr>) i =
     (referers a i - {n}) \<union> (case v of None \<Rightarrow> {} | Some l \<Rightarrow> if l_source_id l = i then {n} else {})"
  by (auto simp: referers_def split: option.splits if_splits)

lemma referers_empty: "wf e a \<Longrightarrow> a_srcs a i = None \<Longrightarrow> referers a i = {}"
  by (auto simp: referers_def link_ok_def dest!: wf_link)

lemma wf_link_source:
  "wf e a \<Longrightarrow> a_links a n = Some l \<Longrightarrow>
   \<exists>c d. a_srcs a (l_source_id l) = Some c \<and> source_ok e a (l_source_id l) c \<and>
     stored_data e a (l_source_id l) = Some d \<and> contents e a n = Some d"
  using wf_link [of e a n l] wf_source [of e a "l_source_id l"]
  by (fastforce simp: contents_def link_ok_def source_ok_def)

lemma a_insert_ok:
  assumes "wf e a" and "a_links a n = None" and "a_srcs a (l_source_id l) = None"
    and "l_name l = n" and "n \<noteq> []" and "l_ext l = extension_of n"
    and "id_ok (l_source_id l)" and "c_count c = 1" and "c_size c = length d"
    and "decode_source e (c_compressed c) (c_size c) b = Inr d"
    and "c_hash c = get_hash256_from_binary (hash256 e) d"
  shows "wf e (a_insert n l c b a)" and "contents e (a_insert n l c b a) = (contents e a)(n \<mapsto> d)"
proof -
  let ?a = "a_insert n l c b a"
  let ?j = "l_source_id l"
  have new: "stored_data e ?a ?j = Some d"
    using assms by (simp add: stored_data_def a_insert_def)
  have old: "stored_data e ?a i = stored_data e a i" if "i \<noteq> ?j" for i
    using that by (intro stored_data_cong) (simp_all add: a_insert_def)
  have nref: "n \<notin> referers a i" for i using assms(2) by (simp add: referers_def)
  have ref: "referers ?a i = (if i = ?j then {n} else referers a i)" for i
    using nref referers_upd [of a n "Some l" i] referers_empty [OF assms(1,3)]
    by (auto simp: a_insert_def referers_def)
  show "wf e ?a"
    unfolding wf_def
  proof (intro conjI allI impI)
    show "finite (dom (a_links ?a))" using wf_finite [OF assms(1)] by (simp add: a_insert_def)
    show "link_ok ?a m k" if "a_links ?a m = Some k" for m k
      using that assms wf_link [OF assms(1)]
      by (auto simp: a_insert_def link_ok_def split: if_splits)
    show "source_ok e ?a i s" if "a_srcs ?a i = Some s" for i s
    proof (cases "i = ?j")
      case True
      with that assms new ref show ?thesis by (simp add: source_ok_def a_insert_def)
    next
      case False
      then have "a_srcs a i = Some s" using that by (simp add: a_insert_def)
      from wf_source [OF assms(1) this] False show ?thesis by (simp add: source_ok_def ref old)
    qed
  qed
  have "contents e ?a m = ((contents e a)(n \<mapsto> d)) m" for m
  proof (cases "m = n")
    case True
    then show ?thesis using new by (simp add: contents_def a_insert_def)
  next
    case False
    have "l_source_id k \<noteq> ?j" if "a_links a m = Some k" for k
      using wf_link [OF assms(1) that] assms(3) by (auto simp: link_ok_def)
    with False old show ?thesis by (auto simp: contents_def a_insert_def split: option.splits)
  qed
  then show "contents e ?a = (contents e a)(n \<mapsto> d)" by blast
qed

lemma a_share_ok:
  assumes "wf e a" and "a_links a n = None" and "a_srcs a (l_source_id l) = Some c"
    and "l_name l = n" and "n \<noteq> []" and "l_ext l = extension_of n"
    and "stored_data e a (l_source_id l) = Some d"
  shows "wf e (a_share n l c a)" and "contents e (a_share n l c a) = (contents e a)(n \<mapsto> d)"
proof -
  let ?a = "a_share n l c a"
  let ?j = "l_source_id l"
  have st: "stored_data e ?a i = stored_data e a i" for i
    using assms(3) by (intro stored_data_cong) (simp_all add: a_share_def)
  have links: "a_links ?a = (a_links a)(n \<mapsto> l)" by (simp add: a_share_def)
  have nref: "n \<notin> referers a i" for i using assms(2) by (simp add: referers_def)
  have ref: "referers ?a i = (if i = ?j then insert n (referers a i) else referers a i)" for i
    using nref referers_upd [of a n "Some l" i] by (auto simp: a_share_def referers_def)
  show "wf e ?a"
    unfolding wf_def
  proof (intro conjI allI impI)
    show "finite (dom (a_links ?a))" using wf_finite [OF assms(1)] by (simp add: a_share_def)
    show "link_ok ?a m k" if "a_links ?a m = Some k" for m k
      using that assms wf_link [OF assms(1)]
      by (auto simp: a_share_def link_ok_def split: if_splits)
    show "source_ok e ?a i s" if "a_srcs ?a i = Some s" for i s
    proof (cases "i = ?j")
      case True
      with that have "s = c\<lparr>c_count := Suc (c_count c)\<rparr>" by (simp add: a_share_def)
      with wf_source [OF assms(1,3)] True nref finite_referers [OF wf_finite [OF assms(1)]]
      show ?thesis by (simp add: source_ok_def st ref)
    next
      case False
      then have "a_srcs a i = Some s" using that by (simp add: a_share_def)
      from wf_source [OF assms(1) this] False show ?thesis by (simp add: source_ok_def ref st)
    qed
  qed
  show "contents e ?a = (contents e a)(n \<mapsto> d)"
    using assms(7) by (auto simp: fun_eq_iff contents_def st links split: option.splits)
qed

lemma single_referer:
  assumes "wf e a" and "a_links a n = Some l" and "a_srcs a (l_source_id l) = Some c"
    and "c_count c = 1"
  shows "referers a (l_source_id l) = {n}"
proof -
  have "card (referers a (l_source_id l)) = 1"
    using wf_source [OF assms(1,3)] assms(4) by (simp add: source_ok_def)
  moreover have "n \<in> referers a (l_source_id l)" using assms(2) by (simp add: referers_def)
  ultimately show ?thesis by (metis card_1_singletonE singletonD)
qed

lemma a_overwrite_ok:
  assumes "wf e a" and "a_links a n = Some l" and "a_srcs a (l_source_id l) = Some c0"
    and "c_count c0 = 1" and "c_count c = 1" and "c_size c = length d"
    and "decode_source e (c_compressed c) (c_size c) b = Inr d"
    and "c_hash c = get_hash256_from_binary (hash256 e) d"
  shows "wf e (a_overwrite (l_source_id l) c b a)"
    and "contents e (a_overwrite (l_source_id l) c b a) = (contents e a)(n \<mapsto> d)"
proof -
  let ?j = "l_source_id l"
  let ?a = "a_overwrite ?j c b a"
  have new: "stored_data e ?a ?j = Some d"
    using assms by (simp add: stored_data_def a_overwrite_def)
  have old: "stored_data e ?a i = stored_data e a i" if "i \<noteq> ?j" for i
    using that by (intro stored_data_cong) (simp_all add: a_overwrite_def)
  have ref: "referers ?a i = referers a i" for i by (simp add: a_overwrite_def)
  note one = single_referer [OF assms(1-4)]
  show "wf e ?a"
    unfolding wf_def
  proof (intro conjI allI impI)
    show "finite (dom (a_links ?a))" using wf_finite [OF assms(1)] by (simp add: a_overwrite_def)
    show "link_ok ?a m k" if "a_links ?a m = Some k" for m k
      using that wf_link [OF assms(1)] by (auto simp: a_overwrite_def link_ok_def)
    show "source_ok e ?a i s" if "a_srcs ?a i = Some s" for i s
    proof (cases "i = ?j")
      case True
      with that have "s = c" by (simp add: a_overwrite_def)
      with True assms(5,6) new ref one wf_source [OF assms(1,3)] show ?thesis
        by (simp add: source_ok_def)
    next
      case False
      then have "a_srcs a i = Some s" using that by (simp add: a_overwrite_def)
      from wf_source [OF assms(1) this] False show ?thesis by (simp add: source_ok_def ref old)
    qed
  qed
  have "contents e ?a m = ((contents e a)(n \<mapsto> d)) m" for m
  proof (cases "m = n")
    case True
    then show ?thesis using new assms(2) by (simp add: contents_def a_overwrite_def)
  next
    case False
    have "l_source_id k \<noteq> ?j" if "a_links a m = Some k" for k
    proof
      assume "l_source_id k = ?j"
      with that have "m \<in> referers a ?j" by (auto simp: referers_def)
      with one False show False by simp
    qed
    with False old show ?thesis by (auto simp: contents_def a_overwrite_def split: option.splits)
  qed
  then show "contents e ?a = (contents e a)(n \<mapsto> d)" by blast
qed

lemma a_unlink_ok:
  assumes "wf e a" and "a_links a n = Some l" and "a_srcs a (l_source_id l) = Some c"
  shows "wf e (a_unlink n (l_source_id l) c a)"
    and "contents e (a_unlink n (l_source_id l) c a) = (contents e a)(n := None)"
proof -
  let ?j = "l_source_id l"
  let ?a = "a_unlink n ?j c a"
  have jref: "n \<in> referers a ?j" using assms(2) by (simp add: referers_def)
  have so: "source_ok e a ?j c" by (rule wf_source [OF assms(1,3)])
  have fin: "finite (referers a i)" for i by (rule finite_referers [OF wf_finite [OF assms(1)]])
  have links: "a_links ?a = (a_links a)(n := None)" by (simp add: a_unlink_def a_release_def)
  have ref: "referers ?a i = referers a i - {n}" for i
    using referers_upd [of a n None i] by (simp add: a_unlink_def a_release_def)
  have nref: "n \<in> referers a i \<longleftrightarrow> i = ?j" for i using assms(2) by (auto simp: referers_def)
  have gone: "c_count c = 1 \<Longrightarrow> referers a ?j = {n}"
    by (rule single_referer [OF assms])
  have cnt: "c_count c > 1 \<or> c_count c = 1" using so unfolding source_ok_def by linarith
  have st: "stored_data e ?a i = stored_data e a i" if "i \<noteq> ?j \<or> c_count c > 1" for i
    using that assms(3) by (intro stored_data_cong) (auto simp: a_unlink_def a_release_def)
  show "wf e ?a"
    unfolding wf_def
  proof (intro conjI allI impI)
    show "finite (dom (a_links ?a))"
      using wf_finite [OF assms(1)] by (simp add: links)
    show "link_ok ?a m k" if "a_links ?a m = Some k" for m k
    proof -
      from that have k: "m \<noteq> n" "a_links a m = Some k" by (auto simp: links split: if_splits)
      then have "m \<in> referers a (l_source_id k)" by (simp add: referers_def)
      then have "l_source_id k \<noteq> ?j \<or> c_count c > 1" using k(1) gone cnt by (metis singletonD)
      with wf_link [OF assms(1) k(2)] show ?thesis
        by (auto simp: link_ok_def a_unlink_def a_release_def)
    qed
    show "source_ok e ?a i s" if s: "a_srcs ?a i = Some s" for i s
    proof (cases "i = ?j")
      case True
      with s cnt have "c_count c > 1" "s = c\<lparr>c_count := c_count c - 1\<rparr>"
        by (auto simp: a_unlink_def a_release_def split: if_splits)
      then show ?thesis
        using so True jref fin by (simp add: source_ok_def st ref card_Diff_singleton)
    next
      case False
      then have "a_srcs a i = Some s" using s by (auto simp: a_unlink_def a_release_def split: if_splits)
      from wf_source [OF assms(1) this] False nref show ?thesis
        by (simp add: source_ok_def ref st)
    qed
  qed
  have "contents e ?a m = ((contents e a)(n := None)) m" for m
  proof (cases "m = n \<or> a_links a m = None")
    case True
    then show ?thesis by (auto simp: contents_def links)
  next
    case False
    then obtain k where k: "m \<noteq> n" "a_links a m = Some k" by auto
    then have "m \<in> referers a (l_source_id k)" by (simp add: referers_def)
    then have "l_source_id k \<noteq> ?j \<or> c_count c > 1" using k(1) gone cnt by (metis singletonD)
    with k st show ?thesis by (auto simp: contents_def links)
  qed
  then show "contents e ?a = (contents e a)(n := None)" by blast
qed

end
