(* ===== verification/Lina_Store_Wp.thy ===== *)
theory Lina_Store_Wp
  imports Lina_Store_Spec
begin

text \<open>
  A weakest-precondition calculus for operations with effects, and for every DAO statement and
  file-system step of the store a rule that says what it does to the abstract state.
  \<open>at w a k\<close> ties a world to its abstract state and to the number of faults still to come; the
  error branch of a rule is reached by using one of them up.
\<close>

section \<open>Weakest preconditions\<close>

definition wp :: "'a op \<Rightarrow> ('a \<Rightarrow> world \<Rightarrow> bool) \<Rightarrow> (err \<Rightarrow> world \<Rightarrow> bool) \<Rightarrow> world \<Rightarrow> bool" where
  "wp m Q E w = (case m w of (Inr x, w') \<Rightarrow> Q x w' | (Inl er, w') \<Rightarrow> E er w')"

named_theorems wp_intros \<open>introduction rules of the calculus\<close>
named_theorems wp_rules \<open>rules that consume the current state\<close>

lemma wp_ok [wp_intros]: "Q x w \<Longrightarrow> wp (ok x) Q E w"
  by (simp add: wp_def ok_def)

lemma wp_fail [wp_intros]: "E er w \<Longrightarrow> wp (fail er) Q E w"
  by (simp add: wp_def fail_def)

lemma wp_and_then [wp_intros]: "wp m (\<lambda>x. wp (f x) Q E) E w \<Longrightarrow> wp (and_then m f) Q E w"
  by (auto simp: wp_def and_then_def split: prod.splits sum.splits)

lemma wp_or_else [wp_intros]: "wp m Q (\<lambda>er. wp (h er) Q E) w \<Longrightarrow> wp (or_else m h) Q E w"
  by (auto simp: wp_def or_else_def split: prod.splits sum.splits)

lemma wp_ignore [wp_intros]: "wp m (\<lambda>_. Q ()) (\<lambda>_. Q ()) w \<Longrightarrow> wp (ignore m) Q E w"
  by (auto simp: wp_def ignore_def split: prod.splits sum.splits)

lemma wp_lift_res [wp_intros]: "r = Inr x \<Longrightarrow> Q x w \<Longrightarrow> wp (lift_res r) Q E w"
  by (simp add: wp_def lift_res_def)

lemma wp_mono:
  "wp m Q E w \<Longrightarrow> (\<And>x w'. Q x w' \<Longrightarrow> Q' x w') \<Longrightarrow> (\<And>er w'. E er w' \<Longrightarrow> E' er w') \<Longrightarrow> wp m Q' E' w"
  by (auto simp: wp_def split: prod.splits sum.splits)

lemma wp_okD: "wp m Q (\<lambda>_ _. False) w \<Longrightarrow> \<exists>x w'. m w = (Inr x, w') \<and> Q x w'"
  by (auto simp: wp_def split: prod.splits sum.splits)

lemma wp_resultD:
  "wp m Q E w \<Longrightarrow> m w = (r, w') \<Longrightarrow> (case r of Inl er \<Rightarrow> E er w' | Inr x \<Rightarrow> Q x w')"
  by (auto simp: wp_def split: prod.splits sum.splits)

section \<open>The abstraction\<close>

definition core_of :: "source \<Rightarrow> core" where
  "core_of s = \<lparr>c_hash = s_hash256 s, c_compressed = s_compressed s, c_size = s_size s,
     c_count = s_count s\<rparr>"

definition src_dir :: "string \<Rightarrow> path" where
  "src_dir i = [take 4 i, take 2 (drop 4 i)]"

definition src_path :: "string \<Rightarrow> path" where
  "src_path i = src_dir i @ [i]"

definition pay :: "(path \<Rightarrow> byte list option) \<Rightarrow> string \<Rightarrow> byte list option" where
  "pay fs i = (if id_ok i then fs (src_path i) else None)"

definition abs_of :: "world \<Rightarrow> astate" where
  "abs_of w = \<lparr>a_links = link_map w, a_srcs = (\<lambda>i. map_option core_of (source_map w i)),
     a_pay = pay (files w), a_rng = rng w\<rparr>"

abbreviation St where
  "St L S P r \<equiv> \<lparr>a_links = L, a_srcs = S, a_pay = P, a_rng = r\<rparr>"

definition bud :: "world \<Rightarrow> nat" where
  "bud w = count_list (faults w) True"

definition at :: "world \<Rightarrow> astate \<Rightarrow> nat \<Rightarrow> bool" where
  "at w a k \<longleftrightarrow> keys_ok w \<and> abs_of w = a \<and> bud w = k"

text \<open>A path that is no payload path: temporary files and tombstones.\<close>

definition hidden :: "path \<Rightarrow> bool" where
  "hidden p \<longleftrightarrow> (\<forall>i. id_ok i \<longrightarrow> p \<noteq> src_path i)"

lemma core_of_sel [simp]:
  "c_hash (core_of s) = s_hash256 s" "c_compressed (core_of s) = s_compressed s"
  "c_size (core_of s) = s_size s" "c_count (core_of s) = s_count s"
  by (simp_all add: core_of_def)

lemma abs_sel [simp]:
  "a_links (abs_of w) = link_map w" "a_srcs (abs_of w) i = map_option core_of (source_map w i)"
  "a_pay (abs_of w) = pay (files w)" "a_rng (abs_of w) = rng w"
  by (simp_all add: abs_of_def)

lemma bud_0_quiet: "bud w = 0 \<longleftrightarrow> quiet w"
  by (simp add: bud_def quiet_def count_list_0_iff)

lemma bud_1_one_fault: "bud w \<le> 1 \<longleftrightarrow> one_fault w"
  by (simp add: bud_def one_fault_def)

lemma bud_pop: "bud w = (if faulty w then Suc (bud (pop w)) else bud (pop w))"
  by (cases "faults w") (auto simp: bud_def faulty_def pop_def)

lemma at_same [intro]:
  "at w a k \<Longrightarrow> links w' = links w \<Longrightarrow> sources w' = sources w \<Longrightarrow> pay (files w') = pay (files w) \<Longrightarrow>
   rng w' = rng w \<Longrightarrow> faults w' = faults w \<Longrightarrow> at w' a k"
  by (simp add: at_def abs_of_def bud_def keys_ok_def link_map_def source_map_def)

lemma at_pop: "at w a k \<Longrightarrow> \<not> faulty w \<Longrightarrow> at (pop w) a k"
  using bud_pop [of w] by (simp add: at_def abs_of_def)

lemma at_faulty: "at w a k \<Longrightarrow> faulty w \<Longrightarrow> \<exists>j. k = Suc j \<and> at (pop w) a j"
  using bud_pop [of w] by (simp add: at_def abs_of_def)

text \<open>One rule for every external call: the body runs on a world with the same tables and files.\<close>

lemma wp_call:
  assumes "at w a k"
    and "\<And>v. at v a k \<Longrightarrow> files v = files w \<Longrightarrow> wp m Q E v"
    and "\<And>v j. k = Suc j \<Longrightarrow> at v a j \<Longrightarrow> files v = files w \<Longrightarrow> E er v"
  shows "wp (call er m) Q E w"
proof (cases "faulty w")
  case True
  with at_faulty [OF assms(1)] assms(3) [of _ "pop w"] show ?thesis by (auto simp: wp_def call_def)
next
  case False
  with at_pop [OF assms(1)] assms(2) [of "pop w"] show ?thesis by (auto simp: wp_def call_def)
qed

section \<open>Identifiers and paths\<close>

lemma NANOID_MAP_ascii: "c \<in> set NANOID_MAP \<Longrightarrow> \<not> utf8_cont (char_byte c) \<and> c \<noteq> CHR ''.''"
  by (auto simp: NANOID_MAP_def utf8_cont_def char_byte_def)

lemma id_ok_boundary: "id_ok i \<Longrightarrow> is_char_boundary i 4 \<and> is_char_boundary i 6"
  using NANOID_MAP_ascii [of "i ! 4"] NANOID_MAP_ascii [of "i ! 6"]
  by (auto simp: id_ok_def is_char_boundary_def subset_iff)

lemma hidden_dotted: "CHR ''.'' \<in> set s \<Longrightarrow> hidden (d @ [s])"
  by (auto simp: hidden_def src_path_def id_ok_def dest: NANOID_MAP_ascii)

lemma pay_hidden [simp]: "hidden p \<Longrightarrow> pay (fs(p := x)) = pay fs"
  by (auto simp: hidden_def pay_def fun_eq_iff)

lemma pay_src [simp]: "id_ok i \<Longrightarrow> pay (fs(src_path i := x)) = (pay fs)(i := x)"
  by (auto simp: pay_def src_path_def fun_eq_iff)

lemma pay_id: "id_ok i \<Longrightarrow> fs (src_path i) = pay fs i"
  by (simp add: pay_def)

lemma wp_source_dir [wp_intros]:
  "id_ok i \<Longrightarrow> Q (src_dir i) w \<Longrightarrow> wp (source_dir i) Q E w"
  by (simp add: source_dir_def src_dir_def id_ok_boundary wp_ok)

lemma wp_source_path [wp_intros]:
  "id_ok i \<Longrightarrow> Q (src_path i) w \<Longrightarrow> wp (source_path i) Q E w"
  unfolding source_path_def by (intro wp_intros) (simp_all add: src_path_def)

lemma wp_file_name_gen:
  "at w (St L S P r) k \<Longrightarrow> (\<And>v. at v (St L S P (Suc r)) k \<Longrightarrow> Q (gen_id e r) v) \<Longrightarrow>
   wp (file_name_gen e) Q E w"
  by (auto simp: wp_def file_name_gen_def at_def abs_of_def bud_def gen_id_def)

lemma wp_fresh_uuid:
  "at w (St L S P r) k \<Longrightarrow>
   (\<And>v. at v (St L S P (Suc r)) k \<Longrightarrow> files v = files w \<Longrightarrow> Q (uuid_v4 e r) v) \<Longrightarrow>
   wp (fresh_uuid e) Q E w"
  by (auto simp: wp_def fresh_uuid_def at_def abs_of_def bud_def)

section \<open>File-system steps\<close>

lemma at_hidden: "at w a k \<Longrightarrow> hidden p \<Longrightarrow> at (w\<lparr>files := (files w)(p := x)\<rparr>) a k"
  by (rule at_same) auto

lemma at_src:
  "at w (St L S P r) k \<Longrightarrow> id_ok i \<Longrightarrow>
   at (w\<lparr>files := (files w)(src_path i := x)\<rparr>) (St L S (P(i := x)) r) k"
  by (auto simp: at_def abs_of_def bud_def)

lemma wp_noop_call:
  "at w a k \<Longrightarrow> (\<And>v. at v a k \<Longrightarrow> files v = files w \<Longrightarrow> Q () v) \<Longrightarrow>
   (\<And>v j. k = Suc j \<Longrightarrow> at v a j \<Longrightarrow> E er v) \<Longrightarrow> wp (call er (ok ())) Q E w"
  by (erule wp_call) (auto intro: wp_ok)

lemmas wp_create_dir_all = wp_noop_call [of _ _ _ _ _ io_error, folded fs_create_dir_all_def]
lemmas wp_sync_all = wp_noop_call [of _ _ _ _ _ io_error, folded fs_sync_all_def]

lemma wp_fs_read:
  assumes "at w (St L S P r) k" and "id_ok i" and "P i = Some b"
    and "\<And>v. at v (St L S P r) k \<Longrightarrow> Q b v" and "\<And>v j. k = Suc j \<Longrightarrow> at v (St L S P r) j \<Longrightarrow> E io_error v"
  shows "wp (fs_read (src_path i)) Q E w"
  unfolding fs_read_def
proof (rule wp_call [OF assms(1)])
  fix v
  assume v: "at v (St L S P r) k" "files v = files w"
  then have "files v (src_path i) = Some b" using assms(2,3) by (auto simp: at_def abs_of_def pay_def)
  with v assms(4) show "wp (\<lambda>w. case files w (src_path i) of None \<Rightarrow> (Inl not_found, w)
      | Some b \<Rightarrow> (Inr b, w)) Q E v"
    by (simp add: wp_def)
qed (rule assms(5))

text \<open>\<open>write_file\<close>: creating and writing a hidden file changes nothing that is seen.\<close>

lemma wp_fs_create:
  assumes "at w a k" and "hidden p"
    and "\<And>v. at v a k \<Longrightarrow> Q () v" and "\<And>v j. k = Suc j \<Longrightarrow> at v a j \<Longrightarrow> E io_error v"
  shows "wp (fs_create p) Q E w"
  unfolding fs_create_def
  by (rule wp_call [OF assms(1)]) (auto simp: wp_def modify_def intro!: assms at_hidden)

lemma wp_fs_write_all:
  assumes "at w a k" and "hidden p"
    and "\<And>v. at v a k \<Longrightarrow> files v p = Some b \<Longrightarrow> Q () v"
    and "\<And>v j. k = Suc j \<Longrightarrow> at v a j \<Longrightarrow> E io_error v"
  shows "wp (fs_write_all p b) Q E w"
  unfolding fs_write_all_def
  by (rule wp_call [OF assms(1)]) (auto simp: wp_def modify_def intro!: assms at_hidden)

lemma wp_rename_in:
  assumes "at w (St L S P r) k" and "hidden p" and "id_ok i" and "files w p = Some b"
    and "\<And>v. at v (St L S (P(i \<mapsto> b)) r) k \<Longrightarrow> Q () v"
    and "\<And>v j. k = Suc j \<Longrightarrow> at v (St L S P r) j \<Longrightarrow> files v p = Some b \<Longrightarrow> E io_error v"
  shows "wp (fs_rename p (src_path i)) Q E w"
  unfolding fs_rename_def
proof (rule wp_call [OF assms(1)])
  fix v
  assume v: "at v (St L S P r) k" "files v = files w"
  have "at (v\<lparr>files := (files v)(p := None, src_path i := Some b)\<rparr>)
      (St L S (P(i \<mapsto> b)) r) k"
    using at_src [OF at_hidden [OF v(1) assms(2)] assms(3)] by simp
  with v assms(4,5) show "wp (\<lambda>w. case files w p of None \<Rightarrow> (Inl not_found, w)
      | Some b \<Rightarrow> (Inr (), w\<lparr>files := (files w)(p := None, src_path i := Some b)\<rparr>)) Q E v"
    by (simp add: wp_def)
qed (use assms in auto)

lemma wp_rename_out:
  assumes "at w (St L S P r) k" and "hidden p" and "id_ok i" and "P i = Some b"
    and "\<And>v. at v (St L S (P(i := None)) r) k \<Longrightarrow> files v p = Some b \<Longrightarrow> Q () v"
    and "\<And>v j. k = Suc j \<Longrightarrow> at v (St L S P r) j \<Longrightarrow> E io_error v"
  shows "wp (fs_rename (src_path i) p) Q E w"
  unfolding fs_rename_def
proof (rule wp_call [OF assms(1)])
  fix v
  assume v: "at v (St L S P r) k" "files v = files w"
  then have b: "files v (src_path i) = Some b" using assms(3,4) by (auto simp: at_def abs_of_def pay_def)
  have "at (v\<lparr>files := (files v)(src_path i := None, p := Some b)\<rparr>)
      (St L S (P(i := None)) r) k"
    using at_hidden [OF at_src [OF v(1) assms(3)] assms(2)] by simp
  with b assms(5) show "wp (\<lambda>w. case files w (src_path i) of None \<Rightarrow> (Inl not_found, w)
      | Some b \<Rightarrow> (Inr (), w\<lparr>files := (files w)(src_path i := None, p := Some b)\<rparr>)) Q E v"
    by (simp add: wp_def)
qed (rule assms(6))

lemma wp_remove_hidden:
  assumes "at w a k" and "hidden p" and "files w p = Some b"
    and "\<And>v. at v a k \<Longrightarrow> Q () v"
    and "\<And>v j. k = Suc j \<Longrightarrow> at v a j \<Longrightarrow> files v p = Some b \<Longrightarrow> E io_error v"
  shows "wp (fs_remove_file p) Q E w"
  unfolding fs_remove_file_def
  by (rule wp_call [OF assms(1)]) (auto simp: wp_def assms(3) intro!: assms at_hidden)

lemma wp_persist_source_bytes:
  assumes "at w (St L S P r) k" and "id_ok i"
    and "\<And>v. at v (St L S (P(i \<mapsto> b)) (Suc r)) k \<Longrightarrow> Q () v"
    and "\<And>v er r' j. at v (St L S P r') j \<Longrightarrow> j < k \<Longrightarrow> r \<le> r' \<Longrightarrow> E er v"
  shows "wp (persist_source_bytes e i b) Q E w"
proof -
  have h: "hidden (src_dir i @ [i @ ''.tmp-'' @ u])" for u
    by (rule hidden_dotted) simp
  show ?thesis
    unfolding persist_source_bytes_def Let_def
    apply (intro wp_intros assms(2))
    apply (rule wp_create_dir_all [OF assms(1)])
     apply (intro wp_intros, erule wp_fresh_uuid)
     apply (intro wp_intros, erule wp_fs_create [OF _ h])
      apply (intro wp_intros, erule wp_fs_write_all [OF _ h])
       apply (intro wp_intros, erule wp_sync_all)
        apply (intro wp_intros, erule wp_rename_in [OF _ h assms(2), unfolded src_path_def])
          apply (simp, erule assms(3))
        apply (intro wp_intros, erule wp_remove_hidden [OF _ h])
    by (auto intro!: wp_intros elim: assms(4))
qed

lemma wp_remove_src:
  assumes "at w (St L S P r) k" and "id_ok i"
    and "\<And>v. at v (St L S (P(i := None)) r) k \<Longrightarrow> Q () v"
    and "\<And>v. at v (St L S (P(i := None)) r) k \<Longrightarrow> E not_found v"
    and "\<And>v j. at v (St L S P r) j \<Longrightarrow> k = Suc j \<Longrightarrow> E io_error v"
  shows "wp (fs_remove_file (src_path i)) Q E w"
  unfolding fs_remove_file_def
proof (rule wp_call [OF assms(1)])
  fix v
  assume v: "at v (St L S P r) k"
  have "P i = files v (src_path i)" using v assms(2) by (auto simp: at_def abs_of_def pay_def)
  then have "files v (src_path i) = None \<Longrightarrow> P(i := None) = P" by (simp add: fun_upd_idem)
  with v at_src [OF v assms(2), of None] assms(3,4)
  show "wp (\<lambda>w. case files w (src_path i) of None \<Rightarrow> (Inl not_found, w)
      | Some _ \<Rightarrow> (Inr (), w\<lparr>files := (files w)(src_path i := None)\<rparr>)) Q E v"
    by (auto simp: wp_def split: option.splits)
qed (use assms(5) in auto)

lemma wp_remove_source_file_if_exists:
  assumes "at w (St L S P r) k" and "id_ok i"
    and "\<And>v. at v (St L S (P(i := None)) r) k \<Longrightarrow> Q () v"
    and "\<And>v j. at v (St L S P r) j \<Longrightarrow> k = Suc j \<Longrightarrow> E io_error v"
  shows "wp (remove_source_file_if_exists i) Q E w"
  unfolding remove_source_file_if_exists_def
  by (intro wp_intros assms(2), rule wp_remove_src [OF assms(1,2)])
     (auto simp: not_found_def io_error_def [symmetric] intro!: wp_intros intro: assms(3)
       elim: assms(4), simp add: io_error_def wp_fail assms(4) [unfolded io_error_def])

section \<open>Database statements\<close>

text \<open>A statement that reads: the tables stay, the result is a function of them.\<close>

lemma wp_query:
  assumes "at w a k" and "\<And>v. at v a k \<Longrightarrow> Q (f v) v"
    and "\<And>v j. at v a j \<Longrightarrow> k = Suc j \<Longrightarrow> E DbErr v"
  shows "wp (call DbErr (get f)) Q E w"
  by (rule wp_call [OF assms(1)]) (auto simp: wp_def get_def intro: assms)

lemma atD:
  "at w (St L S P r) k \<Longrightarrow> keys_ok w \<and> link_map w = L \<and> (\<lambda>i. map_option core_of (source_map w i)) = S \<and>
     pay (files w) = P \<and> rng w = r \<and> bud w = k"
  by (simp add: at_def abs_of_def)

lemma atI:
  "at v (St L S P r) k \<Longrightarrow> keys_ok w \<Longrightarrow> link_map w = L' \<Longrightarrow>
   (\<lambda>i. map_option core_of (source_map w i)) = S' \<Longrightarrow>
   files w = files v \<Longrightarrow> rng w = rng v \<Longrightarrow> faults w = faults v \<Longrightarrow> at w (St L' S' P r) k"
  by (simp add: at_def abs_of_def bud_def)

lemma at_source: "at w (St L S P r) k \<Longrightarrow> S i = map_option core_of (source_map w i)"
  by (auto dest: atD)

lemma wp_get_links_by_name:
  assumes "at w (St L S P r) k"
    and "\<And>v. at v (St L S P r) k \<Longrightarrow> Q (case L n of None \<Rightarrow> [] | Some l \<Rightarrow> [l]) v"
    and "\<And>v j. at v (St L S P r) j \<Longrightarrow> k = Suc j \<Longrightarrow> E DbErr v"
  shows "wp (get_links_by_name n False) Q E w"
  unfolding get_links_by_name_def
proof (rule wp_query [OF assms(1)])
  fix v
  assume v: "at v (St L S P r) k"
  from assms(2) [OF v] atD [OF v]
  show "Q (if False then filter (\<lambda>l. sql_like n (l_name l)) (links v)
      else filter (\<lambda>l. l_name l = n) (links v)) v"
    by (auto simp: links_by_name)
qed (rule assms(3))

lemma wp_get_source_by_id:
  assumes "at w (St L S P r) k" and "S i = Some c"
    and "\<And>v s. at v (St L S P r) k \<Longrightarrow> s_id s = i \<Longrightarrow> core_of s = c \<Longrightarrow> Q (Some s) v"
    and "\<And>v j. at v (St L S P r) j \<Longrightarrow> k = Suc j \<Longrightarrow> E DbErr v"
  shows "wp (get_source_by_id i) Q E w"
  unfolding get_source_by_id_def
proof (rule wp_query [OF assms(1)])
  fix v
  assume v: "at v (St L S P r) k"
  then obtain s where s: "source_map v i = Some s" "core_of s = c"
    using at_source [OF v, of i] assms(2) by (cases "source_map v i") auto
  then show "Q (find (\<lambda>s. s_id s = i) (sources v)) v"
    using assms(3) [OF v] source_map_SomeD [OF s(1)] by (simp add: find_source_id)
qed (rule assms(4))

lemma wp_get_source_by_hash256:
  assumes "at w (St L S P r) k"
    and "\<And>v s. at v (St L S P r) k \<Longrightarrow> S (s_id s) = Some (core_of s) \<Longrightarrow> s_hash256 s = h \<Longrightarrow> Q (Some s) v"
    and "\<And>v. at v (St L S P r) k \<Longrightarrow> Q None v"
    and "\<And>v j. at v (St L S P r) j \<Longrightarrow> k = Suc j \<Longrightarrow> E DbErr v"
  shows "wp (get_source_by_hash256 h) Q E w"
  unfolding get_source_by_hash256_def
proof (rule wp_query [OF assms(1)])
  fix v
  assume v: "at v (St L S P r) k"
  show "Q (find (\<lambda>s. s_hash256 s = h) (sources v)) v"
  proof (cases "find (\<lambda>s. s_hash256 s = h) (sources v)")
    case (Some s)
    then have "s \<in> set (sources v)" "s_hash256 s = h" by (auto simp: find_Some_iff)
    moreover have "source_map v (s_id s) = Some s"
      using calculation v by (auto intro: source_map_mem dest: atD)
    ultimately show ?thesis using Some assms(2) [OF v] at_source [OF v, of "s_id s"] by simp
  qed (simp add: assms(3) v)
qed (rule assms(4))

lemma at_link_mem: "at w (St L S P r) k \<Longrightarrow> l \<in> set (links w) \<Longrightarrow> L (l_name l) = Some l"
  by (auto dest: atD link_map_mem)

lemma wp_insert_link_with_id:
  assumes "at w (St L S P r) k" and "S sid \<noteq> None" and "L name = None"
    and "\<And>m l. L m = Some l \<Longrightarrow> l_id l \<noteq> lid"
    and "\<And>v. at v (St (L(name \<mapsto> \<lparr>l_id = lid, l_name = name, l_ext = ext, l_source_id = sid,
           l_mode = mode\<rparr>)) S P r) k \<Longrightarrow> Q () v"
    and "\<And>v j. at v (St L S P r) j \<Longrightarrow> k = Suc j \<Longrightarrow> E DbErr v"
  shows "wp (insert_link_with_id lid name ext sid mode) Q E w"
  unfolding insert_link_with_id_def
proof (rule wp_call [OF assms(1)])
  fix v
  assume v: "at v (St L S P r) k"
  let ?l = "\<lparr>l_id = lid, l_name = name, l_ext = ext, l_source_id = sid, l_mode = mode\<rparr>"
  have fresh: "lid \<notin> l_id ` set (links v)" using assms(4) at_link_mem [OF v] by fastforce
  have ex: "source_exists v sid" using assms(2) at_source [OF v] by (auto simp: source_exists_iff)
  have "at (v\<lparr>links := links v @ [?l]\<rparr>) (St (L(name \<mapsto> ?l)) S P r) k"
    using insert_link_map [of v ?l] atD [OF v] fresh assms(3) by (intro atI [OF v]) auto
  then show "wp (\<lambda>w. if lid \<in> l_id ` set (links w) \<or> \<not> source_exists w sid then (Inl DbErr, w)
      else (Inr (), w\<lparr>links := links w @ [?l]\<rparr>)) Q E v"
    using fresh ex assms(5) by (simp add: wp_def)
qed (use assms(6) in auto)

lemma wp_delete_link_by_id:
  assumes "at w (St L S P r) k" and "L n = Some l" and "l_id l = lid"
    and "\<And>v. at v (St (L(n := None)) S P r) k \<Longrightarrow> Q () v"
    and "\<And>v j. at v (St L S P r) j \<Longrightarrow> k = Suc j \<Longrightarrow> E DbErr v"
  shows "wp (delete_link_by_id lid) Q E w"
  unfolding delete_link_by_id_def
proof (rule wp_call [OF assms(1)])
  fix v
  assume v: "at v (St L S P r) k"
  have "at (v\<lparr>links := filter (\<lambda>k. l_id k \<noteq> lid) (links v)\<rparr>) (St (L(n := None)) S P r) k"
    using delete_link_map [of v n l] atD [OF v] assms(2,3) by (intro atI [OF v]) auto
  then show "wp (modify (\<lambda>w. w\<lparr>links := filter (\<lambda>k. l_id k \<noteq> lid) (links w)\<rparr>)) Q E v"
    using assms(4) by (simp add: wp_def modify_def)
qed (use assms(5) in auto)

lemma wp_update_link_source_id:
  assumes "at w (St L S P r) k" and "L n = Some l" and "S sid \<noteq> None" and "l_id l = lid"
    and "\<And>v. at v (St (L(n \<mapsto> l\<lparr>l_source_id := sid\<rparr>)) S P r) k \<Longrightarrow> Q () v"
    and "\<And>v j. at v (St L S P r) j \<Longrightarrow> k = Suc j \<Longrightarrow> E DbErr v"
  shows "wp (update_link_source_id lid sid) Q E w"
  unfolding update_link_source_id_def
proof (rule wp_call [OF assms(1)])
  fix v
  assume v: "at v (St L S P r) k"
  have ex: "source_exists v sid" using assms(3) at_source [OF v] by (auto simp: source_exists_iff)
  have "at (v\<lparr>links := map (\<lambda>k. if l_id k = lid then k\<lparr>l_source_id := sid\<rparr> else k) (links v)\<rparr>)
      (St (L(n \<mapsto> l\<lparr>l_source_id := sid\<rparr>)) S P r) k"
    using update_link_map [of v n l "\<lambda>k. k\<lparr>l_source_id := sid\<rparr>"] atD [OF v] assms(2,4)
    by (intro atI [OF v]) auto
  then show "wp (\<lambda>w. if (\<exists>l\<in>set (links w). l_id l = lid) \<and> \<not> source_exists w sid then (Inl DbErr, w)
      else (Inr (), w\<lparr>links := map (\<lambda>l. if l_id l = lid then l\<lparr>l_source_id := sid\<rparr> else l) (links w)\<rparr>))
      Q E v"
    using ex assms(5) by (simp add: wp_def)
qed (use assms(6) in auto)

lemma wp_insert_source_with_count:
  assumes "at w (St L S P r) k" and "S sid = None"
    and "\<And>v. at v (St L (S(sid \<mapsto> \<lparr>c_hash = h, c_compressed = cm, c_size = sz, c_count = n\<rparr>)) P r) k \<Longrightarrow>
      Q () v"
    and "\<And>v j. at v (St L S P r) j \<Longrightarrow> k = Suc j \<Longrightarrow> E DbErr v"
  shows "wp (insert_source_with_count sid h cm sz n) Q E w"
  unfolding insert_source_with_count_def
proof (rule wp_call [OF assms(1)])
  fix v
  assume v: "at v (St L S P r) k"
  let ?s = "\<lparr>s_id = sid, s_hash256 = h, s_compressed = cm, s_size = sz, s_count = n,
    s_create_at = clock v, s_update_at = clock v\<rparr>"
  have no: "source_map v sid = None" using assms(2) at_source [OF v] by simp
  have "at (v\<lparr>sources := sources v @ [?s]\<rparr>)
      (St L (S(sid \<mapsto> \<lparr>c_hash = h, c_compressed = cm, c_size = sz, c_count = n\<rparr>)) P r) k"
    using insert_source_map [of v ?s] atD [OF v] no
    by (intro atI [OF v]) (auto simp: core_of_def)
  then show "wp (\<lambda>w. if source_exists w sid then (Inl DbErr, w) else (Inr (), w\<lparr>sources := sources w @
      [\<lparr>s_id = sid, s_hash256 = h, s_compressed = cm, s_size = sz, s_count = n,
        s_create_at = clock w, s_update_at = clock w\<rparr>]\<rparr>)) Q E v"
    using no assms(3) by (simp add: wp_def source_exists_iff)
qed (use assms(4) in auto)

lemmas wp_insert_source = wp_insert_source_with_count [of _ _ _ _ _ _ _ _ _ _ 1, folded insert_source_def]

lemma wp_update_source:
  assumes "at w (St L S P r) k" and "S sid = Some c"
    and "\<And>v. at v (St L (S(sid \<mapsto> \<lparr>c_hash = h, c_compressed = cm, c_size = sz, c_count = n\<rparr>)) P r) k \<Longrightarrow>
      Q () v"
    and "\<And>v j. at v (St L S P r) j \<Longrightarrow> k = Suc j \<Longrightarrow> E DbErr v"
  shows "wp (update_source sid h cm sz n) Q E w"
  unfolding update_source_def
proof (rule wp_call [OF assms(1)])
  fix v
  assume v: "at v (St L S P r) k"
  let ?f = "\<lambda>s. s\<lparr>s_hash256 := h, s_compressed := cm, s_size := sz, s_count := n,
    s_update_at := clock v\<rparr>"
  obtain s where s: "source_map v sid = Some s" using assms(2) at_source [OF v, of sid] by auto
  have "at (v\<lparr>sources := map (\<lambda>s. if s_id s = sid then ?f s else s) (sources v)\<rparr>)
      (St L (S(sid \<mapsto> \<lparr>c_hash = h, c_compressed = cm, c_size = sz, c_count = n\<rparr>)) P r) k"
    using update_source_map [of v ?f sid s] atD [OF v] s
    by (intro atI [OF v]) (auto simp: core_of_def)
  then show "wp (modify (\<lambda>w. w\<lparr>sources := map (\<lambda>s. if s_id s = sid
      then s\<lparr>s_hash256 := h, s_compressed := cm, s_size := sz, s_count := n, s_update_at := clock w\<rparr>
      else s) (sources w)\<rparr>)) Q E v"
    using assms(3) by (simp add: wp_def modify_def)
qed (use assms(4) in auto)

lemma wp_delete_source_by_id:
  assumes "at w (St L S P r) k" and "\<And>n l. L n = Some l \<Longrightarrow> l_source_id l \<noteq> sid"
    and "\<And>v. at v (St L (S(sid := None)) P r) k \<Longrightarrow> files v = files w \<Longrightarrow> Q () v"
    and "\<And>v j. at v (St L S P r) j \<Longrightarrow> k = Suc j \<Longrightarrow> files v = files w \<Longrightarrow> E DbErr v"
  shows "wp (delete_source_by_id sid) Q E w"
  unfolding delete_source_by_id_def
proof (rule wp_call [OF assms(1)])
  fix v
  assume v: "at v (St L S P r) k" and f: "files v = files w"
  have no: "\<not> source_referenced v sid"
    using assms(2) at_link_mem [OF v] by (auto simp: source_referenced_def)
  have "at (v\<lparr>sources := filter (\<lambda>s. s_id s \<noteq> sid) (sources v)\<rparr>) (St L (S(sid := None)) P r) k"
    using delete_source_map [of v sid] atD [OF v] by (intro atI [OF v]) auto
  then show "wp (\<lambda>w. if source_referenced w sid then (Inl DbErr, w)
      else (Inr (), w\<lparr>sources := filter (\<lambda>s. s_id s \<noteq> sid) (sources w)\<rparr>)) Q E v"
    using no f assms(3) by (simp add: wp_def)
qed (use assms(4) in auto)

end
