(* ===== verification/Lina_Store_Props.thy ===== *)
theory Lina_Store_Props
  imports Lina_Store_Wp
begin

text \<open>
  The store implements its specification: every successful put or delete is the corresponding
  change of the map from names to contents, a failed one leaves the map and the invariant as
  they were (one fault, with the rollback code running), and whatever calls fail an operation
  on one name does not touch the content of another.
\<close>

section \<open>Outcomes\<close>

definition good :: "env \<Rightarrow> astate \<Rightarrow> bool" where
  "good e a \<longleftrightarrow> wf e a \<and> fresh e a"

definition put_done :: "env \<Rightarrow> string \<Rightarrow> byte list \<Rightarrow> astate \<Rightarrow> nat \<Rightarrow> world \<Rightarrow> bool" where
  "put_done e n d a k v \<longleftrightarrow>
     (\<exists>a'. at v a' k \<and> good e a' \<and> contents e a' = (contents e a)(n \<mapsto> d))"

definition rolled_back :: "astate \<Rightarrow> nat \<Rightarrow> world \<Rightarrow> bool" where
  "rolled_back a k v \<longleftrightarrow> (\<exists>r j. at v (a\<lparr>a_rng := r\<rparr>) j \<and> a_rng a \<le> r \<and> j < k)"

lemma rolled_backI: "at v (St L S P r') j \<Longrightarrow> r \<le> r' \<Longrightarrow> j < k \<Longrightarrow> rolled_back (St L S P r) k v"
  by (auto simp: rolled_back_def)

lemma freshI:
  assumes "fresh e a" and "supply_lawful e" and "a_rng a \<le> a_rng a'"
    and "\<And>i. a_srcs a' i \<noteq> None \<or> a_pay a' i \<noteq> None \<Longrightarrow>
      a_srcs a i \<noteq> None \<or> a_pay a i \<noteq> None \<or> i \<in> gen_id e ` {a_rng a..<a_rng a'}"
    and "\<And>m l. a_links a' m = Some l \<Longrightarrow>
      (\<exists>m' l'. a_links a m' = Some l' \<and> l_id l' = l_id l) \<or> l_id l \<in> uuid_v4 e ` {a_rng a..<a_rng a'}"
  shows "fresh e a'"
  unfolding fresh_def
proof (intro allI impI conjI)
  fix k
  assume k: "a_rng a' \<le> k \<and> k < id_horizon e"
  have "gen_id e k \<notin> gen_id e ` {a_rng a..<a_rng a'}" "uuid_v4 e k \<notin> uuid_v4 e ` {a_rng a..<a_rng a'}"
    using assms(2) k by (auto simp: supply_lawful_def dest!: inj_onD)
  note new = this
  show "a_srcs a' (gen_id e k) = None" "a_pay a' (gen_id e k) = None"
    using new(1) assms(1,3) k assms(4) [of "gen_id e k"] by (fastforce simp: fresh_def)+
  have "l_id l \<noteq> uuid_v4 e k" if "a_links a m = Some l" for m l
    using assms(1,3) k that by (auto simp: fresh_def)
  then show "l_id l \<noteq> uuid_v4 e k" if "a_links a' m = Some l" for m l
    using new(2) assms(5) [OF that] by metis
qed

lemma good_rng: "good e a \<Longrightarrow> a_rng a \<le> r \<Longrightarrow> good e (a\<lparr>a_rng := r\<rparr>)"
  by (auto simp: good_def fresh_def)

section \<open>Releasing a source\<close>

lemma wp_release_source:
  assumes "at w (St L S P r) k" and "k \<le> 1" and "S i = Some (core_of s)" and "s_id s = i"
    and "l_source_id l = i" and "id_ok i" and "P i = Some b" and "0 < s_count s"
    and "\<And>m l'. s_count s = 1 \<Longrightarrow> L m = Some l' \<Longrightarrow> l_source_id l' \<noteq> i"
    and "\<And>v. at v (a_release i (core_of s) (St L S P r)) k \<Longrightarrow> Q () v"
    and "\<And>v er j. at v (St L S P r) j \<Longrightarrow> j < k \<Longrightarrow> E er v"
  shows "wp (release_source l s (s_count s - 1)) Q E w"
proof (cases "s_count s - 1 > 0")
  case True
  then have rel: "a_release i (core_of s) (St L S P r) =
      St L (S(i \<mapsto> \<lparr>c_hash = s_hash256 s, c_compressed = s_compressed s, c_size = s_size s,
        c_count = s_count s - 1\<rparr>)) P r"
    by (simp add: a_release_def core_of_def)
  have "wp (update_source i (s_hash256 s) (s_compressed s) (s_size s) (s_count s - 1)) Q E w"
    by (rule wp_update_source [OF assms(1,3)]) (auto simp: rel intro: assms(10)[unfolded rel] elim: assms(11))
  then show ?thesis using True assms(4) by (simp add: release_source_def)
next
  case False
  then have one: "s_count s = 1" using assms(8) by simp
  have rel: "a_release i (core_of s) (St L S P r) = St L (S(i := None)) (P(i := None)) r"
    using one by (simp add: a_release_def)
  have h: "hidden (src_dir i @ [i @ ''.deleting''])" by (rule hidden_dotted) simp
  have restore: "(S(i := None))(i \<mapsto> core_of s) = S" "(P(i := None))(i \<mapsto> b) = P"
    using assms(3,7) by auto
  have core: "\<lparr>c_hash = s_hash256 s, c_compressed = s_compressed s, c_size = s_size s,
      c_count = s_count s\<rparr> = core_of s" by (simp add: core_of_def)
  note no = assms(9) [OF one]
  show ?thesis
    using False unfolding release_source_def Let_def assms(4,5) apply simp
    apply (intro wp_intros assms(6))
    apply (rule wp_rename_out [OF assms(1) h assms(6,7)])
     apply (intro wp_intros, erule wp_delete_source_by_id, erule no)
      apply (intro wp_intros, erule wp_remove_hidden [OF _ h], simp)
       apply (erule assms(10) [unfolded rel])
      apply (intro wp_intros, erule wp_rename_in [OF _ h assms(6)], assumption)
       apply (intro wp_intros, erule wp_insert_source_with_count, simp)
        apply (intro wp_intros, simp only: restore core, erule assms(11), simp)
    using assms(2) apply simp
    using assms(2) apply simp
     apply (intro wp_intros, erule wp_rename_in [OF _ h assms(6)], simp)
      apply (intro wp_intros, simp only: restore, erule assms(11), simp)
    using assms(2) apply simp
    apply (erule assms(11), simp)
    done
qed

section \<open>The branches of \<open>put_binary_data_locked\<close>\<close>

text \<open>What the caller prepared before taking the lock: bytes that decode to the data.\<close>

definition encodes :: "env \<Rightarrow> bool \<Rightarrow> byte list \<Rightarrow> byte list \<Rightarrow> bool" where
  "encodes e cm d b \<longleftrightarrow> decode_source e cm (length d) b = Inr d"

abbreviation new_core where
  "new_core e cm d \<equiv> \<lparr>c_hash = get_hash256_from_binary (hash256 e) d, c_compressed = cm,
     c_size = length d, c_count = 1\<rparr>"

lemma goodD:
  assumes "good e (St L S P r)" and "supply_lawful e"
  shows good_wf: "wf e (St L S P r)" and good_fresh: "fresh e (St L S P r)"
    and good_gen: "r \<le> k \<Longrightarrow> k < id_horizon e \<Longrightarrow> S (gen_id e k) = None" "r \<le> k \<Longrightarrow> k < id_horizon e \<Longrightarrow> P (gen_id e k) = None"
    and good_uuid: "r \<le> k \<Longrightarrow> k < id_horizon e \<Longrightarrow> L m = Some l \<Longrightarrow> l_id l \<noteq> uuid_v4 e k"
    and good_id: "k < id_horizon e \<Longrightarrow> id_ok (gen_id e k)"
  using assms by (auto simp: good_def fresh_def supply_lawful_def)

lemma wp_checked_pred [wp_intros]: "0 < n \<Longrightarrow> Q (n - 1) w \<Longrightarrow> wp (checked_pred n) Q E w"
  by (simp add: checked_pred_def wp_ok)

text \<open>The rollback that removes a new source again, its row and its payload or its payload only.\<close>

lemma wp_undo_payload:
  assumes "at w (St L S (P(i \<mapsto> b)) r) j" and "id_ok i" and "P i = None" and "j = 0"
    and "\<And>v. at v (St L S P r) j \<Longrightarrow> E er v"
  shows "wp (and_then (ignore (remove_source_file_if_exists i)) (\<lambda>_. fail er)) Q E w"
proof -
  have clean: "(P(i \<mapsto> b))(i := None) = P" using assms(3) by auto
  show ?thesis
    by (intro wp_intros, rule wp_remove_source_file_if_exists [OF assms(1,2), unfolded clean])
       (auto simp: assms(4) intro!: wp_intros assms(5) [unfolded assms(4)])
qed

lemma wp_undo_source:
  assumes "at w (St L (S(i \<mapsto> c)) (P(i \<mapsto> b)) r) j" and "id_ok i" and "P i = None" and "S i = None"
    and "\<And>m l. L m = Some l \<Longrightarrow> l_source_id l \<noteq> i" and "j = 0"
    and "\<And>v. at v (St L S P r) j \<Longrightarrow> E er v"
  shows "wp (and_then (ignore (delete_source_by_id i)) (\<lambda>_.
    and_then (ignore (remove_source_file_if_exists i)) (\<lambda>_. fail er))) Q E w"
proof -
  have clean: "(S(i \<mapsto> c))(i := None) = S" using assms(4) by auto
  show ?thesis
    by (rule wp_and_then, rule wp_ignore, rule wp_delete_source_by_id [OF assms(1,5), unfolded clean])
       (auto simp: assms(6) intro: wp_undo_payload [where P = P] assms(2,3) assms(7) [unfolded assms(6)])
qed

lemma put_new_spec:
  assumes st: "at w (St L S P r) k" and "k \<le> 1" and g: "good e (St L S P r)" and sl: "supply_lawful e" and room: "r + 2 \<le> id_horizon e"
    and n: "n \<noteq> []" "L n = None" and enc: "encodes e cm d b"
  shows "wp (put_new e n (extension_of n) cm (get_hash256_from_binary (hash256 e) d) (length d) b)
    (\<lambda>_. put_done e n d (St L S P r) k) (\<lambda>_. rolled_back (St L S P r) k) w"
proof -
  have small: "k = Suc j \<Longrightarrow> j = 0" "j < k \<Longrightarrow> j = 0" for j using assms(2) by simp_all
  let ?j = "gen_id e r"
  let ?l = "\<lparr>l_id = uuid_v4 e (Suc r), l_name = n, l_ext = extension_of n, l_source_id = ?j, l_mode = 420\<rparr>"
  let ?a = "a_insert n ?l (new_core e cm d) b (St L S P (Suc (Suc (Suc r))))"
  have jid: "id_ok ?j" using good_id [OF g sl, of r] room by simp
  have fr: "S ?j = None" "P ?j = None" using good_gen [OF g sl, of r] room by auto
  have w3: "wf e (St L S P (Suc (Suc (Suc r))))"
    using wf_rng [of e "Suc (Suc (Suc r))" "St L S P r"] good_wf [OF g sl] by simp
  have c3: "contents e (St L S P (Suc (Suc (Suc r)))) = contents e (St L S P r)"
    using contents_rng [of e "Suc (Suc (Suc r))" "St L S P r"] by simp
  note ins = a_insert_ok [OF w3, of n ?l "new_core e cm d" d b]
  have wf: "wf e ?a" and ct: "contents e ?a = (contents e (St L S P r))(n \<mapsto> d)"
    using ins n fr enc good_id [OF g sl, of r] room by (simp_all add: encodes_def c3)
  have "fresh e ?a"
    by (rule freshI [OF good_fresh [OF g sl] sl]) (auto simp: a_insert_def split: if_splits)
  with wf ct have fin: "at v ?a k \<Longrightarrow> put_done e n d (St L S P r) k v" for v
    by (auto simp: put_done_def good_def)
  have nolink: "L m = Some l' \<Longrightarrow> l_source_id l' \<noteq> ?j" for m l'
    using wf_link [OF good_wf [OF g sl], of m l'] fr(1) by (auto simp: link_ok_def)
  show ?thesis
    unfolding put_new_def
    apply (intro wp_intros, rule wp_file_name_gen [OF st])
    apply (intro wp_intros, erule wp_fresh_uuid)
    apply (intro wp_intros, erule wp_persist_source_bytes, rule jid)
     apply (intro wp_intros, erule wp_insert_source, rule fr(1))
      apply (intro wp_intros, erule wp_insert_link_with_id)
          apply (simp, rule n(2), erule good_uuid [OF g sl, rotated 2], simp, use room in simp)
       apply (rule fin, simp add: a_insert_def)
      apply (erule wp_undo_source, rule jid, rule fr(2), rule fr(1), erule nolink)
      apply (erule small, erule rolled_backI, simp, simp)
     apply (erule wp_undo_payload, rule jid, rule fr(2))
      apply (erule small, erule rolled_backI, simp, simp)
    apply (erule rolled_backI, simp, simp)
    done
qed

lemma put_dedup_spec:
  assumes st: "at w (St L S P r) k" and "k \<le> 1" and g: "good e (St L S P r)" and sl: "supply_lawful e" and room: "r + 2 \<le> id_horizon e"
    and n: "n \<noteq> []" "L n = None" and s: "S (s_id s) = Some (core_of s)"
    and d: "stored_data e (St L S P r) (s_id s) = Some d"
  shows "wp (put_dedup e n (extension_of n) s)
    (\<lambda>_. put_done e n d (St L S P r) k) (\<lambda>_. rolled_back (St L S P r) k) w"
proof -
  let ?l = "\<lparr>l_id = uuid_v4 e r, l_name = n, l_ext = extension_of n, l_source_id = s_id s, l_mode = 420\<rparr>"
  let ?a = "a_share n ?l (core_of s) (St L S P (Suc r))"
  have w1: "wf e (St L S P (Suc r))" and c1: "contents e (St L S P (Suc r)) = contents e (St L S P r)"
    and d1: "stored_data e (St L S P (Suc r)) (s_id s) = Some d"
    using wf_rng [of e "Suc r" "St L S P r"] good_wf [OF g sl] contents_rng [of e "Suc r" "St L S P r"]
      stored_data_rng [of e "Suc r" "St L S P r" "s_id s"] d by simp_all
  note sh = a_share_ok [OF w1, of n ?l "core_of s" d]
  have wf: "wf e ?a" and ct: "contents e ?a = (contents e (St L S P r))(n \<mapsto> d)"
    using sh n s d1 by (simp_all add: c1)
  have "fresh e ?a"
    by (rule freshI [OF good_fresh [OF g sl] sl])
       (use s in \<open>auto simp: a_share_def split: if_splits\<close>)
  with wf ct have fin: "at v ?a k \<Longrightarrow> put_done e n d (St L S P r) k v" for v
    by (auto simp: put_done_def good_def)
  have clean: "(L(n \<mapsto> x))(n := None) = L" for x using n by (simp add: fun_upd_idem)
  show ?thesis
    unfolding put_dedup_def
    apply (intro wp_intros, rule wp_fresh_uuid [OF st])
    apply (intro wp_intros, erule wp_insert_link_with_id)
        apply (simp add: s, rule n(2), erule good_uuid [OF g sl, rotated 2], simp, use room in simp)
     apply (intro wp_intros, erule wp_update_source, rule s)
      apply (rule fin, simp add: a_share_def core_of_def)
     apply (intro wp_intros, erule wp_delete_link_by_id, rule fun_upd_same, simp)
      apply (intro wp_intros, simp only: clean, erule rolled_backI, simp, simp)
    using assms(2) apply simp
    apply (erule rolled_backI, simp, simp)
    done
qed

lemma put_overwrite_spec:
  assumes st: "at w (St L S P r) k" and "k \<le> 1" and g: "good e (St L S P r)" and sl: "supply_lawful e"
    and l: "L n = Some l" and s: "s_id s = l_source_id l" "S (l_source_id l) = Some (core_of s)"
    and one: "s_count s = 1" and enc: "encodes e cm d b"
  shows "wp (put_overwrite e l s cm (get_hash256_from_binary (hash256 e) d) (length d) b)
    (\<lambda>_. put_done e n d (St L S P r) k) (\<lambda>_. rolled_back (St L S P r) k) w"
proof -
  let ?i = "l_source_id l"
  let ?a = "a_overwrite ?i (new_core e cm d) b (St L S P (Suc r))"
  have w1: "wf e (St L S P (Suc r))" and c1: "contents e (St L S P (Suc r)) = contents e (St L S P r)"
    using wf_rng [of e "Suc r" "St L S P r"] good_wf [OF g sl] contents_rng [of e "Suc r" "St L S P r"]
    by simp_all
  note ow = a_overwrite_ok [OF w1, of n l "core_of s" "new_core e cm d" d b]
  have wf: "wf e ?a" and ct: "contents e ?a = (contents e (St L S P r))(n \<mapsto> d)"
    using ow l s one enc by (simp_all add: c1 encodes_def)
  have so: "source_ok e (St L S P r) ?i (core_of s)"
    using wf_source [OF good_wf [OF g sl], of ?i] s by simp
  then have ok: "id_ok ?i" by (simp add: source_ok_def)
  obtain b0 where b0: "P ?i = Some b0"
    using so by (auto simp: source_ok_def stored_data_def split: option.splits)
  have "fresh e ?a"
    by (rule freshI [OF good_fresh [OF g sl] sl])
       (use s l in \<open>auto simp: a_overwrite_def split: if_splits\<close>)
  with wf ct have fin: "at v ?a k \<Longrightarrow> put_done e n d (St L S P r) k v" for v
    by (auto simp: put_done_def good_def)
  have clean: "(P(?i \<mapsto> x))(?i \<mapsto> b0) = P" for x using b0 by (simp add: fun_upd_idem)
  show ?thesis
    unfolding put_overwrite_def
    apply (intro wp_intros ok, rule wp_fs_read [OF st ok b0])
     apply (intro wp_intros, erule wp_persist_source_bytes [OF _ ok])
      apply (intro wp_intros, erule wp_update_source, rule s(2))
       apply (rule fin, simp add: a_overwrite_def one)
      apply (intro wp_intros, erule wp_persist_source_bytes [OF _ ok])
       apply (intro wp_intros, simp only: clean, erule rolled_backI, simp, simp)
    using assms(2) apply simp
     apply (erule rolled_backI, simp, simp)
    apply (erule rolled_backI, simp, simp)
    done
qed

lemma release_insert:
  assumes "i \<noteq> l_source_id l'"
  shows "a_release i c (a_insert n l' c' b (St L S P r)) =
    a_insert n l' c' b (a_unlink n i c (St L S P r))"
  using assms by (auto simp: a_release_def a_insert_def a_unlink_def fun_upd_twist)

lemma put_repoint_spec:
  assumes st: "at w (St L S P r) k" and "k \<le> 1" and g: "good e (St L S P r)" and sl: "supply_lawful e" and room: "r + 2 \<le> id_horizon e"
    and l: "L n = Some l" and s: "s_id s = l_source_id l" "S (l_source_id l) = Some (core_of s)"
    and enc: "encodes e cm d b"
  shows "wp (put_repoint e l s cm (get_hash256_from_binary (hash256 e) d) (length d) b)
    (\<lambda>_. put_done e n d (St L S P r) k) (\<lambda>_. rolled_back (St L S P r) k) w"
proof -
  have small: "k = Suc j \<Longrightarrow> j = 0" "j < k \<Longrightarrow> j = 0" for j using assms(2) by simp_all
  let ?i = "l_source_id l"
  let ?j = "gen_id e r"
  let ?l = "l\<lparr>l_source_id := ?j\<rparr>"
  let ?r = "Suc (Suc r)"
  let ?u = "a_unlink n ?i (core_of s) (St L S P ?r)"
  let ?a = "a_insert n ?l (new_core e cm d) b ?u"
  have w2: "wf e (St L S P ?r)" and c2: "contents e (St L S P ?r) = contents e (St L S P r)"
    using wf_rng [of e ?r "St L S P r"] good_wf [OF g sl] contents_rng [of e ?r "St L S P r"]
    by simp_all
  have jid: "id_ok ?j" using good_id [OF g sl, of r] room by simp
  have fr: "S ?j = None" "P ?j = None" using good_gen [OF g sl, of r] room by auto
  have ij: "?i \<noteq> ?j" using fr s by auto
  have lk: "link_ok (St L S P r) n l" using wf_link [OF good_wf [OF g sl], of n l] l by simp
  have so: "source_ok e (St L S P r) ?i (core_of s)"
    using wf_source [OF good_wf [OF g sl], of ?i] s by simp
  then have ok: "id_ok ?i" and pos: "0 < s_count s" by (simp_all add: source_ok_def)
  obtain b0 where b0: "P ?i = Some b0"
    using so by (auto simp: source_ok_def stored_data_def split: option.splits)
  have wu: "wf e ?u" and cu: "contents e ?u = (contents e (St L S P r))(n := None)"
    using a_unlink_ok [OF w2, of n l "core_of s"] l s by (simp_all add: c2)
  have usel: "a_links ?u n = None" "a_srcs ?u ?j = None"
    using fr ij by (simp_all add: a_unlink_def a_release_def)
  have wf: "wf e ?a" and ct: "contents e ?a = (contents e (St L S P r))(n \<mapsto> d)"
    using a_insert_ok [OF wu, of n ?l "new_core e cm d" d b] usel lk enc good_id [OF g sl, of r] room
    by (simp_all add: cu encodes_def link_ok_def)
  have "fresh e ?a"
    by (rule freshI [OF good_fresh [OF g sl] sl])
       (use s l in \<open>fastforce simp: a_insert_def a_unlink_def a_release_def split: if_splits\<close>)+
  with wf ct have fin: "at v ?a k \<Longrightarrow> put_done e n d (St L S P r) k v" for v
    by (auto simp: put_done_def good_def)
  have rel: "a_release ?i (core_of s) (St (L(n \<mapsto> ?l)) (S(?j \<mapsto> new_core e cm d)) (P(?j \<mapsto> b)) ?r) = ?a"
    using release_insert [of ?i ?l "core_of s" n "new_core e cm d" b L S P ?r] ij
    by (simp add: a_insert_def)
  have clean: "(L(n \<mapsto> ?l))(n \<mapsto> ?l\<lparr>l_source_id := ?i\<rparr>) = L" using l by (simp add: fun_upd_idem)
  have nolink: "L m = Some l' \<Longrightarrow> l_source_id l' \<noteq> ?j" for m l'
    using wf_link [OF good_wf [OF g sl], of m l'] fr(1) by (auto simp: link_ok_def)
  have noref: "(L(n \<mapsto> ?l)) m = Some l' \<Longrightarrow> l_source_id l' \<noteq> ?i" if "s_count s = 1" for m l'
    using single_referer [OF good_wf [OF g sl], of n l "core_of s"] l s that ij
    by (auto simp: referers_def split: if_splits)
  show ?thesis
    unfolding put_repoint_def
    apply (intro wp_intros, rule wp_file_name_gen [OF st])
    apply (intro wp_intros, erule wp_persist_source_bytes, rule jid)
     apply (intro wp_intros, erule wp_insert_source, rule fr(1))
      apply (intro wp_intros, erule wp_update_link_source_id, rule l, simp, simp)
       apply (intro wp_intros pos)
       apply (erule wp_release_source [OF _ assms(2) _ s(1) refl ok _ pos noref])
           apply (simp add: s ij, simp add: b0 ij, assumption, assumption)
        apply (simp only: rel, erule fin)
       apply (rule wp_and_then, rule wp_ignore)
       apply (erule wp_update_link_source_id, rule fun_upd_same, simp add: s ij, simp)
        apply (simp only: s(1) clean)
        apply (erule wp_undo_source, rule jid, rule fr(2), rule fr(1), erule nolink)
      apply (erule small, erule rolled_backI, simp, simp)
    using assms(2) apply simp
      apply (erule wp_undo_source, rule jid, rule fr(2), rule fr(1), erule nolink)
      apply (erule small, erule rolled_backI, simp, simp)
     apply (erule wp_undo_payload, rule jid, rule fr(2))
      apply (erule small, erule rolled_backI, simp, simp)
    apply (erule rolled_backI, simp, simp)
    done
qed

section \<open>Put\<close>

lemma stored_data_hash:
  "stored_data e a i = Some d \<Longrightarrow> a_srcs a i = Some c \<Longrightarrow> get_hash256_from_binary (hash256 e) d = c_hash c"
  by (auto simp: stored_data_def split: option.splits sum.splits if_splits)

lemma put_locked_spec:
  assumes st: "at w (St L S P r) k" and k: "k \<le> 1" and g: "good e (St L S P r)"
    and sl: "supply_lawful e" and room: "r + 2 \<le> id_horizon e" and n: "n \<noteq> []" and enc: "encodes e cm d b"
    and nc: "no_collision e (St L S P r) d"
  shows "wp (put_binary_data_locked e n cover cm (get_hash256_from_binary (hash256 e) d) (length d) b
      (extension_of n))
    (\<lambda>_. put_done e n d (St L S P r) k) (\<lambda>_. rolled_back (St L S P r) k) w"
proof (cases "L n")
  case None
  have hit: "stored_data e (St L S P r) (s_id s) = Some d"
    if row: "S (s_id s) = Some (core_of s)" and "s_hash256 s = get_hash256_from_binary (hash256 e) d" for s
  proof -
    obtain d0 where d0: "stored_data e (St L S P r) (s_id s) = Some d0"
      using wf_source [OF good_wf [OF g sl], of "s_id s" "core_of s"] row
      by (auto simp: source_ok_def)
    then show ?thesis
      using nc stored_data_hash [OF d0, of "core_of s"] that by (auto simp: no_collision_def)
  qed
  show ?thesis
    unfolding put_binary_data_locked_def
    apply (intro wp_intros, rule wp_get_links_by_name [OF st])
     apply (simp add: None, intro wp_intros, erule wp_get_source_by_hash256)
       apply (simp, erule put_dedup_spec [OF _ k g sl room n None], assumption, erule hit, assumption)
      apply (simp, erule put_new_spec [OF _ k g sl room n None enc])
     apply (erule rolled_backI, simp, simp)+
    done
next
  case (Some l)
  obtain c d0 where c: "S (l_source_id l) = Some c" "source_ok e (St L S P r) (l_source_id l) c"
      and d0: "stored_data e (St L S P r) (l_source_id l) = Some d0" "contents e (St L S P r) n = Some d0"
    using wf_link_source [OF good_wf [OF g sl], of n l] Some by auto
  have same: "put_done e n d (St L S P r) k v"
    if "at v (St L S P r) k" "c_hash c = get_hash256_from_binary (hash256 e) d" for v
  proof -
    have "d0 = d" using nc d0(1) stored_data_hash [OF d0(1), of c] c that(2)
      by (auto simp: no_collision_def)
    then have "(contents e (St L S P r))(n \<mapsto> d) = contents e (St L S P r)" using d0(2) by auto
    then show ?thesis using that(1) g by (auto simp: put_done_def)
  qed
  have pos: "0 < c_count c" using c(2) by (simp add: source_ok_def)
  have branch: "wp (if cover then if s_count s > 1
        then put_repoint e l s cm (get_hash256_from_binary (hash256 e) d) (length d) b
        else put_overwrite e l s cm (get_hash256_from_binary (hash256 e) d) (length d) b
      else if get_hash256_from_binary (hash256 e) d = s_hash256 s \<and> s_compressed s = cm then ok ()
      else put_repoint e l s cm (get_hash256_from_binary (hash256 e) d) (length d) b)
      (\<lambda>_. put_done e n d (St L S P r) k) (\<lambda>_. rolled_back (St L S P r) k) v"
    if v: "at v (St L S P r) k" and s: "s_id s = l_source_id l" "core_of s = c" for v s
  proof -
    have s': "S (l_source_id l) = Some (core_of s)" "c_hash c = s_hash256 s" "0 < s_count s"
      using c(1) s(2) pos by auto
    then show ?thesis
      using put_repoint_spec [OF v k g sl room Some s(1) s'(1) enc] same [OF v]
        put_overwrite_spec [OF v k g sl Some s(1) s'(1) _ enc]
      by (auto intro: wp_ok)
  qed
  show ?thesis
    unfolding put_binary_data_locked_def
    apply (intro wp_intros, rule wp_get_links_by_name [OF st])
     apply (simp only: Some option.case list.case, intro wp_intros)
     apply (erule wp_get_source_by_id, rule c)
      apply (simp only: option.case, erule branch, assumption, assumption)
     apply (erule rolled_backI, simp, simp)+
    done
qed

text \<open>The bytes that \<open>put_binary_data\<close> stores decode to its input.\<close>

lemma encode_source_encodes:
  assumes "gzip_lawful (gz e)"
  shows "\<exists>b. encode_source e cm d = Inr b \<and> encodes e cm d b"
  using bm.codec_roundtrip [OF assms, of "parallelism e" d "length d"]
  by (auto simp: encode_source_def encodes_def decode_source_def)

lemma put_spec:
  assumes "at w a k" and "k \<le> 1" and "good e a"
    and "supply_lawful e" and "a_rng a + 2 \<le> id_horizon e" and "gzip_lawful (gz e)" and "n \<noteq> []" and "no_collision e a d"
  shows "wp (put_binary_data e n d cover cm) (\<lambda>_. put_done e n d a k) (\<lambda>_. rolled_back a k) w"
proof -
  obtain b where b: "encode_source e cm d = Inr b" "encodes e cm d b"
    using encode_source_encodes [OF assms(6)] by blast
  obtain L S P r where a: "a = St L S P r" by (cases a) auto
  show ?thesis
    using assms(5,7) put_locked_spec [OF assms(1-4) [unfolded a] _ assms(7) b(2) assms(8) [unfolded a], of cover]
    unfolding put_binary_data_def a by (auto intro!: wp_and_then wp_lift_res [OF b(1)])
qed

section \<open>Delete\<close>

definition deleted :: "env \<Rightarrow> string set \<Rightarrow> astate \<Rightarrow> astate \<Rightarrow> bool" where
  "deleted e N a a' \<longleftrightarrow> good e a' \<and> contents e a' = (\<lambda>m. if m \<in> N then None else contents e a m) \<and>
     a_links a' = (\<lambda>m. if m \<in> N then None else a_links a m)"

lemma delete_link_spec:
  assumes st: "at w (St L S P r) k" and k: "k \<le> 1" and g: "good e (St L S P r)"
    and sl: "supply_lawful e" and l: "L n = Some l"
  shows "wp (delete_link l) (\<lambda>_ v. \<exists>a'. at v a' k \<and> deleted e {n} (St L S P r) a')
    (\<lambda>_ v. \<exists>j. at v (St L S P r) j \<and> j < k) w"
proof -
  let ?i = "l_source_id l"
  obtain c d0 where c: "S ?i = Some c" "source_ok e (St L S P r) ?i c"
      and d0: "stored_data e (St L S P r) ?i = Some d0"
    using wf_link_source [OF good_wf [OF g sl], of n l] l by auto
  have ok: "id_ok ?i" and pos: "0 < c_count c" using c(2) by (simp_all add: source_ok_def)
  obtain b0 where b0: "P ?i = Some b0" using d0 by (auto simp: stored_data_def split: option.splits)
  have lk: "l_name l = n" "l_ext l = extension_of n"
    using wf_link [OF good_wf [OF g sl], of n l] l by (auto simp: link_ok_def)
  have un: "wf e (a_unlink n ?i c (St L S P r))"
      "contents e (a_unlink n ?i c (St L S P r)) = (contents e (St L S P r))(n := None)"
    using a_unlink_ok [OF good_wf [OF g sl], of n l c] l c by simp_all
  have "fresh e (a_unlink n ?i c (St L S P r))"
    by (rule freshI [OF good_fresh [OF g sl] sl])
       (use c in \<open>fastforce simp: a_unlink_def a_release_def split: if_splits\<close>)+
  with un have fin: "deleted e {n} (St L S P r) (a_release ?i c (St (L(n := None)) S P r))"
    by (auto simp: deleted_def good_def fun_eq_iff a_unlink_def) (simp_all add: a_release_def)
  have noref: "(L(n := None)) m = Some l' \<Longrightarrow> l_source_id l' \<noteq> ?i" if "c_count c = 1" for m l'
    using single_referer [OF good_wf [OF g sl], of n l c] l c that
    by (auto simp: referers_def split: if_splits)
  have id: "l_id l \<noteq> l_id l'" if "(L(n := None)) m = Some l'" for m l'
    using that atD [OF st] l same_link_id [of w l l'] by (auto dest!: link_map_SomeD split: if_splits)
  have same: "\<lparr>l_id = l_id l, l_name = n, l_ext = extension_of n, l_source_id = ?i, l_mode = l_mode l\<rparr> = l"
    using lk by simp
  have clean: "(L(n := None))(n \<mapsto> l) = L" using l by auto
  show ?thesis
    unfolding delete_link_def
    apply (intro wp_intros, rule wp_get_source_by_id [OF st c(1)])
     apply (simp only: option.case, intro wp_intros)
      apply (use pos in force)
     apply (erule wp_delete_link_by_id, rule l, rule refl)
      apply (intro wp_intros, erule wp_release_source [where b = b0, OF _ k])
              apply (use c in simp, assumption, rule refl, rule ok, rule b0, use pos in force)
         apply (rule noref, force, assumption)
        apply (rule exI, rule conjI, assumption, use fin in simp)
       apply (simp only: lk, intro wp_intros, erule wp_insert_link_with_id)
           apply (use c in simp, simp, metis id)
        apply (intro wp_intros, simp only: same clean, blast)
    using k by (auto intro!: wp_intros)
qed

lemma deleted_empty: "good e a \<Longrightarrow> deleted e {} a a"
  by (simp add: deleted_def)

lemma deleted_trans: "deleted e N a a' \<Longrightarrow> deleted e M a' a'' \<Longrightarrow> deleted e (N \<union> M) a a''"
  by (auto simp: deleted_def fun_eq_iff)

lemma psubset_insert: "N \<subset> M \<Longrightarrow> x \<notin> M \<Longrightarrow> insert x N \<subset> insert x M"
  using insert_ident [of x N M] insert_mono [of N M x] by auto

lemma delete_links_spec:
  assumes "at w a k" and k: "k \<le> 1" and "good e a" and sl: "supply_lawful e"
    and "distinct (map l_name ls)" and "\<And>l. l \<in> set ls \<Longrightarrow> a_links a (l_name l) = Some l"
  shows "wp (for_each delete_link ls)
    (\<lambda>_ v. \<exists>a'. at v a' k \<and> deleted e (l_name ` set ls) a a')
    (\<lambda>_ v. \<exists>a' N j. at v a' j \<and> j < k \<and> N \<subset> l_name ` set ls \<and> deleted e N a a') w"
  using assms(1,3,5,6)
proof (induction ls arbitrary: w a)
  case Nil
  then show ?case by (auto intro!: wp_intros intro: deleted_empty)
next
  case (Cons l ls)
  obtain L S P r where a: "a = St L S P r" by (cases a) auto
  let ?N = "l_name ` set ls"
  have new: "l_name l \<notin> ?N" using Cons.prems(3) by auto
  have step: "wp (delete_link l) (\<lambda>_ v. \<exists>a'. at v a' k \<and> deleted e {l_name l} a a')
      (\<lambda>_ v. \<exists>j. at v a j \<and> j < k) w"
    using delete_link_spec [of w L S P r k e "l_name l" l] Cons.prems k sl by (auto simp: a)
  have rest: "wp (for_each delete_link ls)
      (\<lambda>_ v. \<exists>a''. at v a'' k \<and> deleted e (insert (l_name l) ?N) a a'')
      (\<lambda>_ v. \<exists>a'' N j. at v a'' j \<and> j < k \<and> N \<subset> insert (l_name l) ?N \<and> deleted e N a a'') v"
    if v: "at v a' k" and d: "deleted e {l_name l} a a'" for v a'
  proof -
    have "good e a'" "\<And>l'. l' \<in> set ls \<Longrightarrow> a_links a' (l_name l') = Some l'"
      using d Cons.prems(4) new by (auto simp: deleted_def) (metis imageI)
    note ih = Cons.IH [OF v this(1) _ this(2)]
    show ?thesis
    proof (rule wp_mono [OF ih])
      show "distinct (map l_name ls)" using Cons.prems(3) by simp
    next
      fix v
      assume "\<exists>a''. at v a'' k \<and> deleted e ?N a' a''"
      then show "\<exists>a''. at v a'' k \<and> deleted e (insert (l_name l) ?N) a a''"
        using deleted_trans [OF d, of ?N] by auto
    next
      fix v
      assume "\<exists>a'' N j. at v a'' j \<and> j < k \<and> N \<subset> ?N \<and> deleted e N a' a''"
      then obtain a'' N j where "at v a'' j" "j < k" "N \<subset> ?N" "deleted e N a' a''" by blast
      moreover have "insert (l_name l) N \<subset> insert (l_name l) ?N" by (rule psubset_insert [OF \<open>N \<subset> ?N\<close> new])
      moreover have "deleted e (insert (l_name l) N) a a''"
        using deleted_trans [OF d, of N a''] \<open>deleted e N a' a''\<close> by simp
      ultimately show "\<exists>a'' N j. at v a'' j \<and> j < k \<and> N \<subset> insert (l_name l) ?N \<and> deleted e N a a''"
        by metis
    qed
  qed
  show ?case
    unfolding for_each.simps list.set image_insert
    by (rule wp_and_then, rule wp_mono [OF step], elim exE conjE, erule rest, assumption)
       (use deleted_empty [OF Cons.prems(2)] in blast)
qed

text \<open>Which names a pattern selects.\<close>

definition name_matches :: "string \<Rightarrow> bool \<Rightarrow> string \<Rightarrow> bool" where
  "name_matches pattern use_regex name \<longleftrightarrow>
     (if pattern = ''*'' \<and> use_regex then True
      else if CHR ''*'' \<in> set pattern \<and> use_regex
        then sql_like (replace_char (CHR ''*'') (CHR ''%'') pattern) name
      else name = pattern)"

lemma list_locked_query:
  "pattern \<noteq> [] \<Longrightarrow> list_locked pattern 0 False use_regex =
     call DbErr (get (\<lambda>w. filter (\<lambda>l. name_matches pattern use_regex (l_name l)) (links w)))"
  by (auto simp: list_locked_def name_matches_def get_n_links_def get_links_by_name_def)

lemma delete_spec:
  fixes use_regex :: bool
  assumes "at w a k" and k: "k \<le> 1" and "good e a" and sl: "supply_lawful e" and "pattern \<noteq> []"
  defines "M \<equiv> {n. name_matches pattern use_regex n \<and> a_links a n \<noteq> None}"
  shows "wp (delete pattern use_regex)
    (\<lambda>_ v. \<exists>a'. at v a' k \<and> deleted e M a a')
    (\<lambda>_ v. \<exists>a' N j. at v a' j \<and> j < k \<and> (N \<subset> M \<or> N = {}) \<and> deleted e N a a') w"
proof -
  have loop: "wp (for_each delete_link (filter (\<lambda>l. name_matches pattern use_regex (l_name l)) (links v)))
      (\<lambda>_ v. \<exists>a'. at v a' k \<and> deleted e M a a')
      (\<lambda>_ v. \<exists>a' N j. at v a' j \<and> j < k \<and> (N \<subset> M \<or> N = {}) \<and> deleted e N a a') v"
    if v: "at v a k" for v
  proof -
    let ?ls = "filter (\<lambda>l. name_matches pattern use_regex (l_name l)) (links v)"
    obtain L S P r where a: "a = St L S P r" by (cases a) auto
    note L = atD [OF v [unfolded a]]
    have dist: "distinct (map l_name ?ls)" using L by (auto simp: keys_ok_def distinct_map_filter)
    have mem: "a_links a (l_name l) = Some l" if "l \<in> set ?ls" for l
      using that at_link_mem [OF v [unfolded a]] by (auto simp: a)
    have M: "l_name ` set ?ls = M"
      unfolding M_def using L by (auto simp: a image_iff dest: link_map_mem link_map_SomeD)
    show ?thesis
      by (rule wp_mono [OF delete_links_spec [OF v k assms(3) sl dist mem, unfolded M]]) auto
  qed
  have "wp (list_locked pattern 0 False use_regex)
      (\<lambda>x. wp (for_each delete_link x) (\<lambda>_ v. \<exists>a'. at v a' k \<and> deleted e M a a')
        (\<lambda>_ v. \<exists>a' N j. at v a' j \<and> j < k \<and> (N \<subset> M \<or> N = {}) \<and> deleted e N a a'))
      (\<lambda>_ v. \<exists>a' N j. at v a' j \<and> j < k \<and> (N \<subset> M \<or> N = {}) \<and> deleted e N a a') w"
    unfolding list_locked_query [OF assms(5)]
    by (rule wp_query [OF assms(1)]) (use loop deleted_empty [OF assms(3)] in blast)+
  then show ?thesis using assms(5) by (simp add: delete_def wp_and_then)
qed

section \<open>Get\<close>

lemma get_spec:
  assumes st: "at w (St L S P r) k" and wf: "wf e (St L S P r)" and n: "n \<noteq> []"
  shows "wp (get_binary_data e n)
    (\<lambda>d v. at v (St L S P r) k \<and> contents e (St L S P r) n = Some d)
    (\<lambda>er v. (contents e (St L S P r) n = None \<and> er = IoErr NotFound ''File not found'' \<and>
        at v (St L S P r) k) \<or> (\<exists>j<k. at v (St L S P r) j)) w"
proof (cases "L n")
  case None
  then show ?thesis
    unfolding get_binary_data_def using n
    by (auto simp: contents_def intro!: wp_intros wp_get_links_by_name [OF st])
next
  case (Some l)
  let ?i = "l_source_id l"
  obtain c d where c: "S ?i = Some c" "source_ok e (St L S P r) ?i c"
      and d: "stored_data e (St L S P r) ?i = Some d" "contents e (St L S P r) n = Some d"
    using wf_link_source [OF wf, of n l] Some by auto
  have ok: "id_ok ?i" using c(2) by (simp add: source_ok_def)
  obtain b where b: "P ?i = Some b" "decode_source e (c_compressed c) (c_size c) b = Inr d"
      "get_hash256_from_binary (hash256 e) d = c_hash c"
    using d(1) c(1) by (auto simp: stored_data_def split: option.splits sum.splits if_splits)
  show ?thesis
    unfolding get_binary_data_def using n apply simp
    apply (intro wp_intros, rule wp_get_links_by_name [OF st])
     apply (simp add: Some, intro wp_intros, erule wp_get_source_by_id, rule c)
      apply (simp, intro wp_intros, rule ok, erule wp_fs_read, rule ok, rule b(1))
       apply (intro wp_intros, use b(2) in force)
       apply (use b d in \<open>auto simp: check_hash_def intro!: wp_intros\<close>)
    done
qed

end
