(* ===== verification/Lina_Store_Frame.thy ===== *)
theory Lina_Store_Frame
  imports Lina_Store_Props
begin

text \<open>
  The frame of the store's write operations, for every pattern of failing calls: an operation on
  one name leaves the links of other names, the rows and the payload files of their sources as
  they were.  This holds also where the rollback code itself fails and leaves the name it worked
  on damaged.
\<close>

section \<open>The frame predicate\<close>

record frame =
  f_name :: string
  f_links :: "link list"
  f_lids :: "string set"
  f_own :: "string set"
  f_srcs :: "string \<Rightarrow> (string \<times> bool \<times> nat) option"
  f_files :: "path \<Rightarrow> byte list option"

definition columns :: "source \<Rightarrow> string \<times> bool \<times> nat" where
  "columns s = (s_hash256 s, s_compressed s, s_size s)"

definition touched :: "frame \<Rightarrow> path \<Rightarrow> bool" where
  "touched F p \<longleftrightarrow> hidden p \<or> p \<in> src_path ` f_own F"

definition framed :: "frame \<Rightarrow> world \<Rightarrow> bool" where
  "framed F w \<longleftrightarrow>
     filter (\<lambda>l. l_name l \<noteq> f_name F) (links w) = f_links F \<and>
     (\<forall>l\<in>set (links w). l_id l \<in> f_lids F \<longrightarrow> l_name l = f_name F) \<and>
     (\<forall>i. i \<notin> f_own F \<longrightarrow> map_option columns (source_map w i) = f_srcs F i) \<and>
     (\<forall>p. \<not> touched F p \<longrightarrow> files w p = f_files F p)"

lemma oblivious_framed: "oblivious (framed F)"
  by (simp add: oblivious_def framed_def source_map_def)

lemma keeps_call_framed: "keeps (framed F) m \<Longrightarrow> keeps (framed F) (call er m)"
  by (rule keeps_call [OF oblivious_framed])

lemma keepsI: "(\<And>w. P w \<Longrightarrow> P (snd (m w))) \<Longrightarrow> keeps P m"
  by (simp add: keeps_def)

lemmas keeps_oblivious = keeps_fresh_uuid [OF oblivious_framed] keeps_fs_read [OF oblivious_framed]
  keeps_fs_create_dir_all [OF oblivious_framed] keeps_fs_sync_all [OF oblivious_framed]

section \<open>What keeps it\<close>

lemma framed_fs_create: "touched F p \<Longrightarrow> keeps (framed F) (fs_create p)"
  unfolding fs_create_def
  by (rule keeps_call_framed, rule keeps_modify) (auto simp: framed_def)

lemma framed_fs_write_all: "touched F p \<Longrightarrow> keeps (framed F) (fs_write_all p b)"
  unfolding fs_write_all_def
  by (rule keeps_call_framed, rule keeps_modify) (auto simp: framed_def)

lemma framed_fs_rename: "touched F p \<Longrightarrow> touched F q \<Longrightarrow> keeps (framed F) (fs_rename p q)"
  unfolding fs_rename_def
  by (rule keeps_call_framed, rule keepsI) (auto simp: framed_def split: option.splits)

lemma framed_fs_remove_file: "touched F p \<Longrightarrow> keeps (framed F) (fs_remove_file p)"
  unfolding fs_remove_file_def
  by (rule keeps_call_framed, rule keepsI) (auto simp: framed_def split: option.splits)

lemma framed_insert_link:
  "name = f_name F \<Longrightarrow> keeps (framed F) (insert_link_with_id lid name ext sid mode)"
  unfolding insert_link_with_id_def
  by (rule keeps_call_framed, rule keepsI) (auto simp: framed_def)

lemma filter_filter_implied:
  "(\<And>x. x \<in> set xs \<Longrightarrow> Q x \<Longrightarrow> R x) \<Longrightarrow> filter Q (filter R xs) = filter Q xs"
  by (induction xs) auto

lemma framed_delete_link: "lid \<in> f_lids F \<Longrightarrow> keeps (framed F) (delete_link_by_id lid)"
  unfolding delete_link_by_id_def
proof (rule keeps_call_framed, rule keeps_modify)
  fix w :: world
  assume lid: "lid \<in> f_lids F" and w: "framed F w"
  have "filter (\<lambda>l. l_name l \<noteq> f_name F) (filter (\<lambda>l. l_id l \<noteq> lid) (links w)) =
      filter (\<lambda>l. l_name l \<noteq> f_name F) (links w)"
    using w lid by (intro filter_filter_implied) (auto simp: framed_def)
  with w show "framed F (w\<lparr>links := filter (\<lambda>l. l_id l \<noteq> lid) (links w)\<rparr>)"
    unfolding framed_def by simp
qed

lemma framed_links:
  "framed F w \<Longrightarrow>
   filter (\<lambda>l. l_name l \<noteq> f_name F) ls = filter (\<lambda>l. l_name l \<noteq> f_name F) (links w) \<Longrightarrow>
   \<forall>l\<in>set ls. l_id l \<in> f_lids F \<longrightarrow> l_name l = f_name F \<Longrightarrow> framed F (w\<lparr>links := ls\<rparr>)"
  by (simp add: framed_def)

lemma filter_map_implied:
  "(\<And>x. x \<in> set xs \<Longrightarrow> g x \<noteq> x \<Longrightarrow> \<not> Q x \<and> \<not> Q (g x)) \<Longrightarrow> filter Q (map g xs) = filter Q xs"
proof (induction xs)
  case (Cons x xs)
  then show ?case by (cases "g x = x") auto
qed simp

lemma framed_update_link: "lid \<in> f_lids F \<Longrightarrow> keeps (framed F) (update_link_source_id lid sid)"
  unfolding update_link_source_id_def
proof (rule keeps_call_framed, rule keepsI)
  fix w :: world
  let ?g = "\<lambda>l. if l_id l = lid then l\<lparr>l_source_id := sid\<rparr> else l"
  assume lid: "lid \<in> f_lids F" and w: "framed F w"
  have "filter (\<lambda>l. l_name l \<noteq> f_name F) (map ?g (links w)) =
      filter (\<lambda>l. l_name l \<noteq> f_name F) (links w)"
  proof (rule filter_map_implied)
    fix l
    assume "l \<in> set (links w)" and "?g l \<noteq> l"
    then have "l_name l = f_name F" using w lid unfolding framed_def by (metis (no_types))
    then show "\<not> l_name l \<noteq> f_name F \<and> \<not> l_name (?g l) \<noteq> f_name F" by simp
  qed
  moreover have "\<forall>l\<in>set (map ?g (links w)). l_id l \<in> f_lids F \<longrightarrow> l_name l = f_name F"
  proof
    fix l
    assume "l \<in> set (map ?g (links w))"
    then obtain k where "k \<in> set (links w)" "l = ?g k" by auto
    moreover from this(2) have "l_id l = l_id k" "l_name l = l_name k" by simp_all
    ultimately show "l_id l \<in> f_lids F \<longrightarrow> l_name l = f_name F" using w by (simp add: framed_def)
  qed
  ultimately have "framed F (w\<lparr>links := map ?g (links w)\<rparr>)" by (rule framed_links [OF w])
  with w show "framed F (snd (if (\<exists>l\<in>set (links w). l_id l = lid) \<and> \<not> source_exists w sid
      then (Inl DbErr, w) else (Inr (), w\<lparr>links := map ?g (links w)\<rparr>)))"
    by (simp split: if_split)
qed

lemma source_map_snoc:
  "s_id s \<noteq> i \<Longrightarrow> source_map (w\<lparr>sources := sources w @ [s]\<rparr>) i = source_map w i"
  by (auto simp: source_map_def map_add_def split: option.splits)

lemma framed_insert_source:
  "sid \<in> f_own F \<Longrightarrow> keeps (framed F) (insert_source_with_count sid h c sz n)"
  unfolding insert_source_with_count_def
  by (rule keeps_call_framed, rule keepsI) (auto simp: framed_def, subst source_map_snoc, auto)

lemma framed_delete_source: "sid \<in> f_own F \<Longrightarrow> keeps (framed F) (delete_source_by_id sid)"
  unfolding delete_source_by_id_def
  by (rule keeps_call_framed, rule keepsI)
     (auto simp: framed_def source_map_def map_of_key_filter)

lemma framed_update_source:
  "sid \<in> f_own F \<or> f_srcs F sid = Some (h, c, sz) \<Longrightarrow> keeps (framed F) (update_source sid h c sz n)"
  unfolding update_source_def
proof (rule keeps_call_framed, rule keeps_modify)
  fix w :: world
  let ?g = "\<lambda>s. if s_id s = sid
    then s\<lparr>s_hash256 := h, s_compressed := c, s_size := sz, s_count := n, s_update_at := clock w\<rparr> else s"
  assume sid: "sid \<in> f_own F \<or> f_srcs F sid = Some (h, c, sz)" and w: "framed F w"
  have "source_map (w\<lparr>sources := map ?g (sources w)\<rparr>) i = map_option ?g (source_map w i)" for i
    unfolding source_map_def using map_of_key_map [of s_id ?g "sources w" i] by simp
  moreover have "map_option columns (map_option ?g (source_map w i)) = map_option columns (source_map w i)"
    if "i \<notin> f_own F" for i
  proof -
    have "map_option columns (source_map w i) = f_srcs F i" using w that by (simp add: framed_def)
    then show ?thesis
      using sid that by (cases "source_map w i") (auto simp: columns_def dest: source_map_SomeD)
  qed
  ultimately show "framed F (w\<lparr>sources := map ?g (sources w)\<rparr>)"
    using w by (simp add: framed_def)
qed

lemma keeps_source_dir: "keeps P (f (src_dir i)) \<Longrightarrow> keeps P (and_then (source_dir i) f)"
  by (auto simp: keeps_def and_then_def source_dir_def src_dir_def ok_def fail_def)

lemma keeps_source_path: "keeps P (f (src_path i)) \<Longrightarrow> keeps P (and_then (source_path i) f)"
  by (auto simp: keeps_def and_then_def source_path_def source_dir_def src_dir_def src_path_def
      ok_def fail_def)

lemma touched_own: "i \<in> f_own F \<Longrightarrow> touched F (src_path i)"
  by (simp add: touched_def)

lemma touched_own_dir: "i \<in> f_own F \<Longrightarrow> touched F (src_dir i @ [i])"
  using touched_own [of i F] by (simp add: src_path_def)

lemma touched_dotted: "CHR ''.'' \<in> set s \<Longrightarrow> touched F (d @ [s])"
  by (simp add: touched_def hidden_dotted)

lemmas framed_rules = framed_fs_create framed_fs_write_all framed_fs_rename framed_fs_remove_file
  framed_insert_link framed_delete_link framed_update_link framed_insert_source framed_delete_source
  framed_update_source keeps_oblivious keeps_source_dir keeps_source_path touched_own touched_own_dir
  keeps_and_then keeps_or_else keeps_ignore keeps_ok keeps_fail

lemma framed_persist: "i \<in> f_own F \<Longrightarrow> keeps (framed F) (persist_source_bytes e i b)"
  unfolding persist_source_bytes_def Let_def
  by (intro framed_rules touched_dotted) simp_all

lemma framed_remove: "i \<in> f_own F \<Longrightarrow> keeps (framed F) (remove_source_file_if_exists i)"
  unfolding remove_source_file_if_exists_def
  by (intro framed_rules) (auto split: err.split io_kind.split intro: keeps_ok keeps_fail)

lemma framed_release:
  "s_id s = l_source_id l \<Longrightarrow>
   (c > 0 \<longrightarrow> f_srcs F (s_id s) = Some (columns s)) \<Longrightarrow> (c = 0 \<longrightarrow> s_id s \<in> f_own F) \<Longrightarrow>
   keeps (framed F) (release_source l s c)"
  unfolding release_source_def Let_def
  by (cases "c > 0") (auto intro!: framed_rules touched_dotted simp: columns_def)

section \<open>The write operations\<close>

lemma framed_gen:
  assumes "framed F w" and "keeps (framed F) (f (gen_id e (rng w)))"
  shows "framed F (snd (and_then (file_name_gen e) f w))"
proof -
  have "framed F (w\<lparr>rng := Suc (rng w)\<rparr>)" using assms(1) oblivious_rng [OF oblivious_framed] by blast
  from keepsD [OF assms(2) this] show ?thesis
    by (simp add: and_then_def file_name_gen_def gen_id_def)
qed

lemma framed_uuid:
  assumes "framed F w" and "keeps (framed F) (f (uuid_v4 e (rng w)))"
  shows "framed F (snd (and_then (fresh_uuid e) f w))"
proof -
  have "framed F (w\<lparr>rng := Suc (rng w)\<rparr>)" using assms(1) oblivious_rng [OF oblivious_framed] by blast
  from keepsD [OF assms(2) this] show ?thesis by (simp add: and_then_def fresh_uuid_def)
qed

lemma keeps_checked_pred:
  "(0 < n \<Longrightarrow> keeps P (f (n - 1))) \<Longrightarrow> keeps P (and_then (checked_pred n) f)"
  by (auto simp: keeps_def and_then_def checked_pred_def ok_def fail_def)

lemma framed_put_repoint:
  assumes "l_id l \<in> f_lids F" and "s_id s = l_source_id l" and "gen_id e (rng w) \<in> f_own F"
    and "f_srcs F (s_id s) = Some (columns s)" and "s_count s \<le> 1 \<longrightarrow> s_id s \<in> f_own F"
    and "framed F w"
  shows "framed F (snd (put_repoint e l s c h sz b w))"
  unfolding put_repoint_def insert_source_def
  apply (rule framed_gen [OF assms(6)])
  apply (intro keeps_checked_pred framed_rules framed_persist framed_remove framed_release)
  using assms(1-5) by auto

lemma framed_put_overwrite:
  assumes "l_source_id l \<in> f_own F"
  shows "keeps (framed F) (put_overwrite e l s c h sz b)"
  unfolding put_overwrite_def using assms by (intro framed_rules framed_persist) simp_all

lemma framed_put_dedup:
  assumes "n = f_name F" and "uuid_v4 e (rng w) \<in> f_lids F" and "f_srcs F (s_id s) = Some (columns s)"
    and "framed F w"
  shows "framed F (snd (put_dedup e n ext s w))"
  unfolding put_dedup_def
  apply (rule framed_uuid [OF assms(4)])
  apply (intro framed_rules)
  using assms(1-3) by (auto simp: columns_def)

lemma framed_put_new:
  assumes "n = f_name F" and "gen_id e (rng w) \<in> f_own F" and "framed F w"
  shows "framed F (snd (put_new e n ext c h sz b w))"
  unfolding put_new_def insert_source_def
  apply (rule framed_gen [OF assms(3)])
  apply (intro framed_rules framed_persist framed_remove)
  using assms(1,2) by simp_all

lemma framed_delete_link_op:
  assumes "l_id l \<in> f_lids F" and "l_name l = f_name F" and "s_id s = l_source_id l"
    and "f_srcs F (s_id s) = Some (columns s)" and "s_count s \<le> 1 \<longrightarrow> s_id s \<in> f_own F"
  shows "keeps (framed F) (and_then (checked_pred (s_count s)) (\<lambda>source_count.
    and_then (delete_link_by_id (l_id l)) (\<lambda>_.
    or_else (release_source l s source_count)
      (\<lambda>err. and_then (ignore (insert_link_with_id (l_id l) (l_name l) ext (l_source_id l) mode))
         (\<lambda>_. fail err)))))"
  apply (intro keeps_checked_pred framed_rules framed_release)
  using assms by auto

section \<open>From the frame to the contents\<close>

text \<open>The frame of an operation on the name \<open>n\<close> in a world.\<close>

definition frame_of :: "string \<Rightarrow> string set \<Rightarrow> string set \<Rightarrow> world \<Rightarrow> frame" where
  "frame_of n lids own w =
     \<lparr>f_name = n, f_links = filter (\<lambda>l. l_name l \<noteq> n) (links w), f_lids = lids, f_own = own,
      f_srcs = (\<lambda>i. map_option columns (source_map w i)), f_files = files w\<rparr>"

lemma frame_of_sel [simp]:
  "f_name (frame_of n lids own w) = n" "f_lids (frame_of n lids own w) = lids"
  "f_own (frame_of n lids own w) = own"
  "f_srcs (frame_of n lids own w) i = map_option columns (source_map w i)"
  by (simp_all add: frame_of_def)

lemma framed_frame_of:
  "(\<And>l. l \<in> set (links w) \<Longrightarrow> l_id l \<in> lids \<Longrightarrow> l_name l = n) \<Longrightarrow> framed (frame_of n lids own w) w"
  by (simp add: framed_def frame_of_def)

lemma framed_link_map:
  assumes "framed (frame_of n lids own w) w'" and "m \<noteq> n"
  shows "link_map w' m = link_map w m"
proof -
  have "link_map v m = map_of (map (\<lambda>l. (l_name l, l)) (filter (\<lambda>l. l_name l \<noteq> n) (links v))) m" for v :: world
    using assms(2) by (simp add: map_of_key_filter link_map_def)
  then show ?thesis using assms(1) by (simp add: framed_def frame_of_def)
qed

lemma framed_contents:
  assumes fr: "framed (frame_of n lids own w) w'" and "m \<noteq> n"
    and own: "\<And>l. link_map w m = Some l \<Longrightarrow> l_source_id l \<notin> own"
  shows "contents e (abs_of w') m = contents e (abs_of w) m"
proof (cases "link_map w m")
  case None
  then show ?thesis using framed_link_map [OF fr assms(2)] by (simp add: contents_def)
next
  case (Some l)
  let ?i = "l_source_id l"
  note i = own [OF Some]
  have "map_option columns (source_map w' ?i) = map_option columns (source_map w ?i)"
    using fr i by (simp add: framed_def)
  then have 1: "map_option (\<lambda>c. (c_hash c, c_compressed c, c_size c)) (a_srcs (abs_of w') ?i) =
      map_option (\<lambda>c. (c_hash c, c_compressed c, c_size c)) (a_srcs (abs_of w) ?i)"
    by (simp add: option.map_comp comp_def columns_def [abs_def])
  have "id_ok ?i \<Longrightarrow> \<not> touched (frame_of n lids own w) (src_path ?i)"
    using i by (auto simp: touched_def hidden_def src_path_def)
  then have 2: "a_pay (abs_of w') ?i = a_pay (abs_of w) ?i"
    using fr by (auto simp: pay_def framed_def frame_of_def)
  from stored_data_cong [OF 1 2, of e] Some framed_link_map [OF fr assms(2)] show ?thesis
    by (simp add: contents_def)
qed

lemma framed_query:
  assumes "framed F w"
    and "\<And>v. framed F v \<Longrightarrow> links v = links w \<Longrightarrow> sources v = sources w \<Longrightarrow> rng v = rng w \<Longrightarrow>
      framed F (snd (k (f v) v))"
  shows "framed F (snd (and_then (call DbErr (get f)) k w))"
proof -
  have "framed F (pop w)" using assms(1) obliviousD [OF oblivious_framed] by blast
  then show ?thesis using assms(2) [of "pop w"] by (auto simp: and_then_def call_def get_def)
qed

text \<open>The sources an operation on \<open>n\<close> may replace: a new one, and the one that only \<open>n\<close> uses.\<close>

definition owned :: "env \<Rightarrow> string \<Rightarrow> world \<Rightarrow> string set" where
  "owned e n w = {gen_id e (rng w)} \<union>
     {i. \<exists>l s. link_map w n = Some l \<and> i = l_source_id l \<and> source_map w i = Some s \<and> s_count s \<le> 1}"

lemma owned_others:
  assumes "keys_ok w" and "good e (abs_of w)" and "rng w < id_horizon e"
    and "link_map w m = Some k" and "m \<noteq> n"
  shows "l_source_id k \<notin> owned e n w"
proof
  have wf: "wf e (abs_of w)" and "fresh e (abs_of w)" using assms(2) by (simp_all add: good_def)
  then have new: "source_map w (gen_id e (rng w)) = None" using assms(3) by (auto simp: fresh_def)
  assume "l_source_id k \<in> owned e n w"
  moreover have "l_source_id k \<noteq> gen_id e (rng w)"
    using wf_link [OF wf, of m k] assms(4) new by (auto simp: link_ok_def)
  ultimately obtain l s where l: "link_map w n = Some l" "l_source_id k = l_source_id l"
    and s: "source_map w (l_source_id l) = Some s" "s_count s \<le> 1"
    by (auto simp: owned_def)
  have "0 < s_count s" using wf_source [OF wf, of "l_source_id l" "core_of s"] s by (simp add: source_ok_def)
  then have "referers (abs_of w) (l_source_id l) = {n}"
    using single_referer [OF wf, of n l "core_of s"] l s by simp
  moreover have "m \<in> referers (abs_of w) (l_source_id l)" using assms(4) l(2) by (simp add: referers_def)
  ultimately show False using assms(5) by simp
qed

definition own_lids :: "env \<Rightarrow> string \<Rightarrow> world \<Rightarrow> string set" where
  "own_lids e n w = insert (uuid_v4 e (rng w)) {i. \<exists>l. link_map w n = Some l \<and> i = l_id l}"

abbreviation own_frame :: "env \<Rightarrow> string \<Rightarrow> world \<Rightarrow> frame" where
  "own_frame e n w \<equiv> frame_of n (own_lids e n w) (owned e n w) w"

lemma framed_own_frame:
  assumes "keys_ok w" and "good e (abs_of w)" and "rng w < id_horizon e"
  shows "framed (own_frame e n w) w"
proof (rule framed_frame_of)
  fix l
  assume l: "l \<in> set (links w)" and "l_id l \<in> own_lids e n w"
  moreover have "l_id l \<noteq> uuid_v4 e (rng w)"
    using link_map_mem [OF assms(1) l] assms(2,3) by (auto simp: good_def fresh_def)
  ultimately obtain k where "link_map w n = Some k" "l_id l = l_id k" by (auto simp: own_lids_def)
  then show "l_name l = n" using link_map_SomeD [of w n k] same_link_id [OF assms(1) l, of k] by auto
qed

lemma own_frame_contents:
  assumes "keys_ok w" and "good e (abs_of w)" and "rng w < id_horizon e"
    and "framed (own_frame e n w) w'" and "m \<noteq> n"
  shows "contents e (abs_of w') m = contents e (abs_of w) m"
  by (rule framed_contents [OF assms(4,5)]) (rule owned_others [OF assms(1-3) _ assms(5)])

lemma put_locked_framed:
  assumes "keys_ok w" and "good e (abs_of w)" and "rng w < id_horizon e"
  shows "framed (own_frame e n w)
    (snd (put_binary_data_locked e n cover cm h sz b ext w))" (is "framed ?F _")
proof -
  have hit: "framed ?F (snd ((if cover then if s_count s > 1 then put_repoint e l s cm h sz b
        else put_overwrite e l s cm h sz b
      else if h = s_hash256 s \<and> s_compressed s = cm then ok () else put_repoint e l s cm h sz b) v))"
    if v: "framed ?F v" "rng v = rng w" and l: "link_map w n = Some l"
      and s: "source_map w (l_source_id l) = Some s" for v l s
  proof -
    note id = source_map_SomeD [OF s]
    have rp: "framed ?F (snd (put_repoint e l s cm h sz b v))"
      by (rule framed_put_repoint) (use v l s id in \<open>auto simp: own_lids_def owned_def\<close>)
    have ow: "framed ?F (snd (put_overwrite e l s cm h sz b v))" if "\<not> s_count s > 1"
      by (rule keepsD [OF framed_put_overwrite]) (use v l s id that in \<open>auto simp: owned_def\<close>)
    from rp ow v(1) show ?thesis by (auto simp: ok_def)
  qed
  have dd: "framed ?F (snd (put_dedup e n ext s v))"
    if "framed ?F v" "rng v = rng w" "s \<in> set (sources w)" for v s
    by (rule framed_put_dedup)
       (use that source_map_mem [OF assms(1) that(3)] in \<open>auto simp: own_lids_def\<close>)
  have nw: "framed ?F (snd (put_new e n ext cm h sz b v))" if "framed ?F v" "rng v = rng w" for v
    by (rule framed_put_new) (use that in \<open>auto simp: owned_def\<close>)
  have miss: "framed ?F (snd (and_then (get_source_by_hash256 h) (\<lambda>found. case found of
      Some source \<Rightarrow> put_dedup e n ext source | None \<Rightarrow> put_new e n ext cm h sz b) v))"
    if "framed ?F v" "rng v = rng w" "sources v = sources w" for v
    unfolding get_source_by_hash256_def
    by (rule framed_query [OF that(1)])
       (use that in \<open>auto intro!: nw dd simp: find_Some_iff split: option.split\<close>)
  have link: "framed ?F (snd (and_then (get_source_by_id (l_source_id l)) (\<lambda>found. case found of
      None \<Rightarrow> fail (IoErr NotFound ''Source not found'')
    | Some s \<Rightarrow> if cover then if s_count s > 1 then put_repoint e l s cm h sz b
          else put_overwrite e l s cm h sz b
        else if h = s_hash256 s \<and> s_compressed s = cm then ok () else put_repoint e l s cm h sz b) v))"
    if "framed ?F v" "rng v = rng w" "sources v = sources w" "link_map w n = Some l" for v l
    unfolding get_source_by_id_def
  proof (rule framed_query [OF that(1)], goal_cases)
    case (1 u)
    then have "find (\<lambda>s. s_id s = l_source_id l) (sources u) = source_map w (l_source_id l)"
      using that(3) by (simp add: find_source_id source_map_def)
    with 1 that hit [of u l] show ?case
      by (cases "source_map w (l_source_id l)") (simp_all add: fail_def)
  qed
  show ?thesis
    unfolding put_binary_data_locked_def get_links_by_name_def if_False
  proof (rule framed_query [OF framed_own_frame [OF assms]], goal_cases)
    case (1 v)
    then have "filter (\<lambda>l. l_name l = n) (links v) = (case link_map w n of None \<Rightarrow> [] | Some l \<Rightarrow> [l])"
      using links_by_name [OF assms(1), of n] by simp
    with 1 miss [of v] link [of v] show ?case by (cases "link_map w n") simp_all
  qed
qed

lemma put_framed:
  assumes "keys_ok w" and "good e (abs_of w)" and "rng w < id_horizon e"
  shows "framed (own_frame e n w) (snd (put_binary_data e n d cover cm w))"
  using put_locked_framed [OF assms] framed_own_frame [OF assms]
  by (auto simp: put_binary_data_def and_then_def lift_res_def fail_def split: sum.splits)

lemma delete_framed:
  assumes "keys_ok w" and "good e (abs_of w)" and "rng w < id_horizon e"
  shows "framed (own_frame e n w) (snd (delete n False w))"
proof -
  let ?F = "own_frame e n w"
  have link: "framed ?F (snd (delete_link l v))"
    if v: "framed ?F v" "sources v = sources w" and l: "link_map w n = Some l" for v l
    unfolding delete_link_def get_source_by_id_def
  proof (rule framed_query [OF v(1)], goal_cases)
    case (1 u)
    then have "find (\<lambda>s. s_id s = l_source_id l) (sources u) = source_map w (l_source_id l)"
      using v(2) by (simp add: find_source_id source_map_def)
    moreover have "framed ?F (snd (and_then (checked_pred (s_count s)) (\<lambda>source_count.
        and_then (delete_link_by_id (l_id l)) (\<lambda>_.
        or_else (release_source l s source_count)
          (\<lambda>err. and_then (ignore (insert_link_with_id (l_id l) (l_name l) (extension_of (l_name l))
             (l_source_id l) (l_mode l))) (\<lambda>_. fail err)))) u))"
      if "source_map w (l_source_id l) = Some s" for s
      by (rule keepsD [OF framed_delete_link_op])
         (use that l 1 link_map_SomeD [OF l] source_map_SomeD [OF that] in
           \<open>auto simp: own_lids_def owned_def\<close>)
    ultimately show ?case using 1(1) by (auto simp: fail_def split: option.split)
  qed
  show ?thesis
  proof (cases "n = []")
    case True
    then show ?thesis using framed_own_frame [OF assms] by (simp add: delete_def fail_def)
  next
    case False
    have "list_locked n 0 False False = call DbErr (get (\<lambda>w. filter (\<lambda>l. l_name l = n) (links w)))"
      using False by (simp add: list_locked_def get_links_by_name_def)
    moreover have "framed ?F (snd (and_then (call DbErr (get (\<lambda>w. filter (\<lambda>l. l_name l = n) (links w))))
        (for_each delete_link) w))"
    proof (rule framed_query [OF framed_own_frame [OF assms]], goal_cases)
      case (1 v)
      then have "filter (\<lambda>l. l_name l = n) (links v) = (case link_map w n of None \<Rightarrow> [] | Some l \<Rightarrow> [l])"
        using links_by_name [OF assms(1), of n] by simp
      then show ?case
        using 1 link [of v]
        by (cases "link_map w n") (auto simp: and_then_def ok_def split: prod.splits sum.splits)
    qed
    ultimately show ?thesis using False by (simp add: delete_def)
  qed
qed

end
