(* ===== verification/Lina_Store_Thms.thy ===== *)
theory Lina_Store_Thms
  imports Lina_Store_Frame
begin

text \<open>
  The theorems about \<open>StoreManager\<close>, stated over worlds: the abstract store as an interface for the
  clients of the store, its implementation by the code's operations, and the properties of
  put, get and delete with and without failing calls.
\<close>

section \<open>Worlds the store reaches\<close>

definition store_ok :: "env \<Rightarrow> world \<Rightarrow> bool" where
  "store_ok e w \<longleftrightarrow> keys_ok w \<and> good e (abs_of w)"

definition lawful :: "env \<Rightarrow> bool" where
  "lawful e \<longleftrightarrow> supply_lawful e \<and> gzip_lawful (gz e)"

definition view :: "env \<Rightarrow> world \<Rightarrow> string \<Rightarrow> byte list option" where
  "view e w = contents e (abs_of w)"

text \<open>Data that may be stored: no other stored payload has its hash, and the generators still have
  unused identifiers.\<close>

definition admits :: "env \<Rightarrow> world \<Rightarrow> byte list \<Rightarrow> bool" where
  "admits e w d \<longleftrightarrow> no_collision e (abs_of w) d \<and> rng w + 2 \<le> id_horizon e"

lemma store_ok_at: "store_ok e w \<Longrightarrow> at w (abs_of w) (bud w) \<and> good e (abs_of w)"
  by (simp add: store_ok_def at_def)

lemma at_store_ok: "at w a k \<Longrightarrow> good e a \<Longrightarrow> store_ok e w \<and> view e w = contents e a"
  by (auto simp: store_ok_def at_def view_def)

lemma put_outcome:
  assumes "store_ok e w" and "lawful e" and "one_fault w" and "n \<noteq> []" and "admits e w d"
  shows "wp (put_binary_data e n d cover cm) (\<lambda>_. put_done e n d (abs_of w) (bud w))
    (\<lambda>_. rolled_back (abs_of w) (bud w)) w"
  using assms store_ok_at [OF assms(1)]
  by (intro put_spec) (auto simp: lawful_def admits_def bud_1_one_fault [simplified])

lemma put_done_world:
  "put_done e n d (abs_of w) k w' \<Longrightarrow> store_ok e w' \<and> view e w' = (view e w)(n \<mapsto> d) \<and> bud w' = k"
  by (auto simp: put_done_def store_ok_def view_def at_def)

lemma rolled_back_world:
  assumes "rolled_back (abs_of w) k w'" and "store_ok e w"
  shows "store_ok e w' \<and> view e w' = view e w \<and> link_map w' = link_map w \<and> bud w' < k"
proof -
  obtain r j where r: "at w' ((abs_of w)\<lparr>a_rng := r\<rparr>) j" "a_rng (abs_of w) \<le> r" "j < k"
    using assms(1) by (auto simp: rolled_back_def)
  have "good e ((abs_of w)\<lparr>a_rng := r\<rparr>)" using assms(2) r(2) by (intro good_rng) (auto simp: store_ok_def)
  from at_store_ok [OF r(1) this] have "store_ok e w'" "view e w' = view e w"
    by (simp_all add: view_def)
  moreover have "link_map w' = link_map w"
    using r(1) abs_sel(1) [of w'] by (simp add: at_def)
  ultimately show ?thesis using r by (auto simp: at_def)
qed

lemma put_quiet:
  assumes "store_ok e w" and "lawful e" and "quiet w" and "n \<noteq> []" and "admits e w d"
  shows "\<exists>w'. put_binary_data e n d cover cm w = (Inr (), w') \<and> store_ok e w' \<and> quiet w' \<and>
    view e w' = (view e w)(n \<mapsto> d)"
proof -
  have k: "bud w = 0" using assms(3) by (simp add: bud_0_quiet)
  have "wp (put_binary_data e n d cover cm) (\<lambda>_ w'. put_done e n d (abs_of w) 0 w') (\<lambda>_ _. False) w"
    by (rule wp_mono [OF put_outcome [OF assms(1,2) _ assms(4,5)]])
       (use assms(3) in \<open>auto simp: k rolled_back_def\<close>)
  from wp_okD [OF this] show ?thesis by (auto dest!: put_done_world simp: bud_0_quiet)
qed

lemma get_quiet:
  assumes "store_ok e w" and "quiet w" and "n \<noteq> []"
  shows "\<exists>w'. get_binary_data e n w =
      ((case view e w n of None \<Rightarrow> Inl (IoErr NotFound ''File not found'') | Some d \<Rightarrow> Inr d), w') \<and>
    store_ok e w' \<and> quiet w' \<and> view e w' = view e w \<and> (\<forall>d. admits e w' d = admits e w d)"
proof -
  obtain L S P r where a: "abs_of w = St L S P r" by (cases "abs_of w") auto
  have k: "bud w = 0" using assms(2) by (simp add: bud_0_quiet)
  note g = store_ok_at [OF assms(1), unfolded a k]
  have "wp (get_binary_data e n) (\<lambda>d v. at v (St L S P r) 0 \<and> contents e (St L S P r) n = Some d)
    (\<lambda>er v. (contents e (St L S P r) n = None \<and> er = IoErr NotFound ''File not found'' \<and>
        at v (St L S P r) 0) \<or> (\<exists>j<0. at v (St L S P r) j)) w"
    using g by (intro get_spec assms(3)) (auto simp: good_def)
  then show ?thesis
    using g at_store_ok [of _ "St L S P r" 0 e]
    by (cases "get_binary_data e n w")
       (auto simp: wp_def view_def admits_def a at_def bud_0_quiet simp flip: abs_sel(4) split: sum.splits)
qed

lemma delete_quiet:
  assumes "store_ok e w" and "lawful e" and "quiet w" and "pattern \<noteq> []"
  shows "\<exists>w'. delete pattern use_regex w = (Inr (), w') \<and> store_ok e w' \<and> quiet w' \<and>
    view e w' = (\<lambda>m. if name_matches pattern use_regex m then None else view e w m)"
proof -
  let ?M = "{n. name_matches pattern use_regex n \<and> a_links (abs_of w) n \<noteq> None}"
  have k: "bud w = 0" using assms(3) by (simp add: bud_0_quiet)
  have "wp (delete pattern use_regex) (\<lambda>_ v. \<exists>a'. at v a' 0 \<and> deleted e ?M (abs_of w) a') (\<lambda>_ _. False) w"
    by (rule wp_mono [OF delete_spec [of w "abs_of w" 0 e]])
       (use assms store_ok_at [OF assms(1)] in \<open>auto simp: k lawful_def\<close>)
  from wp_okD [OF this] obtain w' a' where d: "delete pattern use_regex w = (Inr (), w')" "at w' a' 0"
    "deleted e ?M (abs_of w) a'" by auto
  have "view e w m = None" if "link_map w m = None" for m
    using that by (simp add: view_def contents_def)
  then have "contents e a' = (\<lambda>m. if name_matches pattern use_regex m then None else view e w m)"
    using d(3) by (auto simp: deleted_def view_def fun_eq_iff)
  with d at_store_ok [OF d(2), of e] show ?thesis
    by (auto simp: deleted_def at_def bud_0_quiet)
qed

section \<open>The store as an interface\<close>

text \<open>What the clients of the store rely on while no call fails: the state stands for a map from
  names to data, and the three operations are update, lookup and removal.\<close>

locale object_store =
  fixes inv :: "'s \<Rightarrow> bool"
    and contents_of :: "'s \<Rightarrow> string \<Rightarrow> byte list option"
    and accepts :: "'s \<Rightarrow> byte list \<Rightarrow> bool"
    and put_op :: "string \<Rightarrow> byte list \<Rightarrow> bool \<Rightarrow> bool \<Rightarrow> 's \<Rightarrow> unit res \<times> 's"
    and get_op :: "string \<Rightarrow> 's \<Rightarrow> byte list res \<times> 's"
    and del_op :: "string \<Rightarrow> 's \<Rightarrow> unit res \<times> 's"
  assumes put_updates: "inv s \<Longrightarrow> n \<noteq> [] \<Longrightarrow> accepts s d \<Longrightarrow>
      \<exists>s'. put_op n d cover cm s = (Inr (), s') \<and> inv s' \<and> contents_of s' = (contents_of s)(n \<mapsto> d)"
    and get_looks_up: "inv s \<Longrightarrow> n \<noteq> [] \<Longrightarrow>
      \<exists>s'. get_op n s = ((case contents_of s n of None \<Rightarrow> Inl (IoErr NotFound ''File not found'')
        | Some d \<Rightarrow> Inr d), s') \<and> inv s' \<and> contents_of s' = contents_of s \<and>
        (\<forall>d. accepts s' d = accepts s d)"
    and del_removes: "inv s \<Longrightarrow> n \<noteq> [] \<Longrightarrow>
      \<exists>s'. del_op n s = (Inr (), s') \<and> inv s' \<and> contents_of s' = (contents_of s)(n := None)"
begin

lemma get_after_put:
  assumes "inv s" and "n \<noteq> []" and "accepts s d" and "m \<noteq> []"
  shows "fst (get_op m (snd (put_op n d cover cm s))) =
    (if m = n then Inr d else fst (get_op m s))"
proof -
  obtain s' where s': "put_op n d cover cm s = (Inr (), s')" "inv s'"
    "contents_of s' = (contents_of s)(n \<mapsto> d)"
    using put_updates [OF assms(1-3)] by blast
  from get_looks_up [OF s'(2) assms(4)] get_looks_up [OF assms(1,4)] s' show ?thesis by auto
qed

lemma get_after_del:
  assumes "inv s" and "n \<noteq> []" and "m \<noteq> []"
  shows "fst (get_op m (snd (del_op n s))) =
    (if m = n then Inl (IoErr NotFound ''File not found'') else fst (get_op m s))"
proof -
  obtain s' where s': "del_op n s = (Inr (), s')" "inv s'" "contents_of s' = (contents_of s)(n := None)"
    using del_removes [OF assms(1,2)] by blast
  from get_looks_up [OF s'(2) assms(3)] get_looks_up [OF assms(1,3)] s' show ?thesis by auto
qed

text \<open>Deleting twice is deleting once.\<close>

lemma del_idem:
  assumes "inv s" and "n \<noteq> []"
  shows "contents_of (snd (del_op n (snd (del_op n s)))) = contents_of (snd (del_op n s)) \<and>
    fst (del_op n (snd (del_op n s))) = Inr ()"
proof -
  obtain s' where s': "del_op n s = (Inr (), s')" "inv s'" "contents_of s' = (contents_of s)(n := None)"
    using del_removes [OF assms] by blast
  with del_removes [OF s'(2) assms(2)] show ?thesis by auto
qed

end

definition store_inv :: "env \<Rightarrow> world \<Rightarrow> bool" where
  "store_inv e w \<longleftrightarrow> lawful e \<and> store_ok e w \<and> quiet w"

lemma name_matches_exact [simp]: "name_matches n False m \<longleftrightarrow> m = n"
  by (simp add: name_matches_def)

interpretation sm: object_store "store_inv e" "view e" "admits e" "put_binary_data e" "get_binary_data e"
  "\<lambda>n. delete n False"
  for e
proof
  fix w d cover cm and n :: string
  assume "store_inv e w" and "n \<noteq> []" and "admits e w d"
  then show "\<exists>w'. put_binary_data e n d cover cm w = (Inr (), w') \<and> store_inv e w' \<and>
      view e w' = (view e w)(n \<mapsto> d)"
    using put_quiet [of e w n d cover cm] by (auto simp: store_inv_def)
next
  fix w and n :: string
  assume "store_inv e w" and "n \<noteq> []"
  then show "\<exists>w'. get_binary_data e n w =
      ((case view e w n of None \<Rightarrow> Inl (IoErr NotFound ''File not found'') | Some d \<Rightarrow> Inr d), w') \<and>
      store_inv e w' \<and> view e w' = view e w \<and> (\<forall>d. admits e w' d = admits e w d)"
    using get_quiet [of e w n] by (auto simp: store_inv_def)
next
  fix w and n :: string
  assume "store_inv e w" and n: "n \<noteq> []"
  then obtain w' where "delete n False w = (Inr (), w')" "store_inv e w'"
    "view e w' = (\<lambda>m. if m = n then None else view e w m)"
    using delete_quiet [of e w n False] by (auto simp: store_inv_def)
  then show "\<exists>w'. delete n False w = (Inr (), w') \<and> store_inv e w' \<and> view e w' = (view e w)(n := None)"
    by (auto simp: fun_eq_iff)
qed

section \<open>A concrete environment\<close>

text \<open>An instance in which the assumptions on third-party code hold: a stored gzip stream, an
  injective hash, and generators that count through the digits.\<close>

definition demo_env :: env where
  "demo_env = \<lparr>gz = \<lparr>gz_encode = Inr, gz_decode = Inr\<rparr>, hash256 = of_bytes, parallelism = Some 2,
     uuid_v4 = (\<lambda>n. ''0b5e7c1a-32f4-4d68-9a10-77c2d94e000'' @ [NANOID_MAP ! n]),
     utc_stamp = (\<lambda>_. ''20260101120000''), nano_id8 = (\<lambda>n. ''q7Zx0aB'' @ [NANOID_MAP ! n]),
     id_horizon = 10\<rparr>"

definition demo_world :: "bool list \<Rightarrow> world" where
  "demo_world fs = \<lparr>links = [], sources = [], dirs = [], files = Map.empty,
     host = [''/tmp/in.txt'' \<mapsto> [7, 8]], faults = fs, rng = 0, clock = ''2026-01-01 12:00:00''\<rparr>"

lemma demo_digits: "m < 10 \<Longrightarrow> n < 10 \<Longrightarrow> NANOID_MAP ! m = NANOID_MAP ! n \<longleftrightarrow> m = n"
  by (rule nth_eq_iff_index_eq) (simp_all add: NANOID_MAP_def)

lemma demo_lawful: "lawful demo_env"
proof -
  have "set ''20260101120000'' \<subseteq> set NANOID_MAP" "set ''q7Zx0aB'' \<subseteq> set NANOID_MAP"
    by (simp_all add: NANOID_MAP_def)
  moreover have "n < 10 \<Longrightarrow> NANOID_MAP ! n \<in> set NANOID_MAP" for n
    by (rule nth_mem) (simp add: NANOID_MAP_def)
  ultimately show ?thesis
    by (auto simp: lawful_def supply_lawful_def demo_env_def gen_id_def inj_on_def demo_digits
        id_ok_def gzip_lawful_def)
qed

lemma demo_store_ok: "store_ok demo_env (demo_world fs)"
  by (simp add: store_ok_def good_def keys_ok_def wf_def fresh_def link_map_def source_map_def
      demo_world_def pay_def)

lemma demo_view: "view demo_env (demo_world fs) = Map.empty"
  by (simp add: view_def contents_def demo_world_def link_map_def fun_eq_iff)

text \<open>The demo hash is injective, so no two payloads collide.\<close>

lemma demo_admits: "rng w + 2 \<le> 10 \<Longrightarrow> admits demo_env w d"
proof -
  have "of_bytes x = of_bytes y \<longleftrightarrow> x = y" for x y by (metis as_bytes_of_bytes)
  moreover assume "rng w + 2 \<le> 10"
  ultimately show ?thesis
    by (simp add: admits_def no_collision_def demo_env_def get_hash256_from_binary_def BUFFER_SIZE_def)
qed

lemma demo_quiet: "quiet (demo_world [])" "one_fault (demo_world (replicate k False @ [True]))"
  by (simp_all add: demo_world_def quiet_def one_fault_def)

text \<open>A store in which two names share a source and a third has its own.\<close>

definition demo_link :: "string \<Rightarrow> string \<Rightarrow> string \<Rightarrow> string \<Rightarrow> link" where
  "demo_link i n x sid = \<lparr>l_id = i, l_name = n, l_ext = x, l_source_id = sid, l_mode = 420\<rparr>"

definition demo_source :: "string \<Rightarrow> byte list \<Rightarrow> nat \<Rightarrow> source" where
  "demo_source i d n = \<lparr>s_id = i, s_hash256 = of_bytes d, s_compressed = False, s_size = length d,
     s_count = n, s_create_at = ''t'', s_update_at = ''t''\<rparr>"

definition demo_store :: "bool list \<Rightarrow> world" where
  "demo_store fs =
     \<lparr>links = [demo_link ''L1'' ''a.txt'' ''txt'' ''20260101110000aaaaaaaa'',
               demo_link ''L2'' ''b.txt'' ''txt'' ''20260101110000aaaaaaaa'',
               demo_link ''L3'' ''c'' [] ''20260101110000bbbbbbbb''],
      sources = [demo_source ''20260101110000aaaaaaaa'' [1, 2, 3] 2,
                 demo_source ''20260101110000bbbbbbbb'' [4] 1],
      dirs = [],
      files = [[''2026'', ''01'', ''20260101110000aaaaaaaa''] \<mapsto> [1, 2, 3],
               [''2026'', ''01'', ''20260101110000bbbbbbbb''] \<mapsto> [4]],
      host = [''/tmp/in.txt'' \<mapsto> [7, 8]], faults = fs, rng = 0, clock = ''2026-01-01 12:00:00''\<rparr>"

lemma demo_maps:
  "link_map (demo_store fs) =
     [''a.txt'' \<mapsto> demo_link ''L1'' ''a.txt'' ''txt'' ''20260101110000aaaaaaaa'',
      ''b.txt'' \<mapsto> demo_link ''L2'' ''b.txt'' ''txt'' ''20260101110000aaaaaaaa'',
      ''c'' \<mapsto> demo_link ''L3'' ''c'' [] ''20260101110000bbbbbbbb'']"
  "source_map (demo_store fs) =
     [''20260101110000aaaaaaaa'' \<mapsto> demo_source ''20260101110000aaaaaaaa'' [1, 2, 3] 2,
      ''20260101110000bbbbbbbb'' \<mapsto> demo_source ''20260101110000bbbbbbbb'' [4] 1]"
  by (auto simp: link_map_def source_map_def demo_store_def demo_link_def demo_source_def fun_eq_iff)

lemma demo_pay:
  "pay (files (demo_store fs)) =
     [''20260101110000aaaaaaaa'' \<mapsto> [1, 2, 3], ''20260101110000bbbbbbbb'' \<mapsto> [4]]"
proof -
  have "id_ok ''20260101110000aaaaaaaa''" "id_ok ''20260101110000bbbbbbbb''"
    by (simp_all add: id_ok_def NANOID_MAP_def)
  then show ?thesis
    by (auto simp: fun_eq_iff pay_def demo_store_def src_path_def src_dir_def)
qed

lemma demo_hash [simp]: "get_hash256_from_binary (hash256 demo_env) d = of_bytes d"
  by (simp add: demo_env_def get_hash256_from_binary_def BUFFER_SIZE_def)

lemma demo_stored:
  "stored_data demo_env (abs_of (demo_store fs)) ''20260101110000aaaaaaaa'' = Some [1, 2, 3]"
  "stored_data demo_env (abs_of (demo_store fs)) ''20260101110000bbbbbbbb'' = Some [4]"
  by (simp_all add: stored_data_def demo_maps demo_pay decode_source_def demo_source_def)

lemma demo_referers:
  "referers (abs_of (demo_store fs)) ''20260101110000aaaaaaaa'' = {''a.txt'', ''b.txt''}"
  "referers (abs_of (demo_store fs)) ''20260101110000bbbbbbbb'' = {''c''}"
  by (auto simp: referers_def demo_maps demo_link_def split: if_splits)

lemma demo_full_ok: "store_ok demo_env (demo_store fs)"
proof -
  have ext: "extension_of ''a.txt'' = ''txt''" "extension_of ''b.txt'' = ''txt''" "extension_of ''c'' = []"
    by (simp_all add: extension_of_def path_extension_def path_file_name_def rfind_def Let_def)
  have "wf demo_env (abs_of (demo_store fs))"
    unfolding wf_def
  proof (intro conjI allI impI)
    show "finite (dom (a_links (abs_of (demo_store fs))))" by (simp add: demo_maps)
    show "link_ok (abs_of (demo_store fs)) n l" if "a_links (abs_of (demo_store fs)) n = Some l" for n l
      using that by (auto simp: link_ok_def demo_maps demo_link_def ext split: if_splits)
    show "source_ok demo_env (abs_of (demo_store fs)) i c"
      if "a_srcs (abs_of (demo_store fs)) i = Some c" for i c
    proof -
      from that have "i = ''20260101110000aaaaaaaa'' \<and> c = core_of (demo_source i [1, 2, 3] 2) \<or>
          i = ''20260101110000bbbbbbbb'' \<and> c = core_of (demo_source i [4] 1)"
        by (auto simp: demo_maps split: if_splits)
      then show ?thesis
        by (auto simp: source_ok_def demo_referers demo_stored demo_source_def id_ok_def NANOID_MAP_def)
    qed
  qed
  moreover have "fresh demo_env (abs_of (demo_store fs))"
    by (auto simp: fresh_def demo_maps demo_pay gen_id_def demo_env_def demo_link_def split: if_splits)
  moreover have "keys_ok (demo_store fs)"
    by (simp add: keys_ok_def demo_store_def demo_link_def demo_source_def)
  ultimately show ?thesis by (simp add: store_ok_def good_def)
qed

lemma demo_full_view:
  "view demo_env (demo_store fs) = [''a.txt'' \<mapsto> [1, 2, 3], ''b.txt'' \<mapsto> [1, 2, 3], ''c'' \<mapsto> [4]]"
  by (auto simp: view_def contents_def fun_eq_iff demo_maps demo_stored demo_link_def)

lemma demo_full_admits: "admits demo_env (demo_store fs) d"
  by (rule demo_admits) (simp add: demo_store_def)

lemma demo_full_sel [simp]:
  "faults (demo_store fs) = fs" "rng (demo_store fs) = 0" "id_horizon demo_env = 10"
  by (simp_all add: demo_store_def demo_env_def)

section \<open>Properties of put\<close>

text \<open>C3: When no call fails, \<open>put_binary_data\<close> succeeds, in both cover modes and with or without
  compression, keeps the invariant of the store, and is exactly the update of the map from
  names to contents.\<close>

theorem put_refines_update:
  assumes "store_ok e w" and "lawful e" and "quiet w" and "n \<noteq> []" and "admits e w d"
  shows "\<exists>w'. put_binary_data e n d cover cm w = (Inr (), w') \<and> store_ok e w' \<and> quiet w' \<and>
    view e w' = (view e w)(n \<mapsto> d)"
  by (rule put_quiet [OF assms])

theorem put_refines_update_witness:
  "\<exists>w'. put_binary_data demo_env ''b.txt'' [9] True True (demo_store []) = (Inr (), w') \<and>
     store_ok demo_env w' \<and> view demo_env w' = [''a.txt'' \<mapsto> [1, 2, 3], ''b.txt'' \<mapsto> [9], ''c'' \<mapsto> [4]]"
  using put_refines_update [OF demo_full_ok demo_lawful _ _ demo_full_admits, of "[]" "''b.txt''" "[9]" True True]
  by (auto simp: demo_full_view fun_upd_twist)

text \<open>C4: With at most one failing database or file-system call, anywhere, \<open>put_binary_data\<close>
  is atomic: it reports success and the map is updated, or it reports an error and the rollback
  code has restored the links, the contents and the invariant.\<close>

theorem put_atomic_one_fault:
  assumes "store_ok e w" and "lawful e" and "one_fault w" and "n \<noteq> []" and "admits e w d"
    and "put_binary_data e n d cover cm w = (r, w')"
  shows "store_ok e w' \<and>
    (case r of Inr _ \<Rightarrow> view e w' = (view e w)(n \<mapsto> d)
     | Inl _ \<Rightarrow> view e w' = view e w \<and> link_map w' = link_map w)"
  using wp_resultD [OF put_outcome [OF assms(1-5)] assms(6)] put_done_world [of e n d w "bud w" w']
    rolled_back_world [of w "bud w" w' e, OF _ assms(1)]
  by (auto split: sum.splits)

theorem put_atomic_one_fault_witness:
  "store_ok demo_env (snd (put_binary_data demo_env ''a.txt'' [9] True False
      (demo_store [False, False, False, False, False, False, False, False, False, True])))"
proof -
  let ?w = "demo_store [False, False, False, False, False, False, False, False, False, True]"
  obtain r w' where run: "put_binary_data demo_env ''a.txt'' [9] True False ?w = (r, w')"
    by (cases "put_binary_data demo_env ''a.txt'' [9] True False ?w") auto
  have "one_fault ?w" by (simp add: one_fault_def)
  from put_atomic_one_fault [OF demo_full_ok demo_lawful this _ demo_full_admits run] run
  show ?thesis by simp
qed

text \<open>C5: Whatever calls fail, the rollback's own calls included, \<open>put_binary_data\<close> on one name leaves
  the content of every other name unchanged, also of names that share the source it replaces.\<close>

theorem put_frame_any_faults:
  assumes "store_ok e w" and "rng w < id_horizon e" and "m \<noteq> n"
  shows "view e (snd (put_binary_data e n d cover cm w)) m = view e w m"
  using assms own_frame_contents [of w e n _ m] put_framed [of w e n d cover cm]
  by (simp add: store_ok_def view_def)

theorem put_frame_any_faults_witness:
  "view demo_env (snd (put_binary_data demo_env ''a.txt'' [9] True False
      (demo_store (replicate 9 False @ replicate 9 True)))) ''b.txt'' = Some [1, 2, 3]"
  using put_frame_any_faults [of demo_env "demo_store (replicate 9 False @ replicate 9 True)" "''b.txt''"
      "''a.txt''" "[9]" True False] demo_full_ok [of "replicate 9 False @ replicate 9 True"]
  by (simp add: demo_full_view)

section \<open>Properties of get\<close>

text \<open>When no call fails, \<open>get_binary_data\<close> returns the content of a stored name and
  \<^const>\<open>NotFound\<close> for any other, and changes nothing.\<close>

theorem get_returns_contents:
  assumes "store_ok e w" and "quiet w" and "n \<noteq> []"
  shows "\<exists>w'. get_binary_data e n w =
      ((case view e w n of None \<Rightarrow> Inl (IoErr NotFound ''File not found'') | Some d \<Rightarrow> Inr d), w') \<and>
    store_ok e w' \<and> quiet w' \<and> view e w' = view e w"
  using get_quiet [OF assms] by blast

theorem get_returns_contents_witness:
  "fst (get_binary_data demo_env ''c'' (demo_store [])) = Inr [4]"
  using get_returns_contents [OF demo_full_ok [of "[]"], of "''c''"] by (auto simp: demo_full_view)

text \<open>C6: Reading after writing: \<open>get_binary_data\<close> of the name just written returns the bytes that
  were written, compressed or not, and of any other name what it returned before.\<close>

theorem put_get_roundtrip:
  assumes "store_inv e w" and "n \<noteq> []" and "admits e w d" and "m \<noteq> []"
  shows "fst (get_binary_data e m (snd (put_binary_data e n d cover cm w))) =
    (if m = n then Inr d else fst (get_binary_data e m w))"
  by (rule sm.get_after_put [OF assms])

theorem put_get_roundtrip_witness:
  "fst (get_binary_data demo_env ''new'' (snd (put_binary_data demo_env ''new'' [5, 6] False True
      (demo_store [])))) = Inr [5, 6]"
  using put_get_roundtrip [of demo_env "demo_store []" "''new''" "[5, 6]" "''new''" False True]
    demo_full_ok demo_lawful demo_full_admits by (simp add: store_inv_def)

text \<open>C10: In every state and under every pattern of faults, \<open>get_binary_data\<close> returns data only if it has
  the hash that the source row of the named link records: damaged payloads are never served.\<close>

theorem get_integrity:
  assumes "get_binary_data e n w = (Inr d, w')"
  shows "\<exists>l\<in>set (links w). \<exists>s\<in>set (sources w). l_name l = n \<and> s_id s = l_source_id l \<and>
    get_hash256_from_binary (hash256 e) d = s_hash256 s"
proof -
  let ?ls = "filter (\<lambda>l. l_name l = n) (links w)"
  from assms obtain l ls where l: "?ls = l # ls"
    by (cases ?ls) (auto simp: get_binary_data_def get_links_by_name_def and_then_def call_def get_def
        fail_def split: if_splits)
  have mem: "l \<in> set (links w)" "l_name l = n" using arg_cong [OF l, of set] by auto
  from assms l obtain s where s: "find (\<lambda>s. s_id s = l_source_id l) (sources w) = Some s"
    and "get_hash256_from_binary (hash256 e) d = s_hash256 s"
    by (auto simp: get_binary_data_def get_links_by_name_def get_source_by_id_def and_then_def
        call_def get_def fail_def check_hash_def ok_def
        split: if_splits option.splits prod.splits sum.splits)
  moreover have "s \<in> set (sources w)" "s_id s = l_source_id l" using s by (auto simp: find_Some_iff)
  ultimately show ?thesis using mem by blast
qed

theorem get_integrity_witness:
  "\<exists>s\<in>set (sources (demo_store [])). s_hash256 s = of_bytes [4]"
proof -
  have "fst (get_binary_data demo_env ''c'' (demo_store [])) = Inr [4]"
    using get_quiet [OF demo_full_ok [of "[]"], of "''c''"] by (auto simp: demo_full_view)
  then obtain w' where "get_binary_data demo_env ''c'' (demo_store []) = (Inr [4], w')"
    by (cases "get_binary_data demo_env ''c'' (demo_store [])") auto
  from get_integrity [OF this] show ?thesis by force
qed

section \<open>Properties of delete\<close>

text \<open>C7: When no call fails, \<open>delete\<close> succeeds, keeps the invariant, and removes exactly the names
  that the pattern selects, the exact name or, with \<open>use_regx\<close>, those that the translated pattern
  matches.\<close>

theorem delete_refines_removal:
  assumes "store_ok e w" and "lawful e" and "quiet w" and "pattern \<noteq> []"
  shows "\<exists>w'. delete pattern use_regex w = (Inr (), w') \<and> store_ok e w' \<and> quiet w' \<and>
    view e w' = (\<lambda>m. if name_matches pattern use_regex m then None else view e w m)"
  by (rule delete_quiet [OF assms])

lemma demo_pattern:
  "name_matches ''*.TXT'' True ''a.txt''" "name_matches ''*.TXT'' True ''b.txt''"
  "\<not> name_matches ''*.TXT'' True ''c''"
  by code_simp+

theorem delete_refines_removal_witness:
  "\<exists>w'. delete ''*.TXT'' True (demo_store []) = (Inr (), w') \<and> store_ok demo_env w' \<and>
     view demo_env w' = [''c'' \<mapsto> [4]]"
  using delete_refines_removal [OF demo_full_ok demo_lawful, of "[]" "''*.TXT''" True] demo_pattern
  by (auto simp: demo_full_view fun_eq_iff)

text \<open>C8: With at most one failing call, \<open>delete\<close> is atomic for each name: on success all the selected
  names are gone; on an error some of them are gone and the others, with every name the pattern
  does not select, are as before; the invariant holds in both cases.\<close>

theorem delete_atomic_one_fault:
  assumes "store_ok e w" and "lawful e" and "one_fault w" and "pattern \<noteq> []"
    and "delete pattern use_regex w = (r, w')"
  shows "store_ok e w' \<and> (\<exists>N. view e w' = (\<lambda>m. if m \<in> N then None else view e w m) \<and>
    (case r of Inr _ \<Rightarrow> N = {m. name_matches pattern use_regex m \<and> link_map w m \<noteq> None}
     | Inl _ \<Rightarrow> N = {} \<or> N \<subset> {m. name_matches pattern use_regex m \<and> link_map w m \<noteq> None}))"
proof -
  let ?M = "{n. name_matches pattern use_regex n \<and> link_map w n \<noteq> None}"
  have "wp (delete pattern use_regex) (\<lambda>_ v. \<exists>a'. at v a' (bud w) \<and> deleted e ?M (abs_of w) a')
      (\<lambda>_ v. \<exists>a' N j. at v a' j \<and> j < bud w \<and> (N \<subset> ?M \<or> N = {}) \<and> deleted e N (abs_of w) a') w"
    by (rule delete_spec [of w "abs_of w", unfolded abs_sel(1)])
       (use assms store_ok_at [OF assms(1)] in \<open>auto simp: lawful_def bud_1_one_fault [simplified]\<close>)
  from wp_resultD [OF this assms(5)] obtain a' N j where "at w' a' j" "deleted e N (abs_of w) a'"
    "case r of Inr _ \<Rightarrow> N = ?M | Inl _ \<Rightarrow> N = {} \<or> N \<subset> ?M"
    by (fastforce split: sum.splits)
  then show ?thesis
    using at_store_ok [of w' a' j e] by (auto simp: deleted_def view_def intro!: exI [of _ N])
qed

theorem delete_atomic_one_fault_witness:
  "store_ok demo_env (snd (delete ''*'' True (demo_store [False, False, False, True])))"
proof -
  let ?w = "demo_store [False, False, False, True]"
  obtain r w' where run: "delete ''*'' True ?w = (r, w')" by (cases "delete ''*'' True ?w") auto
  have "one_fault ?w" by (simp add: one_fault_def)
  from delete_atomic_one_fault [OF demo_full_ok demo_lawful this _ run] run show ?thesis by simp
qed

text \<open>C9: Whatever calls fail, deleting one name leaves the content of every other name unchanged.\<close>

theorem delete_frame_any_faults:
  assumes "store_ok e w" and "rng w < id_horizon e" and "m \<noteq> n"
  shows "view e (snd (delete n False w)) m = view e w m"
  using assms own_frame_contents [of w e n _ m] delete_framed [of w e n]
  by (simp add: store_ok_def view_def)

theorem delete_frame_any_faults_witness:
  "view demo_env (snd (delete ''a.txt'' False (demo_store [False, False, False, True, True]))) ''b.txt'' =
     Some [1, 2, 3]"
  using delete_frame_any_faults [OF demo_full_ok [of "[False, False, False, True, True]"], of "''b.txt''" "''a.txt''"]
  by (simp add: demo_full_view)

end
