(* ===== verification/Lina_Porter.thy ===== *)
theory Lina_Porter
  imports Lina_Conveyer Lina_Store_Thms
begin

text \<open>
  The workers, \<^verbatim>\<open>linastore-server/src/porter.rs\<close>: what one worker does with an order, and the loop that
  takes orders off the queue.  The order is executed by the store, so the theorems about a worker
  rest on the interface \<open>object_store\<close>, and its answer goes through the waiter registry of
  \<open>Lina_Conveyer\<close>.
\<close>

section \<open>One order\<close>

definition flag_set :: "byte \<Rightarrow> flag_type \<Rightarrow> bool" where
  "flag_set flags b \<longleftrightarrow> flags AND flag_byte b \<noteq> 0"

definition send_response :: "package \<Rightarrow> convey_queue \<Rightarrow> (string + unit) \<times> convey_queue" where
  "send_response res_pkg q =
     (case produce_service res_pkg q of
        (Inl e, q') \<Rightarrow> (Inl (''Failed to send response: '' @ e), q')
      | (Inr u, q') \<Rightarrow> (Inr u, q'))"

text \<open>The name up to the first NUL byte; none when it is empty or not UTF-8.\<close>

definition order_name :: "byte list \<Rightarrow> string option" where
  "order_name idn = (if until_nul idn = [] then None else from_utf8 (until_nul idn))"

text \<open>The store operation of an order: the status and the data of the answer.\<close>

definition execute_order :: "env \<Rightarrow> package \<Rightarrow> string \<Rightarrow> world \<Rightarrow> (status \<times> byte list) \<times> world" where
  "execute_order e pkg name w =
     (case pk_behavior pkg of
        PutFile \<Rightarrow>
          (let flags = ct_flags (pk_content pkg) in
           case put_binary_data e name (ct_data (pk_content pkg)) (flag_set flags FCover)
                  (flag_set flags FCompress) w of
             (Inr _, w') \<Rightarrow> ((Success, []), w')
           | (Inl _, w') \<Rightarrow> ((StoreFailed, []), w'))
      | GetFile \<Rightarrow>
          (case get_binary_data e name w of
             (Inr data, w') \<Rightarrow> ((Success, data), w')
           | (Inl _, w') \<Rightarrow> ((FileNotFound, []), w'))
      | DeleteFile \<Rightarrow>
          (case delete name False w of
             (Inr _, w') \<Rightarrow> ((Success, []), w')
           | (Inl _, w') \<Rightarrow> ((FileNotFound, []), w'))
      | NoBehavior \<Rightarrow> ((InternalError, []), w))"

definition process_package ::
  "env \<Rightarrow> int \<Rightarrow> package \<Rightarrow> world \<Rightarrow> convey_queue \<Rightarrow> (string + unit) \<times> world \<times> convey_queue" where
  "process_package e now pkg w q =
     (let fresh = package_new (uuid_v4 e (rng w)) now;
          w1 = snd (fresh_uuid e w);
          res_pkg = fresh\<lparr>pk_uni_id := pk_uni_id pkg,
                          pk_content := (pk_content fresh)
                            \<lparr>ct_identifier := ct_identifier (pk_content pkg),
                             ct_flags := ct_flags (pk_content pkg)\<rparr>\<rparr>
      in case order_name (ct_identifier (pk_content pkg)) of
           None \<Rightarrow>
             (let (r, q') = send_response (res_pkg\<lparr>pk_status := FileNameInvalid\<rparr>) q in (r, w1, q'))
         | Some name \<Rightarrow>
             (let ((st, data), w2) = execute_order e pkg name w1;
                  (r, q') = send_response
                    (res_pkg\<lparr>pk_status := st, pk_content := (pk_content res_pkg)\<lparr>ct_data := data\<rparr>\<rparr>) q
              in (r, w2, q')))"

section \<open>What an order does to the stored objects\<close>

fun order_spec ::
  "behavior \<Rightarrow> string \<Rightarrow> byte list \<Rightarrow> (string \<Rightarrow> byte list option) \<Rightarrow>
   (status \<times> byte list) \<times> (string \<Rightarrow> byte list option)" where
  "order_spec PutFile n d m = ((Success, []), m(n \<mapsto> d))"
| "order_spec GetFile n d m =
     ((case m n of None \<Rightarrow> (FileNotFound, []) | Some x \<Rightarrow> (Success, x)), m)"
| "order_spec DeleteFile n d m = ((Success, []), m(n := None))"
| "order_spec NoBehavior n d m = ((InternalError, []), m)"

lemma order_name_nonempty: "order_name idn = Some n \<Longrightarrow> n \<noteq> []"
  by (auto simp: order_name_def from_utf8_def of_bytes_def split: if_splits)

lemma execute_order_spec:
  assumes inv: "store_inv e w" and n: "n \<noteq> []"
    and adm: "pk_behavior pkg = PutFile \<Longrightarrow> admits e w (ct_data (pk_content pkg))"
  shows "\<exists>r w'. execute_order e pkg n w = (r, w') \<and> store_inv e w' \<and>
    (r, view e w') = order_spec (pk_behavior pkg) n (ct_data (pk_content pkg)) (view e w)"
proof (cases "pk_behavior pkg")
  case GetFile
  with sm.get_looks_up [OF inv n] show ?thesis
    by (cases "view e w n") (auto simp: execute_order_def)
next
  case PutFile
  obtain w' where "put_binary_data e n (ct_data (pk_content pkg)) (flag_set (ct_flags (pk_content pkg)) FCover)
      (flag_set (ct_flags (pk_content pkg)) FCompress) w = (Inr (), w')" "store_inv e w'"
    "view e w' = (view e w)(n \<mapsto> ct_data (pk_content pkg))"
    using sm.put_updates [OF inv n adm [OF PutFile]] by blast
  with PutFile show ?thesis by (simp add: execute_order_def)
next
  case DeleteFile
  with sm.del_removes [OF inv n] show ?thesis by (auto simp: execute_order_def)
next
  case NoBehavior
  with inv show ?thesis by (simp add: execute_order_def)
qed

text \<open>Drawing an identifier does not change what is stored.\<close>

lemma store_inv_rng:
  assumes "store_inv e w"
  shows "store_inv e (w\<lparr>rng := Suc (rng w)\<rparr>) \<and> view e (w\<lparr>rng := Suc (rng w)\<rparr>) = view e w"
proof -
  have a: "abs_of (w\<lparr>rng := Suc (rng w)\<rparr>) = (abs_of w)\<lparr>a_rng := Suc (rng w)\<rparr>"
    by (simp add: abs_of_def link_map_def source_map_def)
  have "good e ((abs_of w)\<lparr>a_rng := Suc (rng w)\<rparr>)"
    using assms by (intro good_rng) (auto simp: store_inv_def store_ok_def)
  with assms a show ?thesis
    by (auto simp: store_inv_def store_ok_def keys_ok_def view_def)
qed

lemma send_response_registered:
  assumes "convey_ok q" and "\<not> waiters_poisoned q"
    and "map_of (waiters q) (pk_uni_id p) = Some we"
  shows "\<exists>q'. send_response p q = (Inr (), q') \<and> chans q' ! we_sender we = Sent p \<and>
    map_of (waiters q') = (map_of (waiters q))(pk_uni_id p := None) \<and> order_queue q' = order_queue q"
  using assms waiters_okD(2) [of q "pk_uni_id p" we]
  by (auto simp: send_response_def produce_service_def convey_ok_def)

section \<open>The loop\<close>

definition MAX_PORTER_CONCURRENCY :: nat where
  "MAX_PORTER_CONCURRENCY = 8"

definition porter_concurrency :: "nat option \<Rightarrow> nat" where
  "porter_concurrency available =
     max 2 (min (case available of None \<Rightarrow> 4 | Some n \<Rightarrow> n) MAX_PORTER_CONCURRENCY)"

text \<open>Where the loop is: in the inner loop that takes orders, in \<^verbatim>\<open>select!\<close>, or left.  \<open>workers\<close> are the
  orders of the running tasks, \<open>seen\<close> is the version the subscription has seen, and \<open>owing\<close> counts the
  producers that have pushed an order and not yet sent the notification, which they do after
  releasing the mutex.  Error counters feed log lines only and are left out.\<close>

datatype phase = Taking | Selecting | Stopped

record porter_state =
  po_queue :: convey_queue
  po_phase :: phase
  workers :: "package list"
  seen :: nat
  shutting_down :: bool
  is_shutdown :: bool
  owing :: nat

definition porter_init :: "convey_queue \<Rightarrow> porter_state" where
  "porter_init q =
     (let (v, q') = subscribe_orders q in
      \<lparr>po_queue = q', po_phase = Taking, workers = [], seen = v, shutting_down = False,
       is_shutdown = False, owing = 0\<rparr>)"

text \<open>The end of a round of \<^verbatim>\<open>select!\<close>, and the way into it: the loop is left when it is shutting down and
  no worker is left.\<close>

definition next_round :: "porter_state \<Rightarrow> porter_state" where
  "next_round s = s\<lparr>po_phase := Taking, shutting_down := shutting_down s \<or> is_shutdown s\<rparr>"

definition enter_select :: "porter_state \<Rightarrow> porter_state" where
  "enter_select s =
     s\<lparr>po_phase := if shutting_down s \<and> workers s = [] then Stopped else Selecting\<rparr>"

inductive porter_step :: "nat \<Rightarrow> porter_state \<Rightarrow> porter_state \<Rightarrow> bool" for limit where
  Take: "po_phase s = Taking \<Longrightarrow> \<not> shutting_down s \<Longrightarrow> length (workers s) < limit \<Longrightarrow>
    consume_order (po_queue s) = (Inr (Some p), q) \<Longrightarrow>
    porter_step limit s (s\<lparr>po_queue := q, workers := p # workers s\<rparr>)"
| Empty: "po_phase s = Taking \<Longrightarrow> \<not> shutting_down s \<Longrightarrow> length (workers s) < limit \<Longrightarrow>
    consume_order (po_queue s) = (Inr None, q) \<Longrightarrow> porter_step limit s (enter_select s)"
| Error: "po_phase s = Taking \<Longrightarrow> \<not> shutting_down s \<Longrightarrow> length (workers s) < limit \<Longrightarrow>
    consume_order (po_queue s) = (Inl e, q) \<Longrightarrow> porter_step limit s (enter_select s)"
| Full: "po_phase s = Taking \<Longrightarrow> shutting_down s \<or> limit \<le> length (workers s) \<Longrightarrow>
    porter_step limit s (enter_select s)"
| Shutdown: "po_phase s = Selecting \<Longrightarrow> \<not> shutting_down s \<Longrightarrow> is_shutdown s \<Longrightarrow>
    porter_step limit s (next_round (s\<lparr>shutting_down := True\<rparr>))"
| Changed: "po_phase s = Selecting \<Longrightarrow> \<not> shutting_down s \<Longrightarrow> length (workers s) < limit \<Longrightarrow>
    order_version (po_queue s) \<noteq> seen s \<Longrightarrow>
    porter_step limit s (next_round (s\<lparr>seen := order_version (po_queue s)\<rparr>))"
| Joined: "po_phase s = Selecting \<Longrightarrow> p \<in> set (workers s) \<Longrightarrow>
    porter_step limit s (next_round (s\<lparr>workers := remove1 p (workers s)\<rparr>))"

text \<open>What the other tasks do meanwhile.\<close>

inductive other_step :: "porter_state \<Rightarrow> porter_state \<Rightarrow> bool" where
  Push: "other_step s (s\<lparr>po_queue := push_order p (po_queue s), owing := Suc (owing s)\<rparr>)"
| Notify: "owing s > 0 \<Longrightarrow>
    other_step s (s\<lparr>po_queue := notify_orders (po_queue s), owing := owing s - 1\<rparr>)"
| Wait: "other_step s (s\<lparr>po_queue := snd (register_waiter now u (po_queue s))\<rparr>)"
| Drop: "other_step s (s\<lparr>po_queue := unregister_waiter u (po_queue s)\<rparr>)"
| Answer: "other_step s (s\<lparr>po_queue := snd (produce_service p (po_queue s))\<rparr>)"
| Forget: "other_step s (s\<lparr>po_queue := snd (remove_order u (po_queue s))\<rparr>)"
| Clean: "other_step s (s\<lparr>po_queue := snd (expire_waiters now (po_queue s))\<rparr>)"
| Signal: "other_step s (s\<lparr>is_shutdown := True\<rparr>)"

definition any_step :: "nat \<Rightarrow> porter_state \<Rightarrow> porter_state \<Rightarrow> bool" where
  "any_step limit s s' \<longleftrightarrow> porter_step limit s s' \<or> other_step s s'"

text \<open>No wake-up is lost: while the loop sits in \<^verbatim>\<open>select!\<close> with a free slot, an order in the queue has been
  or is about to be announced.\<close>

definition awake :: "nat \<Rightarrow> porter_state \<Rightarrow> bool" where
  "awake limit s \<longleftrightarrow>
     subscribers (po_queue s) > 0 \<and> \<not> queue_poisoned (po_queue s) \<and>
     seen s \<le> order_version (po_queue s) \<and> length (workers s) \<le> limit \<and>
     (po_phase s = Selecting \<and> \<not> shutting_down s \<and> length (workers s) < limit \<longrightarrow>
        order_queue (po_queue s) = [] \<or> seen s < order_version (po_queue s) \<or> owing s > 0) \<and>
     (po_phase s = Selecting \<and> shutting_down s \<longrightarrow> workers s \<noteq> []) \<and>
     (po_phase s = Stopped \<longrightarrow> shutting_down s \<and> workers s = [])"

lemma queue_frame [simp]:
  "subscribers (push_order p q) = subscribers q" "queue_poisoned (push_order p q) = queue_poisoned q"
  "order_version (push_order p q) = order_version q"
  "subscribers (snd (register_waiter now u q)) = subscribers q"
  "queue_poisoned (snd (register_waiter now u q)) = queue_poisoned q"
  "order_version (snd (register_waiter now u q)) = order_version q"
  "order_queue (snd (register_waiter now u q)) = order_queue q"
  "subscribers (snd (produce_service p q)) = subscribers q"
  "queue_poisoned (snd (produce_service p q)) = queue_poisoned q"
  "order_version (snd (produce_service p q)) = order_version q"
  "order_queue (snd (produce_service p q)) = order_queue q"
  "subscribers (snd (expire_waiters now q)) = subscribers q"
  "queue_poisoned (snd (expire_waiters now q)) = queue_poisoned q"
  "order_version (snd (expire_waiters now q)) = order_version q"
  "order_queue (snd (expire_waiters now q)) = order_queue q"
  "subscribers (snd (remove_order u q)) = subscribers q"
  "queue_poisoned (snd (remove_order u q)) = queue_poisoned q"
  "order_version (snd (remove_order u q)) = order_version q"
  by (simp_all add: push_order_def register_waiter_def produce_service_def expire_waiters_def
      remove_order_def Let_def split: list.splits option.splits)

lemma other_step_awake: "other_step s s' \<Longrightarrow> awake limit s \<Longrightarrow> awake limit s'"
proof (induction rule: other_step.induct)
  case (Forget s u)
  then show ?case by (auto simp: awake_def remove_order_def Let_def)
qed (auto simp: awake_def notify_orders_def)

lemma porter_step_awake: "porter_step limit s s' \<Longrightarrow> awake limit s \<Longrightarrow> awake limit s'"
  by (induction rule: porter_step.induct)
     (auto simp: awake_def enter_select_def next_round_def consume_order_def length_remove1
       split: if_splits list.splits)

lemma any_step_awake: "(any_step limit)\<^sup>*\<^sup>* s s' \<Longrightarrow> awake limit s \<Longrightarrow> awake limit s'"
  by (induction rule: rtranclp_induct) (auto simp: any_step_def intro: other_step_awake porter_step_awake)

lemma porter_init_awake: "\<not> queue_poisoned q \<Longrightarrow> awake limit (porter_init q)"
  by (simp add: awake_def porter_init_def subscribe_orders_def)

text \<open>A loop that is running and not asked to stop, with an order waiting, takes the oldest order within
  four steps of its own.\<close>

definition running :: "porter_state \<Rightarrow> bool" where
  "running s \<longleftrightarrow> po_phase s \<noteq> Stopped \<and> \<not> shutting_down s \<and> \<not> is_shutdown s \<and> owing s = 0"

definition takes :: "nat \<Rightarrow> porter_state \<Rightarrow> package \<Rightarrow> package list \<Rightarrow> bool" where
  "takes limit s p ps \<longleftrightarrow> (\<exists>s'. (porter_step limit)\<^sup>*\<^sup>* s s' \<and> awake limit s' \<and> running s' \<and>
     order_queue (po_queue s') = ps \<and> p \<in> set (workers s'))"

lemma takes_step: "porter_step limit s s1 \<Longrightarrow> takes limit s1 p ps \<Longrightarrow> takes limit s p ps"
  unfolding takes_def by (blast intro: converse_rtranclp_into_rtranclp)

lemma running_round [simp]:
  "running (next_round (s\<lparr>seen := v\<rparr>)) = running (next_round s)"
  "running (next_round (s\<lparr>workers := ws\<rparr>)) = running (next_round s)"
  "running s \<Longrightarrow> running (next_round s)" "running s \<Longrightarrow> running (enter_select s)"
  "order_queue (po_queue (next_round s)) = order_queue (po_queue s)"
  "order_queue (po_queue (enter_select s)) = order_queue (po_queue s)"
  "po_phase (next_round s) = Taking" "workers (next_round s) = workers s"
  by (auto simp: running_def next_round_def enter_select_def)

lemma take_now:
  assumes "awake limit s" and "running s" and "order_queue (po_queue s) = p # ps"
    and "po_phase s = Taking" and "length (workers s) < limit"
  shows "takes limit s p ps"
proof -
  let ?s = "s\<lparr>po_queue := (po_queue s)\<lparr>order_queue := ps\<rparr>, workers := p # workers s\<rparr>"
  have "porter_step limit s ?s"
    using assms by (intro porter_step.Take) (auto simp: running_def consume_order_def awake_def)
  then show ?thesis
    using assms porter_step_awake [OF _ assms(1)]
    unfolding takes_def by (intro exI [of _ ?s]) (auto simp: running_def)
qed

lemma take_selecting:
  assumes awake: "awake limit s" and run: "running s" and q: "order_queue (po_queue s) = p # ps"
    and sel: "po_phase s = Selecting" and pos: "0 < limit"
  shows "takes limit s p ps"
proof (cases "length (workers s) < limit")
  case True
  let ?s = "next_round (s\<lparr>seen := order_version (po_queue s)\<rparr>)"
  have "order_version (po_queue s) \<noteq> seen s"
    using awake run q sel True by (auto simp: awake_def running_def)
  then have step: "porter_step limit s ?s"
    using run sel True by (intro porter_step.Changed) (auto simp: running_def)
  show ?thesis
    by (rule takes_step [OF step], rule take_now [OF porter_step_awake [OF step awake]])
       (use run q True in simp_all)
next
  case False
  then obtain r where r: "r \<in> set (workers s)" using pos by (cases "workers s") auto
  let ?s = "next_round (s\<lparr>workers := remove1 r (workers s)\<rparr>)"
  have step: "porter_step limit s ?s" using sel r by (rule porter_step.Joined)
  have "length (workers ?s) < limit"
    using r awake pos by (auto simp: length_remove1 awake_def)
  then show ?thesis
    by (intro takes_step [OF step] take_now [OF porter_step_awake [OF step awake]])
       (use run q in simp_all)
qed

lemma take_next:
  assumes awake: "awake limit s" and run: "running s" and q: "order_queue (po_queue s) = p # ps"
    and pos: "0 < limit"
  shows "takes limit s p ps"
proof (cases "po_phase s")
  case Taking
  show ?thesis
  proof (cases "length (workers s) < limit")
    case True
    with assms Taking show ?thesis by (intro take_now)
  next
    case False
    then have step: "porter_step limit s (enter_select s)" using Taking by (intro porter_step.Full) auto
    have "po_phase (enter_select s) = Selecting"
      using run by (simp add: enter_select_def running_def)
    then show ?thesis
      by (intro takes_step [OF step] take_selecting [OF porter_step_awake [OF step awake]])
         (use run q pos in simp_all)
  qed
next
  case Selecting
  with assms show ?thesis by (intro take_selecting)
next
  case Stopped
  with run show ?thesis by (simp add: running_def)
qed

lemma take_all:
  "awake limit s \<Longrightarrow> running s \<Longrightarrow> 0 < limit \<Longrightarrow>
   \<exists>s'. (porter_step limit)\<^sup>*\<^sup>* s s' \<and> order_queue (po_queue s') = []"
proof (induction "order_queue (po_queue s)" arbitrary: s)
  case Nil
  then show ?case by (metis rtranclp.rtrancl_refl)
next
  case (Cons p ps)
  then obtain s1 where "(porter_step limit)\<^sup>*\<^sup>* s s1" "awake limit s1" "running s1"
    "order_queue (po_queue s1) = ps"
    using take_next [of limit s p ps] unfolding takes_def by metis
  with Cons.hyps(1) [of s1] Cons.prems(3) show ?case by (meson rtranclp_trans)
qed

text \<open>Once the shutdown signal is given, the loop reaches its end.\<close>

definition stops :: "nat \<Rightarrow> porter_state \<Rightarrow> bool" where
  "stops limit s \<longleftrightarrow> (\<exists>s'. (porter_step limit)\<^sup>*\<^sup>* s s' \<and> po_phase s' = Stopped)"

lemma stops_step: "porter_step limit s s1 \<Longrightarrow> stops limit s1 \<Longrightarrow> stops limit s"
  unfolding stops_def by (blast intro: converse_rtranclp_into_rtranclp)

lemma stops_Stopped: "po_phase s = Stopped \<Longrightarrow> stops limit s"
  unfolding stops_def by blast

lemma stops_shutting: "shutting_down s \<Longrightarrow> po_phase s = Taking \<Longrightarrow> stops limit s"
proof (induction "length (workers s)" arbitrary: s)
  case 0
  then have "porter_step limit s (enter_select s)" by (intro porter_step.Full) auto
  then show ?case using 0 by (intro stops_step [OF _ stops_Stopped]) (auto simp: enter_select_def)
next
  case (Suc n)
  then obtain r where r: "r \<in> set (workers s)" by (cases "workers s") auto
  let ?e = "enter_select s"
  let ?j = "next_round (?e\<lparr>workers := remove1 r (workers ?e)\<rparr>)"
  have e: "porter_step limit s ?e" using Suc by (intro porter_step.Full) auto
  have j: "porter_step limit ?e ?j"
    using Suc r by (intro porter_step.Joined) (auto simp: enter_select_def)
  have "stops limit ?j"
    using Suc r by (intro Suc.hyps(1)) (auto simp: enter_select_def next_round_def length_remove1)
  then show ?case by (intro stops_step [OF e] stops_step [OF j])
qed

lemma stops_selecting:
  assumes "po_phase s = Selecting" and "\<not> shutting_down s" and "is_shutdown s"
  shows "stops limit s"
  by (rule stops_step [OF porter_step.Shutdown [OF assms] stops_shutting]) (simp_all add: next_round_def)

lemma stops_taking: "po_phase s = Taking \<Longrightarrow> is_shutdown s \<Longrightarrow> \<not> queue_poisoned (po_queue s) \<Longrightarrow> stops limit s"
proof (induction "order_queue (po_queue s)" arbitrary: s)
  case (Cons p ps)
  let ?s = "s\<lparr>po_queue := (po_queue s)\<lparr>order_queue := ps\<rparr>, workers := p # workers s\<rparr>"
  have "consume_order (po_queue s) = (Inr (Some p), (po_queue s)\<lparr>order_queue := ps\<rparr>)"
    using Cons.prems Cons.hyps(2) by (auto simp: consume_order_def split: list.splits)
  then have "porter_step limit s ?s" if "\<not> shutting_down s" "length (workers s) < limit"
    using Cons.prems that by (intro porter_step.Take) auto
  moreover have "stops limit ?s" using Cons.prems by (intro Cons.hyps(1)) auto
  moreover have "porter_step limit s (enter_select s)" if "limit \<le> length (workers s)"
    using Cons.prems that by (intro porter_step.Full) auto
  moreover have "stops limit (enter_select s)" if "\<not> shutting_down s"
    using Cons.prems that by (intro stops_selecting) (auto simp: enter_select_def)
  ultimately show ?case
    using stops_shutting [of s limit] Cons.prems stops_step by (metis not_less)
next
  case Nil
  have "stops limit (enter_select s)" if "\<not> shutting_down s"
    using Nil that by (intro stops_selecting) (auto simp: enter_select_def)
  moreover have "porter_step limit s (enter_select s)" if "\<not> shutting_down s"
  proof (cases "limit \<le> length (workers s)")
    case False
    have "consume_order (po_queue s) = (Inr None, po_queue s)"
      using Nil by (auto simp: consume_order_def)
    with False Nil that show ?thesis by (intro porter_step.Empty) auto
  qed (use Nil in \<open>auto intro: porter_step.Full\<close>)
  ultimately show ?case
    using stops_shutting [of s limit] Nil stops_step by metis
qed

lemma stops_shutdown:
  assumes "awake limit s" and "is_shutdown s"
  shows "stops limit s"
proof (cases "po_phase s")
  case Taking
  with assms show ?thesis by (intro stops_taking) (auto simp: awake_def)
next
  case Selecting
  show ?thesis
  proof (cases "shutting_down s")
    case True
    then obtain r where r: "r \<in> set (workers s)"
      using assms Selecting by (cases "workers s") (auto simp: awake_def)
    show ?thesis
      by (rule stops_step [OF porter_step.Joined [OF Selecting r] stops_shutting])
         (use True in \<open>simp_all add: next_round_def\<close>)
  qed (use assms Selecting in \<open>auto intro: stops_selecting\<close>)
qed (rule stops_Stopped)

lemma worker_executes:
  assumes "store_inv e w" and "convey_ok q" and "\<not> waiters_poisoned q"
    and "order_name (ct_identifier (pk_content pkg)) = Some n"
    and "pk_behavior pkg = PutFile \<Longrightarrow> admits e (snd (fresh_uuid e w)) (ct_data (pk_content pkg))"
    and "map_of (waiters q) (pk_uni_id pkg) = Some we"
  shows "\<exists>w' q' p. process_package e now pkg w q = (Inr (), w', q') \<and> store_inv e w' \<and>
    ((pk_status p, ct_data (pk_content p)), view e w') =
      order_spec (pk_behavior pkg) n (ct_data (pk_content pkg)) (view e w) \<and>
    chans q' ! we_sender we = Sent p \<and> pk_uni_id p = pk_uni_id pkg \<and>
    ct_identifier (pk_content p) = ct_identifier (pk_content pkg) \<and>
    map_of (waiters q') = (map_of (waiters q))(pk_uni_id pkg := None)"
proof -
  let ?w = "snd (fresh_uuid e w)"
  have w: "store_inv e ?w" "view e ?w = view e w"
    using store_inv_rng [OF assms(1)] by (simp_all add: fresh_uuid_def)
  obtain st d w' where x: "execute_order e pkg n ?w = ((st, d), w')" "store_inv e w'"
    "((st, d), view e w') = order_spec (pk_behavior pkg) n (ct_data (pk_content pkg)) (view e w)"
    using execute_order_spec [OF w(1) order_name_nonempty [OF assms(4)], of pkg] assms(5) w(2) by auto
  let ?f = "package_new (uuid_v4 e (rng w)) now"
  let ?p = "?f\<lparr>pk_uni_id := pk_uni_id pkg, pk_status := st, pk_content := (pk_content ?f)
      \<lparr>ct_identifier := ct_identifier (pk_content pkg), ct_flags := ct_flags (pk_content pkg), ct_data := d\<rparr>\<rparr>"
  obtain q' where "send_response ?p q = (Inr (), q')" "chans q' ! we_sender we = Sent ?p"
    "map_of (waiters q') = (map_of (waiters q))(pk_uni_id pkg := None)"
    using send_response_registered [OF assms(2,3), of ?p we] assms(6) by auto
  then show ?thesis
    using x assms(4)
    by (intro exI [of _ w'] exI [of _ q'] exI [of _ ?p]) (simp add: process_package_def Let_def)
qed

lemma process_package_queue:
  "convey_ok q \<Longrightarrow> convey_ok (snd (snd (process_package e now pkg w q)))"
  "order_queue (snd (snd (process_package e now pkg w q))) = order_queue q"
  "queue_poisoned (snd (snd (process_package e now pkg w q))) = queue_poisoned q"
  "waiters_poisoned (snd (snd (process_package e now pkg w q))) = waiters_poisoned q"
proof -
  have "\<exists>p. snd (snd (process_package e now pkg w q)) = snd (send_response p q)"
    by (cases "order_name (ct_identifier (pk_content pkg))")
       (simp add: process_package_def Let_def split_beta; blast)+
  then obtain p where "snd (snd (process_package e now pkg w q)) = snd (send_response p q)" by blast
  moreover have "snd (send_response p q) = snd (produce_service p q)"
    by (auto simp: send_response_def split: prod.splits sum.splits)
  moreover have "waiters_poisoned (snd (produce_service p q)) = waiters_poisoned q"
    by (simp add: produce_service_def split: option.splits)
  ultimately show "convey_ok q \<Longrightarrow> convey_ok (snd (snd (process_package e now pkg w q)))"
    "order_queue (snd (snd (process_package e now pkg w q))) = order_queue q"
    "queue_poisoned (snd (snd (process_package e now pkg w q))) = queue_poisoned q"
    "waiters_poisoned (snd (snd (process_package e now pkg w q))) = waiters_poisoned q"
    using produce_service_ok by simp_all
qed

section \<open>Properties\<close>

text \<open>C13: A worker that takes an order with a valid name executes it on the map of stored objects - write is
  update, read is lookup with FileNotFound for a missing name, delete is removal - and sends the
  status and the data on the channel of the request, whose registration it consumes.\<close>

theorem worker_refines_store:
  assumes "store_inv e w" and "convey_ok q" and "\<not> waiters_poisoned q"
    and "order_name (ct_identifier (pk_content pkg)) = Some n"
    and "pk_behavior pkg = PutFile \<Longrightarrow> admits e (snd (fresh_uuid e w)) (ct_data (pk_content pkg))"
    and "map_of (waiters q) (pk_uni_id pkg) = Some we"
  shows "\<exists>w' q' p. process_package e now pkg w q = (Inr (), w', q') \<and> store_inv e w' \<and>
    ((pk_status p, ct_data (pk_content p)), view e w') =
      order_spec (pk_behavior pkg) n (ct_data (pk_content pkg)) (view e w) \<and>
    chans q' ! we_sender we = Sent p \<and> pk_uni_id p = pk_uni_id pkg \<and>
    ct_identifier (pk_content p) = ct_identifier (pk_content pkg) \<and>
    map_of (waiters q') = (map_of (waiters q))(pk_uni_id pkg := None)"
  by (rule worker_executes [OF assms])

text \<open>A read order for \<open>a.txt\<close> whose front end waits on channel 0.\<close>

definition demo_read :: package where
  "demo_read = (package_new_with_id ''r1'' 0)\<lparr>pk_behavior := GetFile,
     pk_content := \<lparr>ct_flags = 0x40, ct_identifier = as_bytes ''a.txt'', ct_data = []\<rparr>\<rparr>"

definition demo_registered :: convey_queue where
  "demo_registered = snd (register_waiter 5 ''r1'' convey_queue_new)"

lemma demo_registered_ok:
  "convey_ok demo_registered" "\<not> waiters_poisoned demo_registered" "\<not> queue_poisoned demo_registered"
  "map_of (waiters demo_registered) ''r1'' = Some \<lparr>we_sender = 0, we_created_at = 5\<rparr>"
  "order_queue demo_registered = []"
proof -
  have "convey_ok convey_queue_new" using sys_init_ok by (simp add: sys_ok_def sys_init_def)
  then show "convey_ok demo_registered" by (simp add: demo_registered_def register_waiter_ok)
qed (simp_all add: demo_registered_def register_waiter_def convey_queue_new_def Let_def)

lemma demo_name: "order_name (as_bytes ''a.txt'') = Some ''a.txt''"
  by code_simp

theorem worker_refines_store_witness:
  "\<exists>w' q' p. process_package demo_env 0 demo_read (demo_store []) demo_registered = (Inr (), w', q') \<and>
     chans q' ! 0 = Sent p \<and> pk_status p = Success \<and> ct_data (pk_content p) = [1, 2, 3]"
  using worker_refines_store [of demo_env "demo_store []" demo_registered demo_read "''a.txt''"
      "\<lparr>we_sender = 0, we_created_at = 5\<rparr>" 0]
    demo_full_ok [of "[]"] demo_lawful demo_registered_ok demo_name
  by (fastforce simp: store_inv_def demo_read_def package_new_with_id_def demo_full_view)





text \<open>C16: A requested shutdown ends the loop: from every reachable state it can reach its end by finishing the
  running workers, and when it has ended no worker is running.\<close>

theorem porter_shutdown_terminates:
  assumes "(any_step limit)\<^sup>*\<^sup>* (porter_init q) s" and "\<not> queue_poisoned q" and "is_shutdown s"
  shows "\<exists>s'. (porter_step limit)\<^sup>*\<^sup>* s s' \<and> po_phase s' = Stopped \<and> workers s' = []"
proof -
  have awake: "awake limit s"
    using any_step_awake [OF assms(1)] porter_init_awake [OF assms(2)] by blast
  then obtain s' where "(porter_step limit)\<^sup>*\<^sup>* s s'" "po_phase s' = Stopped"
    using stops_shutdown [OF _ assms(3)] by (auto simp: stops_def)
  moreover from this(1) awake have "awake limit s'"
    by (induction rule: rtranclp_induct) (auto intro: porter_step_awake)
  ultimately show ?thesis by (auto simp: awake_def)
qed

theorem porter_shutdown_terminates_witness:
  "\<exists>s'. (porter_step 2)\<^sup>*\<^sup>* ((porter_init demo_registered)\<lparr>is_shutdown := True\<rparr>) s' \<and>
     po_phase s' = Stopped \<and> workers s' = []"
proof (rule porter_shutdown_terminates)
  show "(any_step 2)\<^sup>*\<^sup>* (porter_init demo_registered) ((porter_init demo_registered)\<lparr>is_shutdown := True\<rparr>)"
    using other_step.Signal unfolding any_step_def by blast
qed (simp_all add: demo_registered_ok)

end
