(* ===== verification/Lina_Auth.thy ===== *)
theory Lina_Auth
  imports Lina_Conveyer
begin

text \<open>
  Authentication, \<^verbatim>\<open>linastore-server/src/auth.rs\<close>, with the statements on its two tables from
  \<^verbatim>\<open>linastore-server/src/db/mod.rs\<close>: the password handshake, sessions and their expiry, and the rate
  limiter of the handshake.  Password hashing, the cipher and the token generator are third-party
  code and parameters of the model.
\<close>

section \<open>Tables and third-party code\<close>

record user_row =
  u_id :: string
  u_username :: string
  u_password_hash :: string
  u_created_at :: int
  u_updated_at :: int

record session_row =
  se_id :: string
  se_token :: string
  se_user_id :: string
  se_expires_at :: int
  se_created_at :: int

text \<open>\<open>db_faults\<close> is the script of failing statements, as in \<open>Lina_World\<close>; \<open>draws\<close> counts the random
  values drawn (identifiers and salts); \<open>unix_now\<close> is the system clock in seconds.\<close>

record auth_state =
  users :: "user_row list"
  sessions :: "session_row list"
  db_faults :: "bool list"
  draws :: nat
  unix_now :: nat

text \<open>\<open>argon_hash\<close> takes the salt's draw and may fail; \<open>argon_verify\<close> is the comparison of a password with a
  PHC string, false when the string does not parse.  \<open>aes_decrypt\<close> takes key, nonce and ciphertext.\<close>

record auth_env =
  argon_hash :: "nat \<Rightarrow> string \<Rightarrow> string option"
  argon_verify :: "string \<Rightarrow> string \<Rightarrow> bool"
  new_uuid :: "nat \<Rightarrow> string"
  sha256 :: "byte list \<Rightarrow> byte list"
  aes_decrypt :: "byte list \<Rightarrow> byte list \<Rightarrow> byte list \<Rightarrow> byte list option"

section \<open>Statements\<close>

type_synonym 'a stmt = "auth_state \<Rightarrow> 'a option \<times> auth_state"

definition db_call :: "'a stmt \<Rightarrow> 'a stmt" where
  "db_call m s =
     (case db_faults s of
        True # fs \<Rightarrow> (None, s\<lparr>db_faults := fs\<rparr>)
      | fs \<Rightarrow> m (s\<lparr>db_faults := tl fs\<rparr>))"

text \<open>\<open>stmt_then\<close> is the \<^verbatim>\<open>?\<close> operator; the errors carry nothing the code looks at.\<close>

definition stmt_ok :: "'a \<Rightarrow> 'a stmt" where
  "stmt_ok x s = (Some x, s)"

definition stmt_fail :: "'a stmt" where
  "stmt_fail s = (None, s)"

definition stmt_then :: "'a stmt \<Rightarrow> ('a \<Rightarrow> 'b stmt) \<Rightarrow> 'b stmt" where
  "stmt_then m f s = (case m s of (None, s') \<Rightarrow> (None, s') | (Some x, s') \<Rightarrow> f x s')"

definition draw_uuid :: "auth_env \<Rightarrow> string stmt" where
  "draw_uuid ae s = (Some (new_uuid ae (draws s)), s\<lparr>draws := Suc (draws s)\<rparr>)"

definition system_time :: "nat stmt" where
  "system_time s = (Some (unix_now s), s)"

definition auth_get_user_id_by_username :: "string \<Rightarrow> string option stmt" where
  "auth_get_user_id_by_username username =
     db_call (\<lambda>s. (Some (map_option u_id (find (\<lambda>u. u_username u = username) (users s))), s))"

text \<open>The inserts fail on a duplicate primary key or unique column, and on a dangling foreign key.\<close>

definition auth_insert_user :: "string \<Rightarrow> string \<Rightarrow> string \<Rightarrow> int \<Rightarrow> unit stmt" where
  "auth_insert_user user_id username password_hash now =
     db_call (\<lambda>s.
       if list_ex (\<lambda>u. u_id u = user_id \<or> u_username u = username) (users s) then (None, s)
       else (Some (), s\<lparr>users := users s @
         [\<lparr>u_id = user_id, u_username = username, u_password_hash = password_hash,
           u_created_at = now, u_updated_at = now\<rparr>]\<rparr>))"

definition auth_insert_session :: "string \<Rightarrow> string \<Rightarrow> string \<Rightarrow> int \<Rightarrow> int \<Rightarrow> unit stmt" where
  "auth_insert_session session_id token user_id expires_at created_at =
     db_call (\<lambda>s.
       if list_ex (\<lambda>r. se_id r = session_id \<or> se_token r = token) (sessions s) \<or>
          \<not> list_ex (\<lambda>u. u_id u = user_id) (users s)
       then (None, s)
       else (Some (), s\<lparr>sessions := sessions s @
         [\<lparr>se_id = session_id, se_token = token, se_user_id = user_id,
           se_expires_at = expires_at, se_created_at = created_at\<rparr>]\<rparr>))"

definition auth_get_user_id_by_token :: "string \<Rightarrow> int \<Rightarrow> string option stmt" where
  "auth_get_user_id_by_token token now =
     db_call (\<lambda>s. (Some (map_option se_user_id
       (find (\<lambda>r. se_token r = token \<and> se_expires_at r > now) (sessions s))), s))"

definition auth_delete_expired_sessions :: "int \<Rightarrow> nat stmt" where
  "auth_delete_expired_sessions now =
     db_call (\<lambda>s. let kept = filter (\<lambda>r. \<not> se_expires_at r < now) (sessions s) in
       (Some (length (sessions s) - length kept), s\<lparr>sessions := kept\<rparr>))"

section \<open>Cipher and fields\<close>

definition NONCE_SIZE :: nat where
  "NONCE_SIZE = 12"

definition decrypt_with_token :: "auth_env \<Rightarrow> string \<Rightarrow> byte list \<Rightarrow> string + byte list" where
  "decrypt_with_token ae token encrypted_data =
     (let key = sha256 ae (as_bytes token) in
      if length encrypted_data < NONCE_SIZE then Inl ''Encrypted data is too short''
      else case aes_decrypt ae key (take NONCE_SIZE encrypted_data) (drop NONCE_SIZE encrypted_data) of
             None \<Rightarrow> Inl ''Decryption failed: aead::Error''
           | Some d \<Rightarrow> Inr d)"

definition extract_username :: "byte list \<Rightarrow> string" where
  "extract_username idn = from_utf8_lossy (until_nul idn)"

definition extract_password :: "byte list \<Rightarrow> string" where
  "extract_password data = from_utf8_lossy (until_nul data)"

section \<open>Sessions and the handshake\<close>

datatype handshake_status = HsSuccess | HsInvalidPassword | HsAuthDisabled | HsInternalError

fun handshake_code :: "handshake_status \<Rightarrow> byte" where
  "handshake_code HsSuccess = 0"
| "handshake_code HsInvalidPassword = 1"
| "handshake_code HsAuthDisabled = 2"
| "handshake_code HsInternalError = 127"

record session =
  token :: string
  user_id :: string
  expires_at_timestamp :: nat

definition session_new :: "string \<Rightarrow> string \<Rightarrow> nat \<Rightarrow> session" where
  "session_new tok uid now = \<lparr>token = tok, user_id = uid, expires_at_timestamp = now + 3600\<rparr>"

record auth_manager =
  has_db :: bool
  auth_required :: bool
  password_phc :: "string option"

definition hash_password_argon2 :: "auth_env \<Rightarrow> string \<Rightarrow> string stmt" where
  "hash_password_argon2 ae password s =
     (argon_hash ae (draws s) password, s\<lparr>draws := Suc (draws s)\<rparr>)"

definition auth_manager_new ::
  "auth_env \<Rightarrow> bool \<Rightarrow> string option \<Rightarrow> bool \<Rightarrow> auth_state \<Rightarrow> auth_manager \<times> auth_state" where
  "auth_manager_new ae required admin_password db s =
     (let (phc, s') =
        (if required
         then (case admin_password of
                 Some pw \<Rightarrow> if pw \<noteq> [] then hash_password_argon2 ae pw s else (None, s)
               | None \<Rightarrow> (None, s))
         else (None, s))
      in (\<lparr>has_db = db, auth_required = required, password_phc = phc\<rparr>, s'))"

definition is_password_enabled :: "auth_manager \<Rightarrow> bool" where
  "is_password_enabled am = auth_required am"

definition verify_password :: "auth_env \<Rightarrow> auth_manager \<Rightarrow> string \<Rightarrow> bool" where
  "verify_password ae am password =
     (case password_phc am of Some phc \<Rightarrow> argon_verify ae password phc | None \<Rightarrow> False)"

definition create_session :: "auth_env \<Rightarrow> auth_manager \<Rightarrow> string \<Rightarrow> session stmt" where
  "create_session ae am uid =
     stmt_then (draw_uuid ae) (\<lambda>tok.
     stmt_then system_time (\<lambda>t.
     let sess = session_new tok uid t in
     if has_db am
     then
       stmt_then system_time (\<lambda>now.
       stmt_then (draw_uuid ae) (\<lambda>sid.
       stmt_then
         (auth_insert_session sid (token sess) (user_id sess) (int (expires_at_timestamp sess)) (int now))
         (\<lambda>_. stmt_ok sess)))
     else stmt_ok sess))"

definition validate_session :: "auth_manager \<Rightarrow> string \<Rightarrow> int \<Rightarrow> auth_state \<Rightarrow> string option \<times> auth_state" where
  "validate_session am tok grace_period_seconds s =
     (if \<not> auth_required am then (Some ''anonymous'', s)
      else if has_db am
      then (case auth_get_user_id_by_token tok (int (unix_now s) + grace_period_seconds) s of
              (Some uid, s') \<Rightarrow> (uid, s')
            | (None, s') \<Rightarrow> (None, s'))
      else (None, s))"

definition cleanup_expired_sessions :: "auth_manager \<Rightarrow> auth_state \<Rightarrow> auth_state" where
  "cleanup_expired_sessions am s =
     (if has_db am then snd (auth_delete_expired_sessions (int (unix_now s)) s) else s)"

text \<open>The user of a handshake: looked up by name, created when missing.\<close>

definition handshake_user :: "auth_env \<Rightarrow> string \<Rightarrow> string \<Rightarrow> string stmt" where
  "handshake_user ae username password =
     stmt_then system_time (\<lambda>now.
     stmt_then (auth_get_user_id_by_username username) (\<lambda>found.
     case found of
       Some uid \<Rightarrow> stmt_ok uid
     | None \<Rightarrow>
         stmt_then (draw_uuid ae) (\<lambda>uid.
         stmt_then (hash_password_argon2 ae password) (\<lambda>user_phc.
         stmt_then (auth_insert_user uid username user_phc (int now)) (\<lambda>_.
         stmt_ok uid)))))"

definition handshake_session :: "auth_env \<Rightarrow> auth_manager \<Rightarrow> string \<Rightarrow> string \<Rightarrow> session stmt" where
  "handshake_session ae am username password =
     stmt_then (if has_db am then handshake_user ae username password else stmt_ok username)
       (create_session ae am)"

definition handle_handshake ::
  "auth_env \<Rightarrow> auth_manager \<Rightarrow> string \<Rightarrow> string \<Rightarrow> auth_state \<Rightarrow>
   (handshake_status + string \<times> nat) \<times> auth_state" where
  "handle_handshake ae am username password s =
     (if \<not> is_password_enabled am then (Inl HsAuthDisabled, s)
      else if verify_password ae am password
      then
        (case handshake_session ae am username password s of
           (None, s') \<Rightarrow> (Inl HsInternalError, s')
         | (Some sess, s') \<Rightarrow> (Inr (token sess, expires_at_timestamp sess), s'))
      else (Inl HsInvalidPassword, s))"

definition init_admin_user :: "auth_env \<Rightarrow> bool \<Rightarrow> string \<Rightarrow> string option \<Rightarrow> unit stmt" where
  "init_admin_user ae required admin_username admin_password =
     (if \<not> required then stmt_ok ()
      else case admin_password of
        None \<Rightarrow> stmt_fail
      | Some pw \<Rightarrow>
          stmt_then (auth_get_user_id_by_username admin_username) (\<lambda>found.
          case found of
            Some _ \<Rightarrow> stmt_ok ()
          | None \<Rightarrow>
              stmt_then (hash_password_argon2 ae pw) (\<lambda>phc.
              stmt_then (draw_uuid ae) (\<lambda>uid.
              stmt_then system_time (\<lambda>now.
              auth_insert_user uid admin_username phc (int now))))))"

section \<open>Rate limiter\<close>

type_synonym ip_addr = string

record rate_limiter =
  rl_window :: nat
  max_failures :: u32
  gc_threshold :: nat
  rl_state :: "(ip_addr, instant list) hmap"
  rl_poisoned :: bool

definition rate_limiter_with_gc_threshold :: "nat \<Rightarrow> u32 \<Rightarrow> nat \<Rightarrow> rate_limiter" where
  "rate_limiter_with_gc_threshold win mx gc =
     \<lparr>rl_window = win, max_failures = mx, gc_threshold = gc, rl_state = [], rl_poisoned = False\<rparr>"

definition rate_limiter_new :: "nat \<Rightarrow> u32 \<Rightarrow> rate_limiter" where
  "rate_limiter_new win mx = rate_limiter_with_gc_threshold win mx 1024"

definition handshake_rate_limiter :: rate_limiter where
  "handshake_rate_limiter = rate_limiter_new (secs 60) 5"

text \<open>A poisoned mutex lets every attempt through.  \<open>retain_live\<close> is the \<^verbatim>\<open>retain\<close> on the failures of one address.\<close>

definition retain_live :: "nat \<Rightarrow> instant \<Rightarrow> instant list \<Rightarrow> instant list" where
  "retain_live win now ts = filter (\<lambda>t. now - t < win) ts"

definition rl_check :: "instant \<Rightarrow> ip_addr \<Rightarrow> rate_limiter \<Rightarrow> bool \<times> rate_limiter" where
  "rl_check now ip rl =
     (if rl_poisoned rl then (True, rl)
      else case map_of (rl_state rl) ip of
        None \<Rightarrow> (True, rl)
      | Some ts \<Rightarrow>
          (let ts' = retain_live (rl_window rl) now ts in
           (word_of_nat (length ts') < max_failures rl,
            rl\<lparr>rl_state := hm_insert ip ts' (rl_state rl)\<rparr>)))"

definition rl_record_failure :: "instant \<Rightarrow> ip_addr \<Rightarrow> rate_limiter \<Rightarrow> rate_limiter" where
  "rl_record_failure now ip rl =
     (if rl_poisoned rl then rl
      else let ts = (case map_of (rl_state rl) ip of None \<Rightarrow> [] | Some ts \<Rightarrow> ts);
          st = hm_insert ip (retain_live (rl_window rl) now ts @ [now]) (rl_state rl);
          st' = (if length st > gc_threshold rl
                 then filter (\<lambda>e. snd e \<noteq> [])
                        (map (\<lambda>e. (fst e, retain_live (rl_window rl) now (snd e))) st)
                 else st)
      in rl\<lparr>rl_state := st'\<rparr>)"

definition rl_record_success :: "ip_addr \<Rightarrow> rate_limiter \<Rightarrow> rate_limiter" where
  "rl_record_success ip rl =
     (if rl_poisoned rl then rl else rl\<lparr>rl_state := hm_remove ip (rl_state rl)\<rparr>)"

section \<open>The rate limiter against its reference\<close>

datatype rl_event = Failed instant ip_addr | Succeeded ip_addr | Checked instant ip_addr

fun rl_step :: "rl_event \<Rightarrow> rate_limiter \<Rightarrow> rate_limiter" where
  "rl_step (Failed t ip) rl = rl_record_failure t ip rl"
| "rl_step (Succeeded ip) rl = rl_record_success ip rl"
| "rl_step (Checked t ip) rl = snd (rl_check t ip rl)"

text \<open>The reference remembers every failure since the last success and never forgets one.\<close>

fun failures_step :: "ip_addr \<Rightarrow> rl_event \<Rightarrow> instant list \<Rightarrow> instant list" where
  "failures_step ip (Failed t ip') ts = (if ip' = ip then ts @ [t] else ts)"
| "failures_step ip (Succeeded ip') ts = (if ip' = ip then [] else ts)"
| "failures_step ip (Checked t ip') ts = ts"

text \<open>The clock does not run backwards.\<close>

fun timely :: "instant \<Rightarrow> rl_event list \<Rightarrow> instant \<Rightarrow> bool" where
  "timely n [] n' = (n \<le> n')"
| "timely n (Failed t ip # es) n' = (n \<le> t \<and> timely t es n')"
| "timely n (Checked t ip # es) n' = (n \<le> t \<and> timely t es n')"
| "timely n (Succeeded ip # es) n' = timely n es n'"

definition entries_of :: "rate_limiter \<Rightarrow> ip_addr \<Rightarrow> instant list" where
  "entries_of rl ip = (case map_of (rl_state rl) ip of None \<Rightarrow> [] | Some ts \<Rightarrow> ts)"

lemma retain_live_twice:
  "m \<le> n \<Longrightarrow> retain_live win n (retain_live win m ts) = retain_live win n ts"
  unfolding retain_live_def filter_filter by (rule filter_cong) auto

lemma retain_live_append: "retain_live win n (a @ b) = retain_live win n a @ retain_live win n b"
  by (simp add: retain_live_def)

lemma hm_ok_map: "hm_ok (map (\<lambda>e. (fst e, f (snd e))) m) = hm_ok m"
  by (simp add: hm_ok_def comp_def)

lemma map_of_map_snd: "map_of (map (\<lambda>e. (fst e, f (snd e))) m) k = map_option f (map_of m k)"
  by (induction m) auto

definition rl_sim :: "instant \<Rightarrow> rate_limiter \<Rightarrow> (ip_addr \<Rightarrow> instant list) \<Rightarrow> bool" where
  "rl_sim n rl h \<longleftrightarrow> hm_ok (rl_state rl) \<and> \<not> rl_poisoned rl \<and>
     (\<forall>ip n'. n \<le> n' \<longrightarrow>
        retain_live (rl_window rl) n' (entries_of rl ip) = retain_live (rl_window rl) n' (h ip))"

lemma rl_params [simp]:
  "rl_window (rl_step ev rl) = rl_window rl" "max_failures (rl_step ev rl) = max_failures rl"
  by (cases ev; auto simp: rl_record_failure_def rl_record_success_def rl_check_def Let_def
      split: option.splits)+

lemma rl_record_failure_entries:
  assumes "hm_ok (rl_state rl)" and "\<not> rl_poisoned rl"
  shows "hm_ok (rl_state (rl_record_failure t ip rl)) \<and> \<not> rl_poisoned (rl_record_failure t ip rl) \<and>
    (\<forall>ip' n. t \<le> n \<longrightarrow>
       retain_live (rl_window rl) n (entries_of (rl_record_failure t ip rl) ip') =
       retain_live (rl_window rl) n (if ip' = ip then entries_of rl ip @ [t] else entries_of rl ip'))"
proof -
  let ?w = "rl_window rl"
  let ?st = "hm_insert ip (retain_live ?w t (entries_of rl ip) @ [t]) (rl_state rl)"
  let ?gc = "filter (\<lambda>e. snd e \<noteq> []) (map (\<lambda>e. (fst e, retain_live ?w t (snd e))) ?st)"
  have step: "rl_record_failure t ip rl = rl\<lparr>rl_state := if length ?st > gc_threshold rl then ?gc else ?st\<rparr>"
    using assms(2) by (simp add: rl_record_failure_def Let_def entries_of_def)
  have ok: "hm_ok ?st" "hm_ok ?gc"
    using assms(1) by (simp_all add: hm_ok_filter hm_ok_map)
  have e1: "entries_of (rl\<lparr>rl_state := ?st\<rparr>) ip' =
      (if ip' = ip then retain_live ?w t (entries_of rl ip) @ [t] else entries_of rl ip')" for ip'
    by (simp add: entries_of_def)
  have e2: "entries_of (rl\<lparr>rl_state := ?gc\<rparr>) ip' = retain_live ?w t (entries_of (rl\<lparr>rl_state := ?st\<rparr>) ip')" for ip'
    using hm_ok_map [of "retain_live ?w t" ?st] ok(1)
    by (simp add: entries_of_def map_of_filter map_of_map_snd retain_live_def split: option.splits)
  have "retain_live ?w n (entries_of (rl\<lparr>rl_state := ?st\<rparr>) ip') =
      retain_live ?w n (if ip' = ip then entries_of rl ip @ [t] else entries_of rl ip')" if "t \<le> n" for ip' n
    using that by (simp add: e1 retain_live_append retain_live_twice)
  moreover from this have "retain_live ?w n (entries_of (rl\<lparr>rl_state := ?gc\<rparr>) ip') =
      retain_live ?w n (if ip' = ip then entries_of rl ip @ [t] else entries_of rl ip')" if "t \<le> n" for ip' n
    using that by (simp add: e2 retain_live_twice)
  ultimately show ?thesis using ok assms(2) unfolding step by simp
qed

lemma rl_sim_weaken: "rl_sim n rl h \<Longrightarrow> n \<le> m \<Longrightarrow> rl_sim m rl h"
  unfolding rl_sim_def by (meson le_trans)

lemma rl_sim_failed:
  assumes "rl_sim n rl h" and "n \<le> t"
  shows "rl_sim t (rl_record_failure t ip rl) (\<lambda>ip'. failures_step ip' (Failed t ip) (h ip'))"
proof -
  have w: "rl_window (rl_record_failure t ip rl) = rl_window rl"
    using rl_params(1) [of "Failed t ip" rl] by simp
  have h: "retain_live (rl_window rl) n' (entries_of rl ip') = retain_live (rl_window rl) n' (h ip')"
    if "t \<le> n'" for n' ip'
    using assms that unfolding rl_sim_def by (meson le_trans)
  show ?thesis
    using rl_record_failure_entries [of rl t ip] assms(1) h
    by (auto simp: rl_sim_def w retain_live_append)
qed

lemma rl_sim_checked:
  assumes "rl_sim n rl h" and "n \<le> t"
  shows "rl_sim t (snd (rl_check t ip rl)) h"
proof (cases "map_of (rl_state rl) ip")
  case None
  then show ?thesis using rl_sim_weaken [OF assms] by (simp add: rl_check_def)
next
  case (Some ts)
  have e: "entries_of (snd (rl_check t ip rl)) ip' =
      (if ip' = ip then retain_live (rl_window rl) t (entries_of rl ip) else entries_of rl ip')" for ip'
    using Some assms(1) by (simp add: rl_check_def entries_of_def Let_def rl_sim_def)
  have h: "retain_live (rl_window rl) n' (entries_of rl ip') = retain_live (rl_window rl) n' (h ip')"
    if "t \<le> n'" for n' ip'
    using assms that unfolding rl_sim_def by (meson le_trans)
  show ?thesis
    using Some assms(1) h unfolding rl_sim_def e
    by (auto simp: rl_check_def Let_def retain_live_twice)
qed

lemma rl_sim_succeeded:
  "rl_sim n rl h \<Longrightarrow> rl_sim n (rl_record_success ip rl) (\<lambda>ip'. failures_step ip' (Succeeded ip) (h ip'))"
  by (auto simp: rl_sim_def rl_record_success_def entries_of_def)

lemma rl_sim_run:
  "rl_sim n rl h \<Longrightarrow> timely n es m \<Longrightarrow>
   rl_sim m (fold rl_step es rl) (\<lambda>ip. fold (failures_step ip) es (h ip))"
proof (induction n es m arbitrary: rl h rule: timely.induct)
  case (1 n m)
  then show ?case using rl_sim_weaken by simp
next
  case (2 n t ip es m)
  then show ?case using rl_sim_failed [of n rl h t ip] by simp
next
  case (3 n t ip es m)
  then show ?case using rl_sim_checked [of n rl h t ip] by simp
next
  case (4 n ip es m)
  then show ?case using rl_sim_succeeded [of n rl h ip] by simp
qed

lemma rl_sim_check:
  assumes "rl_sim n rl h" and "length (h ip) < 2 ^ 32" and "max_failures rl > 0"
  shows "fst (rl_check n ip rl) \<longleftrightarrow>
    length (retain_live (rl_window rl) n (h ip)) < unat (max_failures rl)"
proof -
  have h: "retain_live (rl_window rl) n (h ip) = retain_live (rl_window rl) n (entries_of rl ip)"
    using assms(1) by (auto simp: rl_sim_def)
  have "length (retain_live (rl_window rl) n (h ip)) < 2 ^ 32"
    using le_less_trans [OF length_filter_le assms(2), of "\<lambda>t. n - t < rl_window rl"]
    by (simp add: retain_live_def)
  then show ?thesis
    using assms(1,3) h
    by (cases "map_of (rl_state rl) ip")
       (auto simp: rl_check_def rl_sim_def entries_of_def Let_def word_less_nat_alt unat_of_nat
         retain_live_def unat_gt_0)
qed

section \<open>Well-formed tables\<close>

text \<open>What the schema promises: keys and unique columns, and every session belongs to a user.\<close>

definition auth_ok :: "auth_state \<Rightarrow> bool" where
  "auth_ok s \<longleftrightarrow> distinct (map u_id (users s)) \<and> distinct (map u_username (users s)) \<and>
     distinct (map se_id (sessions s)) \<and> distinct (map se_token (sessions s)) \<and>
     se_user_id ` set (sessions s) \<subseteq> u_id ` set (users s)"

lemma auth_ok_updates [simp]:
  "auth_ok (s\<lparr>db_faults := a\<rparr>) = auth_ok s" "auth_ok (s\<lparr>draws := b\<rparr>) = auth_ok s"
  "auth_ok (s\<lparr>unix_now := c\<rparr>) = auth_ok s"
  by (simp_all add: auth_ok_def)

text \<open>\<open>holds P m\<close>: whatever statements fail, \<open>m\<close> keeps \<open>P\<close>.\<close>

definition holds :: "(auth_state \<Rightarrow> bool) \<Rightarrow> 'a stmt \<Rightarrow> bool" where
  "holds P m \<longleftrightarrow> (\<forall>s. P s \<longrightarrow> P (snd (m s)))"

lemma holdsD: "holds P m \<Longrightarrow> P s \<Longrightarrow> P (snd (m s))"
  by (simp add: holds_def)

lemma holds_stmt [intro]: "holds P (stmt_ok x)" "holds P stmt_fail" "holds P system_time"
  by (simp_all add: holds_def stmt_ok_def stmt_fail_def system_time_def)

lemma holds_then [intro]:
  "holds P m \<Longrightarrow> (\<And>x. holds P (f x)) \<Longrightarrow> holds P (stmt_then m f)"
  by (fastforce simp: holds_def stmt_then_def split: prod.splits option.splits)

lemma holds_db_call:
  "(\<And>s fs. P s \<Longrightarrow> P (s\<lparr>db_faults := fs\<rparr>)) \<Longrightarrow> holds P m \<Longrightarrow> holds P (db_call m)"
  by (auto simp: holds_def db_call_def split: list.splits bool.splits)

lemma holds_draws [intro]:
  "(\<And>s n. P s \<Longrightarrow> P (s\<lparr>draws := n\<rparr>)) \<Longrightarrow> holds P (draw_uuid ae)"
  "(\<And>s n. P s \<Longrightarrow> P (s\<lparr>draws := n\<rparr>)) \<Longrightarrow> holds P (hash_password_argon2 ae pw)"
  by (simp_all add: holds_def draw_uuid_def hash_password_argon2_def)

lemma auth_ok_stmts [intro]:
  "holds auth_ok (auth_get_user_id_by_username n)" "holds auth_ok (auth_insert_user i n h t)"
  "holds auth_ok (auth_insert_session i tk u x c)" "holds auth_ok (auth_get_user_id_by_token tk t)"
  "holds auth_ok (auth_delete_expired_sessions t)"
  unfolding auth_get_user_id_by_username_def auth_insert_user_def auth_insert_session_def
    auth_get_user_id_by_token_def auth_delete_expired_sessions_def
  by (rule holds_db_call; auto simp: holds_def auth_ok_def list_ex_iff distinct_map_filter Let_def)+

lemma auth_ok_draws [intro]: "holds auth_ok (draw_uuid ae)" "holds auth_ok (hash_password_argon2 ae pw)"
  by (intro holds_draws; simp)+

lemma create_session_ok [intro]: "holds auth_ok (create_session ae am u)"
  by (auto simp: create_session_def Let_def intro!: holds_then)

lemma handshake_user_ok [intro]: "holds auth_ok (handshake_user ae n pw)"
  unfolding handshake_user_def by (intro holds_then) (auto split: option.split)

lemma init_admin_user_ok: "holds auth_ok (init_admin_user ae req n pw)"
  unfolding init_admin_user_def by (auto split: option.split intro!: holds_then)

lemma handshake_session_ok [intro]: "holds auth_ok (handshake_session ae am n pw)"
  unfolding handshake_session_def by (intro holds_then) auto

lemma handle_handshake_ok: "auth_ok s \<Longrightarrow> auth_ok (snd (handle_handshake ae am n pw s))"
  using holdsD [OF handshake_session_ok, of s ae am n pw]
  by (auto simp: handle_handshake_def split: prod.splits option.splits)

lemma validate_session_ok: "auth_ok s \<Longrightarrow> auth_ok (snd (validate_session am tok g s))"
  using holdsD [OF auth_ok_stmts(4), of s tok]
  by (auto simp: validate_session_def split: prod.splits option.splits) (metis snd_conv)+

lemma cleanup_ok: "auth_ok s \<Longrightarrow> auth_ok (cleanup_expired_sessions am s)"
  using holdsD [OF auth_ok_stmts(5)] by (simp add: cleanup_expired_sessions_def)

section \<open>Runs of the authentication service\<close>

text \<open>\<open>auth_run ae am s I\<close>: the service got to state \<open>s\<close> from empty tables, and \<open>I\<close> lists the successful
  handshakes, each with the password it presented and the token it returned.\<close>

inductive auth_run :: "auth_env \<Rightarrow> auth_manager \<Rightarrow> auth_state \<Rightarrow> (string \<times> string) list \<Rightarrow> bool"
  for ae am where
  Start: "users s = [] \<Longrightarrow> sessions s = [] \<Longrightarrow> auth_run ae am s []"
| Admin: "auth_run ae am s I \<Longrightarrow> auth_run ae am (snd (init_admin_user ae req n pw s)) I"
| Granted: "auth_run ae am s I \<Longrightarrow> handle_handshake ae am n pw s = (Inr (tok, x), s') \<Longrightarrow>
    auth_run ae am s' ((pw, tok) # I)"
| Denied: "auth_run ae am s I \<Longrightarrow> handle_handshake ae am n pw s = (Inl h, s') \<Longrightarrow> auth_run ae am s' I"
| Validated: "auth_run ae am s I \<Longrightarrow> auth_run ae am (snd (validate_session am tok g s)) I"
| Cleaned: "auth_run ae am s I \<Longrightarrow> auth_run ae am (cleanup_expired_sessions am s) I"
| Tick: "auth_run ae am s I \<Longrightarrow> unix_now s \<le> t \<Longrightarrow> auth_run ae am (s\<lparr>unix_now := t\<rparr>) I"

lemma auth_run_ok: "auth_run ae am s I \<Longrightarrow> auth_ok s"
proof (induction rule: auth_run.induct)
  case (Granted s I n pw tok x s')
  then show ?case using handle_handshake_ok [of s ae am n pw] by simp
next
  case (Denied s I n pw h s')
  then show ?case using handle_handshake_ok [of s ae am n pw] by simp
next
  case (Start s)
  then show ?case by (simp add: auth_ok_def)
next
  case (Admin s I req n pw)
  then show ?case using holdsD [OF init_admin_user_ok] by blast
qed (simp_all add: validate_session_ok cleanup_ok)

text \<open>Every token in the table was returned by a handshake with a verified password.\<close>

definition tokens :: "auth_state \<Rightarrow> string set" where
  "tokens s = se_token ` set (sessions s)"

lemma tokens_updates [simp]:
  "tokens (s\<lparr>db_faults := a\<rparr>) = tokens s" "tokens (s\<lparr>draws := b\<rparr>) = tokens s"
  "tokens (s\<lparr>unix_now := c\<rparr>) = tokens s" "tokens (s\<lparr>users := d\<rparr>) = tokens s"
  by (simp_all add: tokens_def)

lemma tokens_stmts [intro]:
  "holds (\<lambda>s. tokens s \<subseteq> T) (auth_get_user_id_by_username n)"
  "holds (\<lambda>s. tokens s \<subseteq> T) (auth_insert_user i n h t)"
  "holds (\<lambda>s. tokens s \<subseteq> T) (auth_get_user_id_by_token tk t)"
  "holds (\<lambda>s. tokens s \<subseteq> T) (auth_delete_expired_sessions t)"
  unfolding auth_get_user_id_by_username_def auth_insert_user_def auth_get_user_id_by_token_def
    auth_delete_expired_sessions_def
  by (rule holds_db_call; auto simp: holds_def Let_def; auto simp: tokens_def)+

lemma tokens_draws [intro]:
  "holds (\<lambda>s. tokens s \<subseteq> T) (draw_uuid ae)" "holds (\<lambda>s. tokens s \<subseteq> T) (hash_password_argon2 ae pw)"
  by (intro holds_draws; simp)+

lemma tokens_handshake_user: "holds (\<lambda>s. tokens s \<subseteq> T) (handshake_user ae n pw)"
  unfolding handshake_user_def by (intro holds_then) (auto split: option.split)

lemma tokens_init_admin: "holds (\<lambda>s. tokens s \<subseteq> T) (init_admin_user ae req n pw)"
  unfolding init_admin_user_def by (auto split: option.split intro!: holds_then)

lemma tokens_insert_session:
  "auth_insert_session i tk u x c s = (r, s') \<Longrightarrow>
   tokens s' \<subseteq> tokens s \<union> (case r of None \<Rightarrow> {} | Some _ \<Rightarrow> {tk})"
  by (auto simp: auth_insert_session_def db_call_def tokens_def split: list.splits bool.splits if_splits)

lemma tokens_create_session:
  assumes "create_session ae am u s = (r, s')"
  shows "tokens s' \<subseteq> tokens s \<union> (case r of None \<Rightarrow> {} | Some sess \<Rightarrow> {token sess})"
proof -
  let ?s = "s\<lparr>draws := Suc (Suc (draws s))\<rparr>"
  let ?sess = "session_new (new_uuid ae (draws s)) u (unix_now s)"
  obtain r0 s0 where i: "auth_insert_session (new_uuid ae (Suc (draws s))) (token ?sess) (user_id ?sess)
      (int (expires_at_timestamp ?sess)) (int (unix_now s)) ?s = (r0, s0)"
    by fastforce
  show ?thesis
  proof (cases "has_db am")
    case True
    then have "(r, s') = (map_option (\<lambda>_. ?sess) r0, s0)"
      using assms i
      by (auto simp: create_session_def stmt_then_def draw_uuid_def system_time_def stmt_ok_def Let_def
          split: option.splits)
    with tokens_insert_session [OF i] show ?thesis by (cases r0) auto
  next
    case False
    then show ?thesis
      using assms by (auto simp: create_session_def stmt_then_def draw_uuid_def system_time_def stmt_ok_def Let_def)
  qed
qed

lemma tokens_handshake:
  assumes "handle_handshake ae am n pw s = (r, s')"
  shows "tokens s' \<subseteq> tokens s \<union> (case r of Inl _ \<Rightarrow> {} | Inr (tok, _) \<Rightarrow> {tok})"
    and "r = Inr x \<Longrightarrow> verify_password ae am pw"
proof -
  show "r = Inr x \<Longrightarrow> verify_password ae am pw"
    using assms by (auto simp: handle_handshake_def split: if_splits)
  let ?m = "if has_db am then handshake_user ae n pw else stmt_ok n"
  obtain ru s1 where u: "?m s = (ru, s1)" by fastforce
  have "holds (\<lambda>s'. tokens s' \<subseteq> tokens s) ?m" using tokens_handshake_user by auto
  then have s1: "tokens s1 \<subseteq> tokens s" using u by (auto simp: holds_def dest!: spec [of _ s])
  show "tokens s' \<subseteq> tokens s \<union> (case r of Inl _ \<Rightarrow> {} | Inr (tok, _) \<Rightarrow> {tok})"
  proof (cases "is_password_enabled am \<and> verify_password ae am pw")
    case False
    then show ?thesis using assms by (auto simp: handle_handshake_def split: if_splits)
  next
    case True
    show ?thesis
    proof (cases ru)
      case None
      then show ?thesis
        using True assms u s1 by (auto simp: handle_handshake_def handshake_session_def stmt_then_def)
    next
      case (Some uid)
      obtain rc s2 where c: "create_session ae am uid s1 = (rc, s2)" by fastforce
      then have "s' = s2" "r = (case rc of None \<Rightarrow> Inl HsInternalError
          | Some sess \<Rightarrow> Inr (token sess, expires_at_timestamp sess))"
        using True assms u Some
        by (auto simp: handle_handshake_def handshake_session_def stmt_then_def split: option.splits)
      with tokens_create_session [OF c] s1 show ?thesis by (auto split: option.splits)
    qed
  qed
qed

lemma auth_run_tokens:
  "auth_run ae am s I \<Longrightarrow> tokens s \<subseteq> {tok. \<exists>pw. (pw, tok) \<in> set I \<and> verify_password ae am pw}"
proof (induction rule: auth_run.induct)
  case (Start s)
  then show ?case by (simp add: tokens_def)
next
  case (Admin s I req n pw)
  then show ?case using holdsD [OF tokens_init_admin] by blast
next
  case (Granted s I n pw tok x s')
  have "tokens s' \<subseteq> tokens s \<union> {tok}" using tokens_handshake(1) [OF Granted(2)] by simp
  with Granted.IH tokens_handshake(2) [OF Granted(2) refl] show ?case by auto
next
  case (Denied s I n pw h s')
  then show ?case using tokens_handshake(1) [OF Denied(2)] by auto
next
  case (Validated s I tok g)
  have "snd (validate_session am tok g s) = s \<or>
      snd (validate_session am tok g s) = snd (auth_get_user_id_by_token tok (int (unix_now s) + g) s)"
    by (auto simp: validate_session_def split: prod.splits option.splits)
  then show ?case
    using Validated.IH holdsD [OF tokens_stmts(3), of s _ tok "int (unix_now s) + g"] by (elim disjE) simp_all
next
  case (Cleaned s I)
  then show ?case using holdsD [OF tokens_stmts(4)] by (simp add: cleanup_expired_sessions_def)
qed simp

section \<open>When no statement fails\<close>

definition auth_quiet :: "auth_state \<Rightarrow> bool" where
  "auth_quiet s \<longleftrightarrow> True \<notin> set (db_faults s)"

lemma db_call_quiet [simp]: "auth_quiet s \<Longrightarrow> db_call m s = m (s\<lparr>db_faults := tl (db_faults s)\<rparr>)"
  by (auto simp: db_call_def auth_quiet_def split: list.splits bool.splits)

lemma auth_quiet_updates [simp]:
  "auth_quiet (s\<lparr>users := a\<rparr>) = auth_quiet s" "auth_quiet (s\<lparr>sessions := b\<rparr>) = auth_quiet s"
  "auth_quiet (s\<lparr>draws := c\<rparr>) = auth_quiet s" "auth_quiet (s\<lparr>unix_now := d\<rparr>) = auth_quiet s"
  "auth_quiet (s\<lparr>db_faults := fs\<rparr>) \<longleftrightarrow> True \<notin> set fs"
  by (simp_all add: auth_quiet_def)

lemma auth_quiet_tl [simp]:
  "auth_quiet s \<Longrightarrow> True \<notin> set (tl (db_faults s))" "auth_quiet s \<Longrightarrow> True \<notin> set (tl (tl (db_faults s)))"
  by (cases "db_faults s"; cases "tl (db_faults s)"; auto simp: auth_quiet_def)+

text \<open>The identifiers drawn next are new to the tables: what a version 4 UUID is used for.\<close>

definition ids_fresh :: "auth_env \<Rightarrow> auth_state \<Rightarrow> bool" where
  "ids_fresh ae s \<longleftrightarrow> (\<forall>k. draws s \<le> k \<and> k < draws s + 4 \<longrightarrow>
     new_uuid ae k \<notin> u_id ` set (users s) \<union> se_id ` set (sessions s) \<union> tokens s)"

text \<open>The user row of a name, after a handshake has made sure that there is one.\<close>

lemma handshake_user_quiet:
  assumes "auth_quiet s" and "ids_fresh ae s" and "\<And>k. argon_hash ae k pw \<noteq> None"
  shows "\<exists>uid s1. handshake_user ae n pw s = (Some uid, s1) \<and> auth_quiet s1 \<and>
    sessions s1 = sessions s \<and> unix_now s1 = unix_now s \<and> draws s \<le> draws s1 \<and> draws s1 \<le> draws s + 2 \<and>
    set (users s) \<subseteq> set (users s1) \<and> (\<exists>u\<in>set (users s1). u_id u = uid \<and> u_username u = n)"
proof (cases "find (\<lambda>u. u_username u = n) (users s)")
  case (Some u)
  then have "u \<in> set (users s)" "u_username u = n" by (auto simp: find_Some_iff)
  with Some assms(1) show ?thesis
    by (auto simp: handshake_user_def stmt_then_def system_time_def stmt_ok_def
        auth_get_user_id_by_username_def)
next
  case None
  obtain phc where "argon_hash ae (Suc (draws s)) pw = Some phc" using assms(3) by fastforce
  moreover have "\<not> list_ex (\<lambda>u. u_id u = new_uuid ae (draws s) \<or> u_username u = n) (users s)"
  proof -
    have "new_uuid ae (draws s) \<notin> u_id ` set (users s)" using assms(2) by (simp add: ids_fresh_def)
    with None show ?thesis by (auto simp: list_ex_iff find_None_iff) (metis imageI)
  qed
  ultimately show ?thesis
    using None assms(1)
    by (simp add: handshake_user_def stmt_then_def system_time_def stmt_ok_def draw_uuid_def
        hash_password_argon2_def auth_insert_user_def auth_get_user_id_by_username_def) auto
qed

lemma create_session_quiet:
  assumes "auth_quiet s" and "has_db am" and "uid \<in> u_id ` set (users s)"
    and "new_uuid ae (draws s) \<notin> tokens s" and "new_uuid ae (Suc (draws s)) \<notin> se_id ` set (sessions s)"
  shows "\<exists>s2. create_session ae am uid s =
      (Some (session_new (new_uuid ae (draws s)) uid (unix_now s)), s2) \<and> auth_quiet s2 \<and>
    users s2 = users s \<and> unix_now s2 = unix_now s \<and>
    sessions s2 = sessions s @ [\<lparr>se_id = new_uuid ae (Suc (draws s)), se_token = new_uuid ae (draws s),
      se_user_id = uid, se_expires_at = int (unix_now s) + 3600, se_created_at = int (unix_now s)\<rparr>]"
proof -
  have "\<not> list_ex (\<lambda>r. se_id r = new_uuid ae (Suc (draws s)) \<or> se_token r = new_uuid ae (draws s)) (sessions s)"
    "list_ex (\<lambda>u. u_id u = uid) (users s)"
    using assms(3-5) unfolding list_ex_iff tokens_def by (metis imageI, blast)
  with assms(1,2) show ?thesis
    by (simp add: create_session_def stmt_then_def system_time_def stmt_ok_def draw_uuid_def
        auth_insert_session_def session_new_def Let_def)
qed

lemma handshake_quiet:
  assumes "auth_quiet s" and "ids_fresh ae s" and "\<And>k. argon_hash ae k pw \<noteq> None"
    and "auth_required am" and "has_db am" and "verify_password ae am pw"
  shows "\<exists>tok uid s2. handle_handshake ae am n pw s = (Inr (tok, unix_now s + 3600), s2) \<and>
    auth_quiet s2 \<and> tok \<notin> tokens s \<and> tok \<in> range (new_uuid ae) \<and> unix_now s2 = unix_now s \<and>
    (\<exists>u\<in>set (users s2). u_id u = uid \<and> u_username u = n) \<and>
    (\<exists>sid. sessions s2 = sessions s @ [\<lparr>se_id = sid, se_token = tok, se_user_id = uid,
       se_expires_at = int (unix_now s) + 3600, se_created_at = int (unix_now s)\<rparr>])"
proof -
  obtain uid s1 where u: "handshake_user ae n pw s = (Some uid, s1)" "auth_quiet s1"
    "sessions s1 = sessions s" "unix_now s1 = unix_now s" "draws s \<le> draws s1" "draws s1 \<le> draws s + 2"
    "\<exists>u\<in>set (users s1). u_id u = uid \<and> u_username u = n"
    using handshake_user_quiet [OF assms(1-3)] by blast
  have t: "tokens s1 = tokens s" using u(3) by (simp add: tokens_def)
  have fresh: "new_uuid ae (draws s1) \<notin> tokens s1" "new_uuid ae (Suc (draws s1)) \<notin> se_id ` set (sessions s1)"
    using assms(2) u(3,5,6) t by (auto simp: ids_fresh_def)
  have "uid \<in> u_id ` set (users s1)" using u(7) by auto
  from create_session_quiet [OF u(2) assms(5) this fresh] obtain s2 where c:
    "create_session ae am uid s1 = (Some (session_new (new_uuid ae (draws s1)) uid (unix_now s1)), s2)"
    "auth_quiet s2" "users s2 = users s1" "unix_now s2 = unix_now s1"
    "sessions s2 = sessions s1 @ [\<lparr>se_id = new_uuid ae (Suc (draws s1)), se_token = new_uuid ae (draws s1),
      se_user_id = uid, se_expires_at = int (unix_now s1) + 3600, se_created_at = int (unix_now s1)\<rparr>]"
    by blast
  have "handle_handshake ae am n pw s = (Inr (new_uuid ae (draws s1), unix_now s + 3600), s2)"
    using assms(4-6) u(1,4) c(1)
    by (simp add: handle_handshake_def handshake_session_def stmt_then_def is_password_enabled_def
        session_new_def)
  then show ?thesis using c u fresh(1) t by auto
qed

lemma validate_quiet:
  assumes "auth_quiet s" and "auth_required am" and "has_db am"
  shows "fst (validate_session am tok g s) = map_option se_user_id
    (find (\<lambda>r. se_token r = tok \<and> se_expires_at r > int (unix_now s) + g) (sessions s))"
  using assms by (simp add: validate_session_def auth_get_user_id_by_token_def)

lemma find_append: "find P (xs @ ys) = (case find P xs of None \<Rightarrow> find P ys | Some x \<Rightarrow> Some x)"
  by (induction xs) auto

text \<open>A session that a handshake has just granted is valid.\<close>

lemma handshake_valid:
  assumes "auth_quiet s" and "ids_fresh ae s" and "\<And>k. argon_hash ae k pw \<noteq> None"
    and "auth_required am" and "has_db am" and "verify_password ae am pw" and "g < 3600"
  shows "\<exists>tok s2. handle_handshake ae am n pw s = (Inr (tok, unix_now s + 3600), s2) \<and> tok \<in> range (new_uuid ae) \<and>
    unix_now s2 = unix_now s \<and> fst (validate_session am tok g s2) \<noteq> None"
proof -
  obtain tok uid s2 sid where h: "handle_handshake ae am n pw s = (Inr (tok, unix_now s + 3600), s2)"
    "auth_quiet s2" "tok \<in> range (new_uuid ae)" "unix_now s2 = unix_now s"
    "sessions s2 = sessions s @ [\<lparr>se_id = sid, se_token = tok, se_user_id = uid,
       se_expires_at = int (unix_now s) + 3600, se_created_at = int (unix_now s)\<rparr>]"
    using handshake_quiet [OF assms(1-6), where n = n] by blast
  have "fst (validate_session am tok g s2) \<noteq> None"
    using h(2,4,5) assms(4,5,7) by (simp add: validate_quiet find_append split: option.split)
  then show ?thesis using h(1,3,4) by blast
qed

section \<open>Properties\<close>

text \<open>An instance of the third-party code: a PHC string is the password behind a marker, the cipher adds the
  first byte of the key, and identifiers count.\<close>

definition demo_auth_env :: auth_env where
  "demo_auth_env = \<lparr>argon_hash = (\<lambda>_ pw. Some (''$argon2'' @ pw)),
     argon_verify = (\<lambda>pw phc. phc = ''$argon2'' @ pw),
     new_uuid = (\<lambda>n. replicate n (CHR ''u'')),
     sha256 = (\<lambda>bs. take 32 (bs @ replicate 32 0)),
     aes_decrypt = (\<lambda>key nonce ct. if ct = [] then None else Some (map (\<lambda>b. b - byte_at key 0) ct))\<rparr>"

definition demo_manager :: auth_manager where
  "demo_manager = \<lparr>has_db = True, auth_required = True, password_phc = Some ''$argon2pw''\<rparr>"

definition demo_auth :: auth_state where
  "demo_auth = \<lparr>users = [], sessions = [], db_faults = [], draws = 1, unix_now = 1000\<rparr>"

lemma demo_auth_facts:
  "auth_quiet demo_auth" "ids_fresh demo_auth_env demo_auth" "argon_hash demo_auth_env k pw \<noteq> None"
  "auth_required demo_manager" "has_db demo_manager" "verify_password demo_auth_env demo_manager ''pw''"
  "\<not> verify_password demo_auth_env demo_manager ''no''" "auth_run demo_auth_env demo_manager demo_auth []"
  by (simp_all add: auth_quiet_def ids_fresh_def demo_auth_def demo_auth_env_def demo_manager_def
      verify_password_def tokens_def auth_run.Start)

definition demo_granted :: auth_state where
  "demo_granted = snd (handle_handshake demo_auth_env demo_manager ''bob'' ''pw'' demo_auth)"

lemma demo_granted:
  "handle_handshake demo_auth_env demo_manager ''bob'' ''pw'' demo_auth = (Inr (''uuu'', 4600), demo_granted)"
  "sessions demo_granted = [\<lparr>se_id = ''uuuu'', se_token = ''uuu'', se_user_id = ''u'',
     se_expires_at = 4600, se_created_at = 1000\<rparr>]" "auth_quiet demo_granted" "unix_now demo_granted = 1000"
  by (simp_all add: demo_granted_def handle_handshake_def handshake_session_def handshake_user_def
      create_session_def demo_auth_def demo_auth_env_def demo_manager_def is_password_enabled_def
      verify_password_def stmt_then_def system_time_def stmt_ok_def draw_uuid_def hash_password_argon2_def
      auth_get_user_id_by_username_def auth_insert_user_def auth_insert_session_def db_call_def
      session_new_def Let_def auth_quiet_def numeral_eq_Suc)

lemma validated_token_granted:
  assumes "auth_run ae am s I" and "auth_required am" and "validate_session am tok g s = (Some u, s')"
  shows "(\<exists>pw. (pw, tok) \<in> set I \<and> verify_password ae am pw) \<and>
    (\<exists>r\<in>set (sessions s). se_token r = tok \<and> se_user_id r = u \<and> se_expires_at r > int (unix_now s) + g)"
proof -
  have "\<exists>r\<in>set (sessions s). se_token r = tok \<and> se_user_id r = u \<and> se_expires_at r > int (unix_now s) + g"
    using assms(2,3)
    by (auto simp: validate_session_def auth_get_user_id_by_token_def db_call_def find_Some_iff
        split: if_splits prod.splits option.splits list.splits bool.splits)
  moreover from this have "tok \<in> tokens s" by (auto simp: tokens_def)
  ultimately show ?thesis using auth_run_tokens [OF assms(1)] by blast
qed

text \<open>C19: While authentication is required, in every run of the service and whatever statements fail, a token
  is accepted only if a successful handshake returned it to a client that presented the right password, and
  only while the session of that token has not expired.\<close>

theorem session_requires_password:
  assumes "auth_run ae am s I" and "auth_required am" and "validate_session am tok g s = (Some u, s')"
  shows "(\<exists>pw. (pw, tok) \<in> set I \<and> verify_password ae am pw) \<and>
    (\<exists>r\<in>set (sessions s). se_token r = tok \<and> se_user_id r = u \<and> se_expires_at r > int (unix_now s) + g)"
  using validated_token_granted [OF assms] .

theorem session_requires_password_witness:
  "\<exists>pw. (pw, ''uuu'') \<in> set [(''pw'', ''uuu'')] \<and> verify_password demo_auth_env demo_manager pw"
proof -
  have run: "auth_run demo_auth_env demo_manager demo_granted [(''pw'', ''uuu'')]"
    by (rule auth_run.Granted [OF demo_auth_facts(8) demo_granted(1)])
  have "fst (validate_session demo_manager ''uuu'' 60 demo_granted) = Some ''u''"
    by (simp add: validate_quiet demo_granted demo_manager_def)
  then obtain s' where "validate_session demo_manager ''uuu'' 60 demo_granted = (Some ''u'', s')"
    by (metis surj_pair fst_conv)
  from session_requires_password [OF run demo_auth_facts(4) this] show ?thesis by blast
qed



text \<open>C20: A handshake with the right password returns a new token that expires in one hour, for a user with the
  given name; afterwards the token is accepted with grace period \<open>g\<close> exactly while the clock plus \<open>g\<close> is
  before the expiry, and every other token as before.\<close>

theorem handshake_then_validate:
  assumes "auth_quiet s" and "ids_fresh ae s" and "\<And>k. argon_hash ae k pw \<noteq> None"
    and "auth_required am" and "has_db am" and "verify_password ae am pw"
  shows "\<exists>tok uid s2. handle_handshake ae am n pw s = (Inr (tok, unix_now s + 3600), s2) \<and>
    (\<exists>u\<in>set (users s2). u_id u = uid \<and> u_username u = n) \<and>
    (\<forall>t g. fst (validate_session am tok g (s2\<lparr>unix_now := t\<rparr>)) =
       (if int t + g < int (unix_now s) + 3600 then Some uid else None)) \<and>
    (\<forall>tok' t g. tok' \<noteq> tok \<longrightarrow> fst (validate_session am tok' g (s2\<lparr>unix_now := t\<rparr>)) =
       fst (validate_session am tok' g (s\<lparr>unix_now := t\<rparr>)))"
proof -
  obtain tok uid s2 sid where h: "handle_handshake ae am n pw s = (Inr (tok, unix_now s + 3600), s2)"
    "auth_quiet s2" "tok \<notin> tokens s" "\<exists>u\<in>set (users s2). u_id u = uid \<and> u_username u = n"
    "sessions s2 = sessions s @ [\<lparr>se_id = sid, se_token = tok, se_user_id = uid,
       se_expires_at = int (unix_now s) + 3600, se_created_at = int (unix_now s)\<rparr>]"
    using handshake_quiet [OF assms, where n = n] by blast
  have "find (\<lambda>r. se_token r = tok \<and> x < se_expires_at r) (sessions s) = None" for x
    using h(3) by (auto simp: find_None_iff tokens_def)
  then have "fst (validate_session am tok g (s2\<lparr>unix_now := t\<rparr>)) =
      (if int t + g < int (unix_now s) + 3600 then Some uid else None)" for t g
    using h(2,5) assms(4,5) by (simp add: validate_quiet find_append)
  moreover have "fst (validate_session am tok' g (s2\<lparr>unix_now := t\<rparr>)) =
      fst (validate_session am tok' g (s\<lparr>unix_now := t\<rparr>))" if "tok' \<noteq> tok" for tok' t g
    using that h(2,5) assms(1,4,5) by (simp add: validate_quiet find_append split: option.splits)
  ultimately show ?thesis using h(1,4) by blast
qed

theorem handshake_then_validate_witness:
  "\<exists>tok uid s2. handle_handshake demo_auth_env demo_manager ''bob'' ''pw'' demo_auth =
      (Inr (tok, 4600), s2) \<and>
    fst (validate_session demo_manager tok 60 (s2\<lparr>unix_now := 4539\<rparr>)) = Some uid \<and>
    fst (validate_session demo_manager tok 60 (s2\<lparr>unix_now := 4540\<rparr>)) = None"
proof -
  from handshake_then_validate [OF demo_auth_facts(1-6), of "''bob''"] obtain tok uid s2 where
    "handle_handshake demo_auth_env demo_manager ''bob'' ''pw'' demo_auth = (Inr (tok, unix_now demo_auth + 3600), s2)"
    "\<And>t g. fst (validate_session demo_manager tok g (s2\<lparr>unix_now := t\<rparr>)) =
       (if int t + g < int (unix_now demo_auth) + 3600 then Some uid else None)"
    by blast
  then show ?thesis
    by (intro exI [of _ tok] exI [of _ uid] exI [of _ s2]) (simp add: demo_auth_def)
qed

text \<open>A refused handshake grants nothing: with authentication disabled or a wrong password the state is
  unchanged, and whatever statement fails on the way, no session is added.\<close>

theorem refused_handshake_grants_nothing:
  assumes "handle_handshake ae am n pw s = (Inl h, s')"
  shows "(h = HsAuthDisabled \<longleftrightarrow> \<not> auth_required am) \<and>
    (h = HsInvalidPassword \<longleftrightarrow> auth_required am \<and> \<not> verify_password ae am pw) \<and>
    (h \<noteq> HsInternalError \<longrightarrow> s' = s) \<and> tokens s' \<subseteq> tokens s"
  using assms tokens_handshake(1) [OF assms]
  by (auto simp: handle_handshake_def is_password_enabled_def split: if_splits prod.splits option.splits)

theorem refused_handshake_grants_nothing_witness:
  "tokens (snd (handle_handshake demo_auth_env demo_manager ''bob'' ''no'' demo_auth)) \<subseteq> {}"
proof -
  have "handle_handshake demo_auth_env demo_manager ''bob'' ''no'' demo_auth = (Inl HsInvalidPassword, demo_auth)"
    using demo_auth_facts(4,7) by (simp add: handle_handshake_def is_password_enabled_def)
  from refused_handshake_grants_nothing [OF this] this show ?thesis by (simp add: tokens_def demo_auth_def)
qed

text \<open>The hourly cleanup removes every session whose expiry has passed and changes the validity of no
  token, at this or any later time and with any grace period that is not negative.\<close>

theorem cleanup_keeps_valid_sessions:
  assumes "auth_quiet s" and "auth_required am" and "has_db am" and "unix_now s \<le> t" and "0 \<le> g"
  shows "fst (validate_session am tok g ((cleanup_expired_sessions am s)\<lparr>unix_now := t\<rparr>)) =
      fst (validate_session am tok g (s\<lparr>unix_now := t\<rparr>)) \<and>
    (\<forall>r\<in>set (sessions (cleanup_expired_sessions am s)). int (unix_now s) \<le> se_expires_at r)"
proof -
  have c: "cleanup_expired_sessions am s = s\<lparr>db_faults := tl (db_faults s),
      sessions := filter (\<lambda>r. \<not> se_expires_at r < int (unix_now s)) (sessions s)\<rparr>"
    using assms(1,3) by (simp add: cleanup_expired_sessions_def auth_delete_expired_sessions_def Let_def)
  have "find (\<lambda>r. se_token r = tok \<and> int t + g < se_expires_at r)
      (filter (\<lambda>r. \<not> se_expires_at r < int (unix_now s)) rs) =
    find (\<lambda>r. se_token r = tok \<and> int t + g < se_expires_at r) rs" for rs :: "session_row list"
    using assms(4,5) by (induction rs) auto
  then show ?thesis using assms(1-3) by (auto simp: c validate_quiet)
qed

theorem cleanup_keeps_valid_sessions_witness:
  "fst (validate_session demo_manager ''uuu'' 60
      ((cleanup_expired_sessions demo_manager demo_granted)\<lparr>unix_now := 2000\<rparr>)) =
    fst (validate_session demo_manager ''uuu'' 60 (demo_granted\<lparr>unix_now := 2000\<rparr>))"
  using cleanup_keeps_valid_sessions [of demo_granted demo_manager 2000 60 "''uuu''"] demo_granted(3,4)
    demo_auth_facts(4,5) by simp

text \<open>C22: The rate limiter, which prunes old failures and sweeps its table, decides exactly as a reference that
  remembers every failure: an address may attempt a handshake if and only if it has fewer than
  \<open>max_failures\<close> failures within the window since its last success.\<close>

theorem rate_limiter_reference:
  assumes "timely 0 es now" and "length (fold (failures_step ip) es []) < 2 ^ 32" and "0 < mx"
  shows "fst (rl_check now ip (fold rl_step es (rate_limiter_with_gc_threshold win mx gc))) \<longleftrightarrow>
    length (filter (\<lambda>t. now - t < win) (fold (failures_step ip) es [])) < unat mx"
proof -
  let ?rl = "rate_limiter_with_gc_threshold win mx gc"
  have "rl_sim 0 ?rl (\<lambda>_. [])"
    by (simp add: rl_sim_def rate_limiter_with_gc_threshold_def entries_of_def)
  from rl_sim_run [OF this assms(1)]
  have sim: "rl_sim now (fold rl_step es ?rl) (\<lambda>ip. fold (failures_step ip) es [])" .
  have params: "rl_window (fold rl_step es rl) = rl_window rl"
    "max_failures (fold rl_step es rl) = max_failures rl" for rl
    by (induction es arbitrary: rl) simp_all
  show ?thesis
    using rl_sim_check [OF sim, of ip] assms(2,3)
    by (simp add: params retain_live_def) (simp add: rate_limiter_with_gc_threshold_def)
qed

text \<open>Five failures within a minute block an address, also when its table is swept at every failure.\<close>

theorem rate_limiter_reference_witness:
  "\<not> fst (rl_check (secs 9) ''ip'' (fold rl_step
      [Failed (secs 1) ''ip'', Failed (secs 2) ''ip'', Failed (secs 3) ''ip'', Checked (secs 4) ''ip'',
       Failed (secs 5) ''ip'', Failed (secs 6) ''ip'']
      (rate_limiter_with_gc_threshold (secs 60) 5 0)))"
  by (subst rate_limiter_reference) (simp_all add: secs_def)

text \<open>The table of the rate limiter stays small: after a failure was recorded it holds at most
  \<open>gc_threshold\<close> addresses, or every address in it has a failure within the window.\<close>

theorem rate_limiter_table_bound:
  assumes "\<not> rl_poisoned rl"
  shows "length (rl_state (rl_record_failure now ip rl)) \<le> gc_threshold rl \<or>
    (\<forall>(ip', ts)\<in>set (rl_state (rl_record_failure now ip rl)).
       ts \<noteq> [] \<and> (\<forall>t\<in>set ts. now - t < rl_window rl))"
  using assms by (auto simp: rl_record_failure_def Let_def retain_live_def not_le)

theorem rate_limiter_table_bound_witness:
  "length (rl_state (rl_record_failure 7 ''ip'' handshake_rate_limiter)) \<le> 1024 \<or>
    (\<forall>(ip', ts)\<in>set (rl_state (rl_record_failure 7 ''ip'' handshake_rate_limiter)). ts \<noteq> [] \<and>
       (\<forall>t\<in>set ts. 7 - t < secs 60))"
  using rate_limiter_table_bound [of handshake_rate_limiter 7 "''ip''"]
  by (simp add: handshake_rate_limiter_def rate_limiter_new_def rate_limiter_with_gc_threshold_def)

text \<open>What a client encrypts with AES-GCM under the hash of its token and sends behind the 12-byte nonce is
  what the server decrypts; a message shorter than the nonce is refused.\<close>

theorem decrypt_roundtrip:
  assumes "\<And>key nonce d. aes_decrypt ae key nonce (aes_encrypt key nonce d) = Some d"
    and "length nonce = 12"
  shows "decrypt_with_token ae tok (nonce @ aes_encrypt (sha256 ae (as_bytes tok)) nonce d) = Inr d \<and>
    (length e < 12 \<longrightarrow> decrypt_with_token ae tok e = Inl ''Encrypted data is too short'')"
  using assms by (simp add: decrypt_with_token_def NONCE_SIZE_def)

definition demo_cipher :: auth_env where
  "demo_cipher = demo_auth_env\<lparr>aes_decrypt := \<lambda>key nonce ct. Some (map (\<lambda>b. b - byte_at key 0) ct)\<rparr>"

theorem decrypt_roundtrip_witness:
  "decrypt_with_token demo_cipher ''tok'' (replicate 12 3 @
      map (\<lambda>b. b + byte_at (sha256 demo_cipher (as_bytes ''tok'')) 0) [1, 2]) = Inr [1, 2]"
  using decrypt_roundtrip [of demo_cipher "\<lambda>key nonce d. map (\<lambda>b. b + byte_at key 0) d" "replicate 12 3"
      "''tok''" "[1, 2]" "[]"]
  by (simp add: demo_cipher_def comp_def)

end
