(* ===== verification/Lina_Mapper.thy ===== *)
theory Lina_Mapper
  imports Lina_Dao
begin

text \<open>
  The bucket mapper, \<^verbatim>\<open>linastore-server/src/mapper.rs\<close>: the table that gives each object key of a bucket
  the internal name under which its content is stored.  The table is a list in rowid order with its
  constraints, a primary key and a unique column, written out; a script of faults decides which
  statements fail.
\<close>

section \<open>The table\<close>

definition DEFAULT_BUCKET :: string where
  "DEFAULT_BUCKET = ''default''"

record mapping_row =
  mp_bucket :: string
  mp_key :: string
  mp_internal :: string

record bucket_mapper =
  mp_rows :: "mapping_row list"
  mp_faults :: "bool list"

type_synonym 'a mop = "bucket_mapper \<Rightarrow> 'a option \<times> bucket_mapper"

definition mp_call :: "'a mop \<Rightarrow> 'a mop" where
  "mp_call f m =
     (case mp_faults m of
        True # fs \<Rightarrow> (None, m\<lparr>mp_faults := fs\<rparr>)
      | fs \<Rightarrow> f (m\<lparr>mp_faults := tl fs\<rparr>))"

text \<open>\<^verbatim>\<open>CREATE TABLE IF NOT EXISTS\<close> and the index: two statements on a new connection.\<close>

definition mapper_new :: "unit mop" where
  "mapper_new m =
     (case mp_call (\<lambda>m. (Some (), m)) m of
        (None, m') \<Rightarrow> (None, m')
      | (Some _, m') \<Rightarrow> mp_call (\<lambda>m. (Some (), m)) m')"

definition mapper_resolve :: "string \<Rightarrow> string \<Rightarrow> string option mop" where
  "mapper_resolve bucket key =
     mp_call (\<lambda>m. (Some (map_option mp_internal
       (find (\<lambda>r. mp_bucket r = bucket \<and> mp_key r = key) (mp_rows m))), m))"

text \<open>\<^verbatim>\<open>INSERT OR IGNORE\<close>: a row that violates either constraint is not inserted, and that is no error.\<close>

definition mapper_register :: "string \<Rightarrow> string \<Rightarrow> string \<Rightarrow> unit mop" where
  "mapper_register bucket key internal_name =
     mp_call (\<lambda>m. (Some (),
       if list_ex (\<lambda>r. mp_bucket r = bucket \<and> mp_key r = key \<or> mp_internal r = internal_name) (mp_rows m)
       then m
       else m\<lparr>mp_rows := mp_rows m @
         [\<lparr>mp_bucket = bucket, mp_key = key, mp_internal = internal_name\<rparr>]\<rparr>))"

definition mapper_delete :: "string \<Rightarrow> string \<Rightarrow> unit mop" where
  "mapper_delete bucket key =
     mp_call (\<lambda>m. (Some (), m\<lparr>mp_rows :=
       filter (\<lambda>r. \<not> (mp_bucket r = bucket \<and> mp_key r = key)) (mp_rows m)\<rparr>))"

definition list_buckets :: "string list mop" where
  "list_buckets = mp_call (\<lambda>m. (Some (sort (remdups (map mp_bucket (mp_rows m)))), m))"

definition list_bucket :: "string \<Rightarrow> string \<Rightarrow> (string \<times> string) list mop" where
  "list_bucket bucket prefix =
     mp_call (\<lambda>m. (Some (map (\<lambda>r. (mp_key r, mp_internal r))
       (sort_key mp_key (filter (\<lambda>r. mp_bucket r = bucket \<and> sql_like (prefix @ ''%'') (mp_key r)) (mp_rows m)))), m))"

section \<open>The table as a map\<close>

definition mapping_of :: "bucket_mapper \<Rightarrow> string \<times> string \<Rightarrow> string option" where
  "mapping_of m = map_of (map (\<lambda>r. ((mp_bucket r, mp_key r), mp_internal r)) (mp_rows m))"

definition mapper_ok :: "bucket_mapper \<Rightarrow> bool" where
  "mapper_ok m \<longleftrightarrow> distinct (map (\<lambda>r. (mp_bucket r, mp_key r)) (mp_rows m)) \<and>
     distinct (map mp_internal (mp_rows m))"

definition mp_quiet :: "bucket_mapper \<Rightarrow> bool" where
  "mp_quiet m \<longleftrightarrow> True \<notin> set (mp_faults m)"

lemma mp_call_quiet: "mp_quiet m \<Longrightarrow> mp_call f m = f (m\<lparr>mp_faults := tl (mp_faults m)\<rparr>)"
  by (auto simp: mp_call_def mp_quiet_def split: list.splits bool.splits)

lemma mp_quiet_tl [simp]: "mp_quiet m \<Longrightarrow> True \<notin> set (tl (mp_faults m))"
  by (cases "mp_faults m") (auto simp: mp_quiet_def)

lemma mapper_updates [simp]:
  "mapping_of (m\<lparr>mp_faults := fs\<rparr>) = mapping_of m" "mapper_ok (m\<lparr>mp_faults := fs\<rparr>) = mapper_ok m"
  "mp_quiet (m\<lparr>mp_faults := fs\<rparr>) \<longleftrightarrow> True \<notin> set fs" "mp_quiet (m\<lparr>mp_rows := rs\<rparr>) = mp_quiet m"
  by (simp_all add: mapping_of_def mapper_ok_def mp_quiet_def)

lemma find_mapping:
  "map_option mp_internal (find (\<lambda>r. mp_bucket r = b \<and> mp_key r = k) rs) =
   map_of (map (\<lambda>r. ((mp_bucket r, mp_key r), mp_internal r)) rs) (b, k)"
  by (induction rs) auto

lemma mapping_in_rows:
  "list_ex (\<lambda>r. mp_bucket r = b \<and> mp_key r = k \<or> mp_internal r = n) (mp_rows m) \<longleftrightarrow>
   mapping_of m (b, k) \<noteq> None \<or> n \<in> mp_internal ` set (mp_rows m)"
  by (force simp: mapping_of_def list_ex_iff map_of_eq_None_iff image_iff)

lemma internal_ran: "mapper_ok m \<Longrightarrow> mp_internal ` set (mp_rows m) = ran (mapping_of m)"
  unfolding mapping_of_def mapper_ok_def
  by (subst ran_distinct) (auto simp: comp_def image_image)

lemma mapping_register:
  "mapping_of m (b, k) = None \<Longrightarrow>
   mapping_of (m\<lparr>mp_rows := mp_rows m @ [\<lparr>mp_bucket = b, mp_key = k, mp_internal = n\<rparr>]\<rparr>) =
   (mapping_of m)((b, k) \<mapsto> n)"
  by (auto simp: mapping_of_def fun_eq_iff map_add_def split: option.splits)

lemma mapping_delete:
  "mapping_of (m\<lparr>mp_rows := filter (\<lambda>r. \<not> (mp_bucket r = b \<and> mp_key r = k)) (mp_rows m)\<rparr>) =
   (mapping_of m)((b, k) := None)"
proof -
  have "map_of (map (\<lambda>r. ((mp_bucket r, mp_key r), mp_internal r))
      (filter (\<lambda>r. \<not> (mp_bucket r = b \<and> mp_key r = k)) rs)) x =
    ((map_of (map (\<lambda>r. ((mp_bucket r, mp_key r), mp_internal r)) rs))((b, k) := None)) x" for x and rs :: "mapping_row list"
    by (induction rs) auto
  then show ?thesis by (auto simp: mapping_of_def fun_eq_iff)
qed

lemma mapper_ok_register:
  "mapper_ok m \<Longrightarrow> mapping_of m (b, k) = None \<Longrightarrow> n \<notin> mp_internal ` set (mp_rows m) \<Longrightarrow>
   mapper_ok (m\<lparr>mp_rows := mp_rows m @ [\<lparr>mp_bucket = b, mp_key = k, mp_internal = n\<rparr>]\<rparr>)"
  by (auto simp: mapper_ok_def mapping_of_def map_of_eq_None_iff image_iff)

lemma mapper_ok_filter: "mapper_ok m \<Longrightarrow> mapper_ok (m\<lparr>mp_rows := filter P (mp_rows m)\<rparr>)"
  by (simp add: mapper_ok_def distinct_map_filter)

text \<open>No internal name belongs to two keys.\<close>

lemma mapping_inj:
  assumes "mapper_ok m" "mapping_of m x = Some n" "mapping_of m y = Some n"
  shows "x = y"
proof -
  have "distinct (map mp_internal (mp_rows m))" using assms(1) by (simp add: mapper_ok_def)
  moreover obtain r r' where "r \<in> set (mp_rows m)" "x = (mp_bucket r, mp_key r)" "mp_internal r = n"
    "r' \<in> set (mp_rows m)" "y = (mp_bucket r', mp_key r')" "mp_internal r' = n"
    using assms(2,3) by (auto simp: mapping_of_def dest!: map_of_SomeD)
  ultimately show ?thesis by (auto simp: distinct_map inj_on_def)
qed

section \<open>The index as an interface\<close>

text \<open>What the front ends rely on while no statement fails: a map from bucket and key to an internal name,
  in which a registration is lost when the key has a name already.\<close>

locale key_index =
  fixes inv :: "'s \<Rightarrow> bool"
    and names :: "'s \<Rightarrow> string \<times> string \<Rightarrow> string option"
    and resolve :: "string \<Rightarrow> string \<Rightarrow> 's \<Rightarrow> string option option \<times> 's"
    and reg :: "string \<Rightarrow> string \<Rightarrow> string \<Rightarrow> 's \<Rightarrow> unit option \<times> 's"
    and del :: "string \<Rightarrow> string \<Rightarrow> 's \<Rightarrow> unit option \<times> 's"
  assumes resolve_looks_up: "inv s \<Longrightarrow>
      \<exists>s'. resolve b k s = (Some (names s (b, k)), s') \<and> inv s' \<and> names s' = names s"
    and reg_first: "inv s \<Longrightarrow> n \<notin> ran (names s) \<Longrightarrow>
      \<exists>s'. reg b k n s = (Some (), s') \<and> inv s' \<and>
        names s' = (if names s (b, k) = None then (names s)((b, k) \<mapsto> n) else names s)"
    and del_removes: "inv s \<Longrightarrow>
      \<exists>s'. del b k s = (Some (), s') \<and> inv s' \<and> names s' = (names s)((b, k) := None)"
begin

lemma resolve_after_reg:
  assumes "inv s" and "n \<notin> ran (names s)"
  shows "fst (resolve b' k' (snd (reg b k n s))) =
    (if (b', k') = (b, k) \<and> names s (b, k) = None then Some (Some n) else Some (names s (b', k')))"
proof -
  obtain s' where s': "reg b k n s = (Some (), s')" "inv s'"
    "names s' = (if names s (b, k) = None then (names s)((b, k) \<mapsto> n) else names s)"
    using reg_first [OF assms] by blast
  from resolve_looks_up [OF s'(2), of b' k'] s' show ?thesis by auto
qed

lemma reg_after_del:
  assumes "inv s" and "n \<notin> ran (names s)"
  shows "fst (resolve b k (snd (reg b k n (snd (del b k s))))) = Some (Some n)"
proof -
  obtain s' where s': "del b k s = (Some (), s')" "inv s'" "names s' = (names s)((b, k) := None)"
    using del_removes [OF assms(1)] by blast
  then have "n \<notin> ran (names s')" using assms(2) by (auto simp: ran_def)
  from resolve_after_reg [OF s'(2) this, of b k b k] s' show ?thesis by simp
qed

end

definition mapper_inv :: "bucket_mapper \<Rightarrow> bool" where
  "mapper_inv m \<longleftrightarrow> mapper_ok m \<and> mp_quiet m"

interpretation bm_index: key_index mapper_inv mapping_of mapper_resolve mapper_register mapper_delete
proof
  fix m b k n
  assume m: "mapper_inv m"
  then show "\<exists>m'. mapper_resolve b k m = (Some (mapping_of m (b, k)), m') \<and> mapper_inv m' \<and>
      mapping_of m' = mapping_of m"
    by (simp add: mapper_inv_def mapper_resolve_def mp_call_quiet find_mapping)
       (simp add: mapping_of_def)
  show "\<exists>m'. mapper_delete b k m = (Some (), m') \<and> mapper_inv m' \<and>
      mapping_of m' = (mapping_of m)((b, k) := None)"
    using m mapping_delete [where m = "m\<lparr>mp_faults := tl (mp_faults m)\<rparr>" and b = b and k = k]
      mapper_ok_filter [of "m\<lparr>mp_faults := tl (mp_faults m)\<rparr>"]
    by (simp add: mapper_inv_def mapper_delete_def mp_call_quiet)
  assume n: "n \<notin> ran (mapping_of m)"
  let ?m = "m\<lparr>mp_faults := tl (mp_faults m)\<rparr>"
  have "list_ex (\<lambda>r. mp_bucket r = b \<and> mp_key r = k \<or> mp_internal r = n) (mp_rows m) \<longleftrightarrow>
      mapping_of m (b, k) \<noteq> None"
    using mapping_in_rows [of b k n m] internal_ran [of m] m n by (auto simp: mapper_inv_def)
  moreover have "n \<notin> mp_internal ` set (mp_rows ?m)"
    using internal_ran [of m] m n by (simp add: mapper_inv_def)
  ultimately show "\<exists>m'. mapper_register b k n m = (Some (), m') \<and> mapper_inv m' \<and>
      mapping_of m' = (if mapping_of m (b, k) = None then (mapping_of m)((b, k) \<mapsto> n) else mapping_of m)"
    using m mapping_register [of ?m b k n] mapper_ok_register [of ?m b k n]
    by (auto simp: mapper_inv_def mapper_register_def mp_call_quiet)
qed

section \<open>Properties\<close>

text \<open>The constraints of the table, one row per key and one key per internal name, survive every
  operation, whatever statements fail.\<close>

theorem mapper_invariant:
  assumes "mapper_ok m"
  shows "mapper_ok (snd (mapper_register b k n m)) \<and> mapper_ok (snd (mapper_delete b k m)) \<and>
    mapper_ok (snd (mapper_resolve b k m)) \<and> mapper_ok (snd (list_buckets m)) \<and>
    mapper_ok (snd (list_bucket b k m)) \<and> mapper_ok (snd (mapper_new m))"
proof -
  have call: "mapper_ok (snd (mp_call f x))" if "mapper_ok x" "\<And>y. mapper_ok y \<Longrightarrow> mapper_ok (snd (f y))"
    for x :: bucket_mapper and f :: "'z mop"
    using that by (auto simp: mp_call_def split: list.splits bool.splits)
  have "mapper_ok (snd (mapper_register b k n m))"
    unfolding mapper_register_def
    by (rule call [OF assms]) (auto simp: mapping_in_rows intro: mapper_ok_register)
  moreover have "mapper_ok (snd (mapper_delete b k m))"
    unfolding mapper_delete_def by (rule call [OF assms]) (simp add: mapper_ok_filter)
  moreover have "mapper_ok (snd (mapper_resolve b k m))"
    unfolding mapper_resolve_def by (rule call [OF assms]) simp
  ultimately show ?thesis
    using assms
    by (auto simp: list_buckets_def list_bucket_def mapper_new_def mp_call_def
        split: list.splits bool.splits)
qed

theorem mapper_invariant_witness:
  "mapper_ok (snd (mapper_register ''b'' ''k'' ''n'' \<lparr>mp_rows = [], mp_faults = [True]\<rparr>))"
  using mapper_invariant [of "\<lparr>mp_rows = [], mp_faults = [True]\<rparr>" "''b''" "''k''" "''n''"]
  by (simp add: mapper_ok_def)

text \<open>Listing a bucket returns the keys in order, without repetition, and exactly the keys of that bucket
  that the pattern selects, each with its internal name.\<close>

theorem list_bucket_correct:
  assumes "mapper_inv m" and "list_bucket b prefix m = (Some rows, m')"
  shows "sorted (map fst rows) \<and> distinct (map fst rows) \<and>
    (\<forall>k n. (k, n) \<in> set rows \<longleftrightarrow> mapping_of m (b, k) = Some n \<and> sql_like (prefix @ ''%'') k)"
proof -
  let ?sel = "filter (\<lambda>r. mp_bucket r = b \<and> sql_like (prefix @ ''%'') (mp_key r)) (mp_rows m)"
  have rows: "rows = map (\<lambda>r. (mp_key r, mp_internal r)) (sort_key mp_key ?sel)"
    using assms by (simp add: list_bucket_def mapper_inv_def mp_call_quiet)
  have d: "distinct (map (\<lambda>r. (mp_bucket r, mp_key r)) (mp_rows m))"
    using assms(1) by (simp add: mapper_inv_def mapper_ok_def)
  have "inj_on mp_key (set ?sel)"
  proof (rule inj_onI)
    fix x y
    assume "x \<in> set ?sel" "y \<in> set ?sel" "mp_key x = mp_key y"
    with d show "x = y" by (auto simp: distinct_map inj_on_def)
  qed
  moreover have "distinct ?sel" using d by (simp add: distinct_map)
  ultimately have "distinct (map mp_key (sort_key mp_key ?sel))" by (simp add: distinct_map)
  moreover have "(k, n) \<in> set rows \<longleftrightarrow> mapping_of m (b, k) = Some n \<and> sql_like (prefix @ ''%'') k" for k n
    using d by (auto simp: rows mapping_of_def map_of_eq_Some_iff comp_def image_iff)
  ultimately show ?thesis by (simp add: rows comp_def)
qed

theorem list_bucket_correct_witness:
  "sorted (map fst (the (fst (list_bucket ''b'' [] \<lparr>mp_rows =
     [\<lparr>mp_bucket = ''b'', mp_key = ''z'', mp_internal = ''1''\<rparr>,
      \<lparr>mp_bucket = ''b'', mp_key = ''a'', mp_internal = ''2''\<rparr>], mp_faults = []\<rparr>))))"
proof -
  let ?m = "\<lparr>mp_rows = [\<lparr>mp_bucket = ''b'', mp_key = ''z'', mp_internal = ''1''\<rparr>,
      \<lparr>mp_bucket = ''b'', mp_key = ''a'', mp_internal = ''2''\<rparr>], mp_faults = []\<rparr>"
  have inv: "mapper_inv ?m" by (simp add: mapper_inv_def mapper_ok_def mp_quiet_def)
  have "\<exists>rows m'. list_bucket b p m = (Some rows, m')" if "mp_quiet m" for b p m
    using that by (simp add: list_bucket_def mp_call_quiet)
  then obtain rows m' where l: "list_bucket ''b'' [] ?m = (Some rows, m')"
    using inv unfolding mapper_inv_def by blast
  from list_bucket_correct [OF inv l] l show ?thesis by simp
qed

end
