(* ===== verification/Lina_Server.thy ===== *)
theory Lina_Server
  imports Lina_Porter Lina_Auth Lina_Mapper
begin

text \<open>
  The state of the running server, put together from its components, and the exchange of one request with
  the workers that all front ends share: register a waiter, put an order on the queue, wait for the
  answer.  What the other tasks do while a front end waits is a parameter, \<open>peers\<close>; \<open>porter_turn\<close> is one
  such: the porter takes one order and a worker executes it.
\<close>

section \<open>State\<close>

text \<open>Third-party code and configuration.  \<open>ev_uuid\<close> is a function of the number of UUIDs drawn before;
  \<open>ev_horizon\<close> bounds the draws for which they are assumed not to repeat.\<close>

record server_env =
  ev_store :: env
  ev_auth :: auth_env
  ev_manager :: auth_manager
  ev_crc :: crc32
  ev_max_payload :: u64
  ev_uuid :: "nat \<Rightarrow> string"
  ev_horizon :: nat

text \<open>\<open>sv_mapper\<close> is \<^const>\<open>None\<close> while the mapper is not initialised; \<open>sv_draws\<close> counts the UUIDs the front
  ends have drawn.\<close>

record server =
  sv_store :: world
  sv_queue :: convey_queue
  sv_mapper :: "bucket_mapper option"
  sv_auth :: auth_state
  sv_limiter :: rate_limiter
  sv_now :: instant
  sv_draws :: nat

definition new_v4 :: "server_env \<Rightarrow> server \<Rightarrow> string \<times> server" where
  "new_v4 E s = (ev_uuid E (sv_draws s), s\<lparr>sv_draws := Suc (sv_draws s)\<rparr>)"

definition timestamp :: "server \<Rightarrow> int" where
  "timestamp s = int (unix_now (sv_auth s))"

text \<open>A statement of the mapper, if there is one; an error and a missing mapper are told apart.\<close>

datatype 'a mapped = NoMapper | MapperError | Mapped 'a

definition with_mapper :: "'a mop \<Rightarrow> server \<Rightarrow> 'a mapped \<times> server" where
  "with_mapper f s =
     (case sv_mapper s of
        None \<Rightarrow> (NoMapper, s)
      | Some m \<Rightarrow>
          (case f m of
             (None, m') \<Rightarrow> (MapperError, s\<lparr>sv_mapper := Some m'\<rparr>)
           | (Some x, m') \<Rightarrow> (Mapped x, s\<lparr>sv_mapper := Some m'\<rparr>)))"

section \<open>Exchanging a request\<close>

text \<open>How it ends: no waiter could be registered, the order could not be queued, or the wait of at most ten
  seconds ended with an answer, with a dropped sender, or with neither.\<close>

datatype exchange_result = NoWaiter | NoOrder string | Answer package | ChannelClosed | TimedOut

definition await_reply :: "(server \<Rightarrow> server) \<Rightarrow> nat \<Rightarrow> server \<Rightarrow> exchange_result \<times> server" where
  "await_reply peers receiver s =
     (let s' = peers s in
      (case chans (sv_queue s') ! receiver of
         Sent p \<Rightarrow> Answer p
       | Closed \<Rightarrow> ChannelClosed
       | Waiting \<Rightarrow> TimedOut, s'))"

definition exchange :: "(server \<Rightarrow> server) \<Rightarrow> package \<Rightarrow> server \<Rightarrow> exchange_result \<times> server" where
  "exchange peers pkg s =
     (case register_waiter (sv_now s) (pk_uni_id pkg) (sv_queue s) of
        (None, q) \<Rightarrow> (NoWaiter, s\<lparr>sv_queue := q\<rparr>)
      | (Some receiver, q) \<Rightarrow>
          (case produce_order pkg q of
             (Inl e, q') \<Rightarrow> (NoOrder e, s\<lparr>sv_queue := q'\<rparr>)
           | (Inr _, q') \<Rightarrow> await_reply peers receiver (s\<lparr>sv_queue := q'\<rparr>)))"

text \<open>What the front ends do after a failure: unregister, and mostly also take the order back.\<close>

definition unregister :: "uni_id \<Rightarrow> server \<Rightarrow> server" where
  "unregister uid s = s\<lparr>sv_queue := unregister_waiter uid (sv_queue s)\<rparr>"

definition abandon :: "uni_id \<Rightarrow> server \<Rightarrow> server" where
  "abandon uid s = s\<lparr>sv_queue := snd (remove_order uid (unregister_waiter uid (sv_queue s)))\<rparr>"

section \<open>The porter as a peer\<close>

definition porter_turn :: "server_env \<Rightarrow> server \<Rightarrow> server" where
  "porter_turn E s =
     (case consume_order (sv_queue s) of
        (Inr (Some pkg), q) \<Rightarrow>
          (let (_, w, q') = process_package (ev_store E) (timestamp s) pkg (sv_store s) q in
           s\<lparr>sv_store := w, sv_queue := q'\<rparr>)
      | (_, q) \<Rightarrow> s\<lparr>sv_queue := q\<rparr>)"

section \<open>Idle servers\<close>

text \<open>No request is under way, no call is going to fail, and the tables are well-formed.\<close>

definition queue_idle :: "convey_queue \<Rightarrow> bool" where
  "queue_idle q \<longleftrightarrow> convey_ok q \<and> order_queue q = [] \<and> waiters q = [] \<and>
     \<not> queue_poisoned q \<and> \<not> waiters_poisoned q"

text \<open>A name as the UUID generator makes it: text that survives the way through the protocol.\<close>

definition plain_name :: "string \<Rightarrow> bool" where
  "plain_name n \<longleftrightarrow> n \<noteq> [] \<and> (\<forall>c\<in>set n. c \<noteq> CHR 0x00 \<and> char_byte c < 0x80)"

lemma char_byte_nul [simp]: "char_byte c = 0 \<longleftrightarrow> c = CHR 0x00"
proof -
  have "char_byte (CHR 0x00) = 0" by code_simp
  then show ?thesis by (metis byte_char_char_byte)
qed

lemma plain_name_order: "plain_name n \<Longrightarrow> order_name (as_bytes n) = Some n"
proof -
  assume n: "plain_name n"
  have "0 \<notin> char_byte ` set n"
  proof
    assume "0 \<in> char_byte ` set n"
    then obtain c where "c \<in> set n" "char_byte c = 0" by (metis imageE)
    with n show False by (simp add: plain_name_def)
  qed
  then have "until_nul (as_bytes n) = as_bytes n" by (intro until_nul_free) (simp add: as_bytes_def)
  moreover have "utf8_valid (as_bytes n)"
    using n by (intro utf8_valid_ascii) (auto simp: as_bytes_def plain_name_def)
  moreover have "as_bytes n \<noteq> []" using n by (simp add: as_bytes_def plain_name_def)
  ultimately show ?thesis by (simp add: order_name_def from_utf8_def)
qed

lemma map_of_Nil_iff: "map_of xs = Map.empty \<longleftrightarrow> xs = []"
  by (cases xs) auto

text \<open>The porter's turn then executes the order and answers it.\<close>

lemma porter_turn_executes:
  assumes "store_inv (ev_store E) (sv_store s)" and "convey_ok (sv_queue s)"
    and "\<not> queue_poisoned (sv_queue s)" and "\<not> waiters_poisoned (sv_queue s)"
    and "order_queue (sv_queue s) = [pkg]" and "waiters (sv_queue s) = [(pk_uni_id pkg, we)]"
    and "order_name (ct_identifier (pk_content pkg)) = Some n"
    and "pk_behavior pkg = PutFile \<Longrightarrow>
      admits (ev_store E) (snd (fresh_uuid (ev_store E) (sv_store s))) (ct_data (pk_content pkg))"
  shows "\<exists>w q p. porter_turn E s = s\<lparr>sv_store := w, sv_queue := q\<rparr> \<and> store_inv (ev_store E) w \<and> queue_idle q \<and>
    chans q ! we_sender we = Sent p \<and> ct_identifier (pk_content p) = ct_identifier (pk_content pkg) \<and>
    ((pk_status p, ct_data (pk_content p)), view (ev_store E) w) =
      order_spec (pk_behavior pkg) n (ct_data (pk_content pkg)) (view (ev_store E) (sv_store s))"
proof -
  let ?q = "(sv_queue s)\<lparr>order_queue := []\<rparr>"
  have ok: "convey_ok ?q" and wp: "\<not> waiters_poisoned ?q"
    and reg: "map_of (waiters ?q) (pk_uni_id pkg) = Some we"
    using assms(2,4,6) by (simp_all add: convey_ok_def)
  obtain w q p where w: "process_package (ev_store E) (timestamp s) pkg (sv_store s) ?q = (Inr (), w, q)"
    "store_inv (ev_store E) w"
    "((pk_status p, ct_data (pk_content p)), view (ev_store E) w) =
      order_spec (pk_behavior pkg) n (ct_data (pk_content pkg)) (view (ev_store E) (sv_store s))"
    "chans q ! we_sender we = Sent p" "ct_identifier (pk_content p) = ct_identifier (pk_content pkg)"
    "map_of (waiters q) = (map_of (waiters ?q))(pk_uni_id pkg := None)"
    using worker_executes [OF assms(1) ok wp assms(7,8) reg, where now = "timestamp s"] by blast
  have q: "q = snd (snd (process_package (ev_store E) (timestamp s) pkg (sv_store s) ?q))" using w(1) by simp
  have "map_of (waiters q) = Map.empty" unfolding w(6) using assms(6) by (auto simp: fun_eq_iff)
  then have "waiters q = []" by (simp only: map_of_Nil_iff)
  moreover have "convey_ok q" "order_queue q = []" "\<not> queue_poisoned q" "\<not> waiters_poisoned q"
    unfolding q using ok assms(3,4) by (simp_all add: process_package_queue)
  ultimately have "queue_idle q" by (simp add: queue_idle_def)
  moreover have "porter_turn E s = s\<lparr>sv_store := w, sv_queue := q\<rparr>"
    using assms(3,5) w(1) by (simp add: porter_turn_def consume_order_def)
  ultimately show ?thesis using w by blast
qed

text \<open>On an idle server with the porter as its only peer, an exchange executes the order, returns its answer,
  and leaves the server idle.\<close>

lemma exchange_executes:
  assumes inv: "store_inv (ev_store E) (sv_store s)" and idle: "queue_idle (sv_queue s)"
    and name: "order_name (ct_identifier (pk_content pkg)) = Some n"
    and adm: "pk_behavior pkg = PutFile \<Longrightarrow>
      admits (ev_store E) (snd (fresh_uuid (ev_store E) (sv_store s))) (ct_data (pk_content pkg))"
  shows "\<exists>w q p. exchange (porter_turn E) pkg s = (Answer p, s\<lparr>sv_store := w, sv_queue := q\<rparr>) \<and>
    store_inv (ev_store E) w \<and> queue_idle q \<and> ct_identifier (pk_content p) = ct_identifier (pk_content pkg) \<and>
    ((pk_status p, ct_data (pk_content p)), view (ev_store E) w) =
      order_spec (pk_behavior pkg) n (ct_data (pk_content pkg)) (view (ev_store E) (sv_store s))"
proof -
  let ?u = "pk_uni_id pkg" and ?q0 = "sv_queue s"
  let ?we = "\<lparr>we_sender = length (chans ?q0), we_created_at = sv_now s\<rparr>"
  let ?q1 = "?q0\<lparr>waiters := [(?u, ?we)], chans := chans ?q0 @ [Waiting]\<rparr>"
  have r: "register_waiter (sv_now s) ?u ?q0 = (Some (length (chans ?q0)), ?q1)"
    using idle by (simp add: queue_idle_def register_waiter_def hm_insert_def hm_remove_def Let_def)
  have ok1: "convey_ok ?q1"
    using idle register_waiter_ok [of ?q0 "sv_now s" ?u] r by (simp add: queue_idle_def)
  obtain q2 where p: "produce_order pkg ?q1 = (Inr (), q2)"
    and q2: "convey_ok q2" "order_queue q2 = [pkg]" "waiters q2 = [(?u, ?we)]"
      "\<not> queue_poisoned q2" "\<not> waiters_poisoned q2"
    using idle produce_order_ok [OF ok1, of pkg]
    by (simp add: queue_idle_def produce_order_def push_order_def notify_orders_def
        ORDER_QUEUE_CAPACITY_def)
  let ?s = "s\<lparr>sv_queue := q2\<rparr>"
  have "\<exists>w q p. porter_turn E ?s = ?s\<lparr>sv_store := w, sv_queue := q\<rparr> \<and> store_inv (ev_store E) w \<and>
    queue_idle q \<and> chans q ! we_sender ?we = Sent p \<and>
    ct_identifier (pk_content p) = ct_identifier (pk_content pkg) \<and>
    ((pk_status p, ct_data (pk_content p)), view (ev_store E) w) =
      order_spec (pk_behavior pkg) n (ct_data (pk_content pkg)) (view (ev_store E) (sv_store ?s))"
    by (rule porter_turn_executes [OF _ _ _ _ _ _ name]) (use inv adm q2 in simp_all)
  then obtain w q a where t: "porter_turn E ?s = ?s\<lparr>sv_store := w, sv_queue := q\<rparr>"
    "store_inv (ev_store E) w" "queue_idle q" "chans q ! length (chans ?q0) = Sent a"
    "ct_identifier (pk_content a) = ct_identifier (pk_content pkg)"
    "((pk_status a, ct_data (pk_content a)), view (ev_store E) w) =
      order_spec (pk_behavior pkg) n (ct_data (pk_content pkg)) (view (ev_store E) (sv_store s))"
    by auto
  have "exchange (porter_turn E) pkg s = (Answer a, s\<lparr>sv_store := w, sv_queue := q\<rparr>)"
    using t(1,4) by (simp add: exchange_def r p await_reply_def Let_def)
  with t show ?thesis by blast
qed

section \<open>The objects a server holds\<close>

text \<open>The content of a key: that of its internal name in the store.\<close>

definition object_map :: "server_env \<Rightarrow> server \<Rightarrow> string \<times> string \<Rightarrow> byte list option" where
  "object_map E s bk =
     Option.bind (sv_mapper s) (\<lambda>m. Option.bind (mapping_of m bk) (view (ev_store E) (sv_store s)))"

lemma object_map_Some: "sv_mapper s = Some m \<Longrightarrow>
  object_map E s bk = Option.bind (mapping_of m bk) (view (ev_store E) (sv_store s))"
  by (simp add: object_map_def)

text \<open>A key is bound when the mapper has an internal name for it.\<close>

definition bound :: "server \<Rightarrow> string \<times> string \<Rightarrow> bool" where
  "bound s bk \<longleftrightarrow> (\<exists>m. sv_mapper s = Some m \<and> mapping_of m bk \<noteq> None)"

definition uuids_fresh :: "server_env \<Rightarrow> server \<Rightarrow> bool" where
  "uuids_fresh E s \<longleftrightarrow> inj_on (ev_uuid E) {..<ev_horizon E} \<and>
     (\<forall>k. sv_draws s \<le> k \<and> k < ev_horizon E \<longrightarrow>
        plain_name (ev_uuid E k) \<and> view (ev_store E) (sv_store s) (ev_uuid E k) = None \<and>
        (\<forall>m. sv_mapper s = Some m \<longrightarrow> ev_uuid E k \<notin> ran (mapping_of m)))"

definition server_ok :: "server_env \<Rightarrow> server \<Rightarrow> bool" where
  "server_ok E s \<longleftrightarrow> store_inv (ev_store E) (sv_store s) \<and> queue_idle (sv_queue s) \<and> uuids_fresh E s \<and>
     (\<exists>m. sv_mapper s = Some m \<and> mapper_inv m \<and> (\<forall>n\<in>ran (mapping_of m). plain_name n))"

text \<open>Data that may be stored: as for the store, with the identifier that the worker draws first.\<close>

definition server_admits :: "server_env \<Rightarrow> server \<Rightarrow> byte list \<Rightarrow> bool" where
  "server_admits E s d \<longleftrightarrow> admits (ev_store E) (snd (fresh_uuid (ev_store E) (sv_store s))) d"

lemma server_ok_draws:
  "server_ok E s \<Longrightarrow> sv_draws s \<le> n \<Longrightarrow> server_ok E (s\<lparr>sv_draws := n\<rparr>)"
  by (auto simp: server_ok_def uuids_fresh_def)

lemma object_map_draws [simp]: "object_map E (s\<lparr>sv_draws := n\<rparr>) = object_map E s"
  by (simp add: object_map_def fun_eq_iff)

text \<open>Replacing the mapper by one with the same names changes nothing.\<close>

lemma server_ok_mapper:
  assumes "server_ok E s" and "sv_mapper s = Some m" and "mapper_inv m'" and "mapping_of m' = mapping_of m"
  shows "server_ok E (s\<lparr>sv_mapper := Some m'\<rparr>) \<and> object_map E (s\<lparr>sv_mapper := Some m'\<rparr>) = object_map E s"
  using assms(1-3) unfolding server_ok_def uuids_fresh_def object_map_def by (simp add: assms(4))

lemma with_mapper_resolve:
  assumes "server_ok E s" and "sv_mapper s = Some m"
  shows "\<exists>s'. with_mapper (mapper_resolve b k) s = (Mapped (mapping_of m (b, k)), s') \<and> server_ok E s' \<and>
    object_map E s' = object_map E s \<and> sv_store s' = sv_store s \<and> sv_draws s' = sv_draws s \<and>
    (\<exists>m'. sv_mapper s' = Some m' \<and> mapping_of m' = mapping_of m)"
proof -
  have "mapper_inv m" using assms by (auto simp: server_ok_def)
  then obtain m' where m': "mapper_resolve b k m = (Some (mapping_of m (b, k)), m')" "mapper_inv m'"
    "mapping_of m' = mapping_of m"
    using bm_index.resolve_looks_up by blast
  with server_ok_mapper [OF assms m'(2,3)] assms(2) show ?thesis
    by (simp add: with_mapper_def)
qed

text \<open>A step that may store under, or register, the identifiers it draws keeps the server well-formed.\<close>

lemma server_ok_step:
  assumes ok: "server_ok E s" and m: "sv_mapper s = Some m"
    and w: "store_inv (ev_store E) w" and q: "queue_idle q" and m': "mapper_inv m'"
    and n: "sv_draws s \<le> n" "n \<le> ev_horizon E"
    and stored: "\<And>x. view (ev_store E) (sv_store s) x = None \<Longrightarrow> x \<notin> ev_uuid E ` {sv_draws s..<n} \<Longrightarrow>
      view (ev_store E) w x = None"
    and named: "ran (mapping_of m') \<subseteq> ran (mapping_of m) \<union> ev_uuid E ` {sv_draws s..<n}"
    and s': "sv_store s' = w" "sv_queue s' = q" "sv_mapper s' = Some m'" "sv_draws s' = n"
  shows "server_ok E s'"
proof -
  have inj: "inj_on (ev_uuid E) {..<ev_horizon E}"
    and fresh: "\<And>k. sv_draws s \<le> k \<Longrightarrow> k < ev_horizon E \<Longrightarrow> plain_name (ev_uuid E k) \<and>
      view (ev_store E) (sv_store s) (ev_uuid E k) = None \<and> ev_uuid E k \<notin> ran (mapping_of m)"
    using ok m by (auto simp: server_ok_def uuids_fresh_def)
  have new: "ev_uuid E k \<notin> ev_uuid E ` {sv_draws s..<n}" if "n \<le> k" "k < ev_horizon E" for k
  proof
    assume "ev_uuid E k \<in> ev_uuid E ` {sv_draws s..<n}"
    then obtain j where "j < n" "ev_uuid E k = ev_uuid E j" by auto
    with inj_onD [OF inj, of k j] that n(2) show False by simp
  qed
  have "plain_name x" if "x \<in> ran (mapping_of m')" for x
  proof (cases "x \<in> ran (mapping_of m)")
    case True
    then show ?thesis using ok m by (auto simp: server_ok_def)
  next
    case False
    with that named obtain j where "x = ev_uuid E j" "sv_draws s \<le> j" "j < n" by auto
    with fresh [of j] n(2) show ?thesis by simp
  qed
  moreover have "plain_name (ev_uuid E k) \<and> view (ev_store E) w (ev_uuid E k) = None \<and>
      ev_uuid E k \<notin> ran (mapping_of m')" if "n \<le> k" "k < ev_horizon E" for k
    using fresh [of k] new [OF that] stored [of "ev_uuid E k"] named that n(1) by (auto dest: subsetD)
  ultimately show ?thesis
    using w q m' inj s' by (auto simp: server_ok_def uuids_fresh_def)
qed

section \<open>A concrete server\<close>

definition demo_server_env :: server_env where
  "demo_server_env = \<lparr>ev_store = demo_env, ev_auth = demo_auth_env, ev_manager = demo_manager,
     ev_crc = demo_crc, ev_max_payload = 0x4000000, ev_uuid = (\<lambda>k. CHR ''u'' # replicate k (CHR ''v'')),
     ev_horizon = 10\<rparr>"

definition demo_mapper :: bucket_mapper where
  "demo_mapper = \<lparr>mp_rows = [\<lparr>mp_bucket = ''bkt'', mp_key = ''x.txt'', mp_internal = ''c''\<rparr>], mp_faults = []\<rparr>"

definition demo_server :: server where
  "demo_server = \<lparr>sv_store = demo_store [], sv_queue = convey_queue_new, sv_mapper = Some demo_mapper,
     sv_auth = demo_auth, sv_limiter = handshake_rate_limiter, sv_now = 0, sv_draws = 0\<rparr>"

lemma demo_server_sel [simp]:
  "ev_store demo_server_env = demo_env" "ev_horizon demo_server_env = 10"
  "sv_store demo_server = demo_store []" "sv_mapper demo_server = Some demo_mapper" "sv_draws demo_server = 0"
  "mapping_of demo_mapper = [(''bkt'', ''x.txt'') \<mapsto> ''c'']"
  by (simp_all add: demo_server_env_def demo_server_def mapping_of_def demo_mapper_def)

lemma demo_server_ok: "server_ok demo_server_env demo_server"
proof -
  have "store_inv demo_env (demo_store [])"
    using demo_full_ok [of "[]"] demo_lawful by (simp add: store_inv_def)
  moreover have "queue_idle (sv_queue demo_server)"
    using sys_init_ok by (simp add: queue_idle_def demo_server_def sys_ok_def sys_init_def)
      (simp add: convey_queue_new_def)
  moreover have "mapper_inv demo_mapper"
    by (simp add: mapper_inv_def mapper_ok_def mp_quiet_def demo_mapper_def)
  moreover have "plain_name ''c''" by (simp add: plain_name_def) code_simp
  moreover have "plain_name (CHR ''u'' # replicate k (CHR ''v''))" for k
  proof -
    have "char_byte (CHR ''u'') < 0x80" "char_byte (CHR ''v'') < 0x80" by code_simp+
    then show ?thesis by (simp add: plain_name_def)
  qed
  moreover have "inj_on (\<lambda>k. CHR ''u'' # replicate k (CHR ''v'')) {..<10}"
    by (auto simp: inj_on_def)
  ultimately show ?thesis
    by (auto simp: server_ok_def uuids_fresh_def demo_full_view) (auto simp: demo_server_env_def)
qed

lemma demo_server_admits: "server_admits demo_server_env demo_server d"
  unfolding server_admits_def demo_server_sel by (rule demo_admits) (simp add: fresh_uuid_def)

lemma demo_object_map: "object_map demo_server_env demo_server = [(''bkt'', ''x.txt'') \<mapsto> [4]]"
  by (auto simp: object_map_def demo_full_view fun_eq_iff)

end
