(* ===== verification/Lina_S3.thy ===== *)
theory Lina_S3
  imports Lina_Server
begin

text \<open>
  The S3-compatible front end, \<^verbatim>\<open>linastore-server/src/front/s3_service.rs\<close>: paths and queries, the XML
  bodies, and the handler of a request with its calls to the mapper and its exchange with the workers.
  A request is its method, its URI as hyper prints it, and its body, if that can be read.
\<close>

section \<open>HTTP messages\<close>

datatype http_method = GET | HEAD | PUT | DELETE | OtherMethod

record http_request =
  rq_method :: http_method
  rq_uri :: string
  rq_body :: "byte list option"

record http_response =
  rs_status :: nat
  rs_headers :: "(string \<times> string) list"
  rs_body :: "byte list"

section \<open>XML\<close>

definition S3_XML_NAMESPACE :: string where
  "S3_XML_NAMESPACE = ''http://s3.amazonaws.com/doc/2006-03-01/''"

text \<open>\<open>xml_decl\<close> is the first line of the raw string literals, with its line break.\<close>

definition xml_decl :: string where
  \<open>xml_decl = ''<?xml version="1.0" encoding="UTF-8"?>'' @ [CHR 0x0A]\<close>

definition escape_xml :: "string \<Rightarrow> string" where
  "escape_xml s =
     replace_str (CHR 0x22) ''&quot;''
       (replace_str (CHR 0x27) ''&apos;''
          (replace_str (CHR ''>'') ''&gt;''
             (replace_str (CHR ''<'') ''&lt;''
                (replace_str (CHR ''&'') ''&amp;'' s))))"

definition s3_error_xml :: "string \<Rightarrow> string \<Rightarrow> string \<Rightarrow> string" where
  "s3_error_xml code message resource =
     xml_decl @ ''<Error><Code>'' @ code @ ''</Code><Message>'' @ message @ ''</Message><Resource>'' @
     resource @ ''</Resource></Error>''"

definition list_buckets_xml :: "string list \<Rightarrow> string" where
  \<open>list_buckets_xml buckets =
     (let inner = concat (map (\<lambda>b. ''<Bucket><Name>'' @ escape_xml b @ ''</Name></Bucket>'') buckets) in
      xml_decl @ ''<ListAllMyBucketsResult xmlns="'' @ S3_XML_NAMESPACE @ ''"><Buckets>'' @ inner @
      ''</Buckets></ListAllMyBucketsResult>'')\<close>

definition list_objects_xml :: "(string \<times> string) list \<Rightarrow> string \<Rightarrow> string \<Rightarrow> u32 \<Rightarrow> bool \<Rightarrow> string" where
  \<open>list_objects_xml fs bucket prefix max_keys is_truncated =
     (let contents = concat (map (\<lambda>(key, _).
            ''<Contents><Key>'' @ escape_xml key @
            ''</Key><Size>0</Size><StorageClass>STANDARD</StorageClass></Contents>'') fs) in
      xml_decl @ ''<ListBucketResult xmlns="'' @ S3_XML_NAMESPACE @ ''"><IsTruncated>'' @
      (if is_truncated then ''true'' else ''false'') @ ''</IsTruncated><Name>'' @ escape_xml bucket @
      ''</Name><Prefix>'' @ escape_xml prefix @ ''</Prefix><MaxKeys>'' @ nat_str (unat max_keys) @
      ''</MaxKeys><KeyCount>'' @ nat_str (length fs) @ ''</KeyCount>'' @ contents @ ''</ListBucketResult>'')\<close>

section \<open>Requests and responses\<close>

definition s3_mime_type :: "string \<Rightarrow> string" where
  "s3_mime_type filename =
     (case path_extension filename of
        None \<Rightarrow> ''application/octet-stream''
      | Some x \<Rightarrow>
          if x = ''jpeg'' \<or> x = ''jpg'' then ''image/jpeg''
          else if x = ''png'' then ''image/png''
          else if x = ''mp4'' then ''video/mp4''
          else if x = ''pdf'' then ''application/pdf''
          else if x = ''txt'' then ''text/plain''
          else if x = ''json'' then ''application/json''
          else if x = ''html'' then ''text/html''
          else ''application/octet-stream'')"

definition parse_s3_path :: "string \<Rightarrow> string option \<times> string option" where
  "parse_s3_path path =
     (let path = (case strip_prefix path ''/'' of None \<Rightarrow> path | Some p \<Rightarrow> p) in
      if path = [] then (None, None)
      else let (bucket, key) = splitn2 (CHR ''/'') path in (Some bucket, key))"

definition build_response :: "nat \<Rightarrow> string \<Rightarrow> string \<Rightarrow> http_response" where
  "build_response st body content_type =
     \<lparr>rs_status = st,
      rs_headers = [(''Content-Type'', content_type), (''Content-Length'', nat_str (length body))],
      rs_body = as_bytes body\<rparr>"

definition build_empty_response :: "nat \<Rightarrow> http_response" where
  "build_empty_response st = \<lparr>rs_status = st, rs_headers = [], rs_body = []\<rparr>"

text \<open>The header \<^verbatim>\<open>ETag\<close>: a fresh UUID in its simple form, without hyphens, in quotes.\<close>

definition etag :: "server_env \<Rightarrow> server \<Rightarrow> (string \<times> string) \<times> server" where
  "etag E s =
     (let (u, s') = new_v4 E s in
      ((''ETag'', [CHR 0x22] @ filter (\<lambda>c. c \<noteq> CHR ''-'') u @ [CHR 0x22]), s'))"

definition process_through_queue ::
  "server_env \<Rightarrow> (server \<Rightarrow> server) \<Rightarrow> behavior \<Rightarrow> string \<Rightarrow> byte list \<Rightarrow> server \<Rightarrow>
   (status + package) \<times> server" where
  "process_through_queue E peers behavior identifier data s =
     (let (uuid, s) = new_v4 E s;
          package = package_new_with_id uuid (timestamp s);
          package = package\<lparr>pk_behavior := behavior, pk_content := (pk_content package)
            \<lparr>ct_identifier := as_bytes identifier, ct_data := data\<rparr>\<rparr>
      in case exchange peers package s of
           (NoWaiter, s') \<Rightarrow> (Inl InternalError, s')
         | (NoOrder e, s') \<Rightarrow> (Inl InternalError, unregister uuid s')
         | (Answer pkg, s') \<Rightarrow>
             (if pk_status pkg = Success then Inr pkg else Inl (pk_status pkg), s')
         | (ChannelClosed, s') \<Rightarrow> (Inl InternalError, abandon uuid s')
         | (TimedOut, s') \<Rightarrow> (Inl InternalError, abandon uuid s'))"

text \<open>\<^verbatim>\<open>m.resolve(..).await.unwrap_or(None)\<close>, with no name when there is no mapper.\<close>

definition resolve_or_none :: "string \<Rightarrow> string \<Rightarrow> server \<Rightarrow> string option \<times> server" where
  "resolve_or_none bucket key s =
     (case with_mapper (mapper_resolve bucket key) s of
        (Mapped r, s') \<Rightarrow> (r, s')
      | (_, s') \<Rightarrow> (None, s'))"

definition no_such_key :: "string \<Rightarrow> http_response" where
  "no_such_key key =
     build_response 404 (s3_error_xml ''NoSuchKey'' ''The specified key does not exist.'' key) ''application/xml''"

section \<open>The handlers of the methods\<close>

definition s3_list_buckets :: "server \<Rightarrow> http_response \<times> server" where
  "s3_list_buckets s =
     (case with_mapper list_buckets s of
        (Mapped bs, s') \<Rightarrow> (build_response 200 (list_buckets_xml bs) ''application/xml'', s')
      | (_, s') \<Rightarrow> (build_response 200 (list_buckets_xml [''linastore'']) ''application/xml'', s'))"

definition query_prefix :: "string \<Rightarrow> string" where
  "query_prefix query =
     (case find_map (\<lambda>p. strip_prefix p ''prefix='') (split_on (CHR ''&'') query) of
        None \<Rightarrow> [] | Some p \<Rightarrow> p)"

definition query_max_keys :: "string \<Rightarrow> u32" where
  "query_max_keys query =
     (case find_map (\<lambda>p. Option.bind (strip_prefix p ''max-keys='') (parse_unsigned 32))
             (split_on (CHR ''&'') query) of
        None \<Rightarrow> 1000 | Some n \<Rightarrow> word_of_nat n)"

definition s3_list_objects :: "string \<Rightarrow> string \<Rightarrow> server \<Rightarrow> http_response \<times> server" where
  "s3_list_objects bucket query s =
     (let prefix = query_prefix query;
          max_keys = query_max_keys query;
          (fs, s') = (case with_mapper (list_bucket bucket prefix) s of
                        (Mapped r, s') \<Rightarrow> (r, s')
                      | (_, s') \<Rightarrow> ([], s'));
          total = (word_of_nat (length fs) :: u32);
          is_truncated = total > max_keys;
          shown = take (unat max_keys) fs
      in (build_response 200 (list_objects_xml shown bucket prefix max_keys is_truncated) ''application/xml'', s'))"

definition s3_get_object ::
  "server_env \<Rightarrow> (server \<Rightarrow> server) \<Rightarrow> string \<Rightarrow> string \<Rightarrow> server \<Rightarrow> http_response \<times> server" where
  "s3_get_object E peers bucket key s =
     (case resolve_or_none bucket key s of
        (None, s1) \<Rightarrow> (no_such_key key, s1)
      | (Some name, s1) \<Rightarrow>
          (case process_through_queue E peers GetFile name [] s1 of
             (Inr pkg, s2) \<Rightarrow>
               (let (tag, s3) = etag E s2 in
                (\<lparr>rs_status = 200,
                  rs_headers = [(''Content-Type'', s3_mime_type key),
                                (''Content-Length'', nat_str (length (ct_data (pk_content pkg)))), tag],
                  rs_body = ct_data (pk_content pkg)\<rparr>, s3))
           | (Inl st, s2) \<Rightarrow>
               if st = FileNotFound then (no_such_key key, s2)
               else (build_response 500 (s3_error_xml ''InternalError'' ''Internal server error'' key)
                       ''application/xml'', s2)))"

definition s3_head_object ::
  "server_env \<Rightarrow> (server \<Rightarrow> server) \<Rightarrow> string option \<Rightarrow> string \<Rightarrow> server \<Rightarrow> http_response \<times> server" where
  "s3_head_object E peers bucket key s =
     (case (case bucket of None \<Rightarrow> (None, s) | Some b \<Rightarrow> resolve_or_none b key s) of
        (None, s1) \<Rightarrow> (build_empty_response 404, s1)
      | (Some name, s1) \<Rightarrow>
          (case process_through_queue E peers GetFile name [] s1 of
             (Inr pkg, s2) \<Rightarrow>
               (let (tag, s3) = etag E s2 in
                (\<lparr>rs_status = 200,
                  rs_headers = [(''Content-Type'', s3_mime_type key),
                                (''Content-Length'', nat_str (length (ct_data (pk_content pkg)))), tag],
                  rs_body = []\<rparr>, s3))
           | (Inl _, s2) \<Rightarrow> (build_empty_response 404, s2)))"

definition s3_put_object ::
  "server_env \<Rightarrow> (server \<Rightarrow> server) \<Rightarrow> string option \<Rightarrow> string \<Rightarrow> byte list option \<Rightarrow> server \<Rightarrow>
   http_response \<times> server" where
  "s3_put_object E peers bucket key body s =
     (case bucket of
        None \<Rightarrow> (build_response 400 (s3_error_xml ''BadRequest'' ''Bucket name required'' []) ''application/xml'', s)
      | Some b \<Rightarrow>
          (case body of
             None \<Rightarrow> (build_response 400 (s3_error_xml ''BadRequest'' ''Failed to read request body'' key)
                       ''application/xml'', s)
           | Some body_bytes \<Rightarrow>
               (let (internal_name, s1) = new_v4 E s;
                    (_, s2) = with_mapper (mapper_register b key internal_name) s1
                in case process_through_queue E peers PutFile internal_name body_bytes s2 of
                     (Inr _, s3) \<Rightarrow>
                       (let (tag, s4) = etag E s3 in
                        (\<lparr>rs_status = 200, rs_headers = [tag], rs_body = []\<rparr>, s4))
                   | (Inl _, s3) \<Rightarrow>
                       (build_response 500 (s3_error_xml ''InternalError'' ''Failed to store object'' key)
                          ''application/xml'', s3))))"

definition s3_delete_object ::
  "server_env \<Rightarrow> (server \<Rightarrow> server) \<Rightarrow> string \<Rightarrow> string \<Rightarrow> server \<Rightarrow> server" where
  "s3_delete_object E peers bucket key s =
     (case resolve_or_none bucket key s of
        (None, s1) \<Rightarrow> s1
      | (Some name, s1) \<Rightarrow>
          (let (_, s2) = with_mapper (mapper_delete bucket key) s1 in
           snd (process_through_queue E peers DeleteFile name [] s2)))"

definition handle_s3 ::
  "server_env \<Rightarrow> (server \<Rightarrow> server) \<Rightarrow> http_request \<Rightarrow> server \<Rightarrow> http_response \<times> server" where
  "handle_s3 E peers req s =
     (let parts = split_on (CHR ''?'') (rq_uri req);
          path = hd parts;
          query = (if length parts > 1 then parts ! 1 else []);
          (bucket, key) = parse_s3_path path
      in case rq_method req of
           GET \<Rightarrow>
             (case bucket of
                None \<Rightarrow> s3_list_buckets s
              | Some b \<Rightarrow>
                  (case key of
                     None \<Rightarrow> s3_list_objects b query s
                   | Some k \<Rightarrow> s3_get_object E peers b k s))
         | HEAD \<Rightarrow>
             (case key of
                Some k \<Rightarrow> s3_head_object E peers bucket k s
              | None \<Rightarrow> (build_empty_response 400, s))
         | PUT \<Rightarrow>
             (case key of
                None \<Rightarrow> (build_response 200 [] ''application/xml'', s)
              | Some k \<Rightarrow> s3_put_object E peers bucket k (rq_body req) s)
         | DELETE \<Rightarrow>
             (case (bucket, key) of
                (Some b, Some k) \<Rightarrow> (build_empty_response 204, s3_delete_object E peers b k s)
              | _ \<Rightarrow> (build_empty_response 204, s))
         | OtherMethod \<Rightarrow>
             (build_response 405 (s3_error_xml ''MethodNotAllowed''
                ''The specified method is not allowed against this resource.'' path) ''application/xml'', s))"

section \<open>What a request does to the objects\<close>

text \<open>One exchange of the handlers, with the porter as the peer.\<close>

lemma process_through_queue_executes:
  assumes "server_ok E s" and "plain_name n" and "beh = PutFile \<Longrightarrow> server_admits E s d"
  shows "\<exists>st data p w q. process_through_queue E (porter_turn E) beh n d s =
      (if st = Success then Inr p else Inl st,
       s\<lparr>sv_draws := Suc (sv_draws s), sv_store := w, sv_queue := q\<rparr>) \<and>
    ct_data (pk_content p) = data \<and> store_inv (ev_store E) w \<and> queue_idle q \<and>
    ((st, data), view (ev_store E) w) = order_spec beh n d (view (ev_store E) (sv_store s))"
proof -
  let ?s = "s\<lparr>sv_draws := Suc (sv_draws s)\<rparr>"
  let ?u = "ev_uuid E (sv_draws s)"
  let ?p0 = "package_new_with_id ?u (timestamp ?s)"
  let ?p = "?p0\<lparr>pk_behavior := beh, pk_content := (pk_content ?p0)
      \<lparr>ct_identifier := as_bytes n, ct_data := d\<rparr>\<rparr>"
  have "\<exists>w q a. exchange (porter_turn E) ?p ?s = (Answer a, ?s\<lparr>sv_store := w, sv_queue := q\<rparr>) \<and>
    store_inv (ev_store E) w \<and> queue_idle q \<and>
    ct_identifier (pk_content a) = ct_identifier (pk_content ?p) \<and>
    ((pk_status a, ct_data (pk_content a)), view (ev_store E) w) =
      order_spec (pk_behavior ?p) n (ct_data (pk_content ?p)) (view (ev_store E) (sv_store ?s))"
    by (rule exchange_executes)
       (use assms plain_name_order in \<open>auto simp: server_ok_def server_admits_def package_new_with_id_def\<close>)
  then obtain w q a where x: "exchange (porter_turn E) ?p ?s = (Answer a, ?s\<lparr>sv_store := w, sv_queue := q\<rparr>)"
    "store_inv (ev_store E) w" "queue_idle q"
    "((pk_status a, ct_data (pk_content a)), view (ev_store E) w) =
      order_spec beh n d (view (ev_store E) (sv_store s))"
    by (auto simp: package_new_with_id_def)
  then have "process_through_queue E (porter_turn E) beh n d s =
      (if pk_status a = Success then Inr a else Inl (pk_status a), ?s\<lparr>sv_store := w, sv_queue := q\<rparr>)"
    by (simp add: process_through_queue_def new_v4_def Let_def)
  with x(2-4) show ?thesis by blast
qed

lemma resolve_or_none_server:
  assumes "server_ok E s" and "sv_mapper s = Some m"
  shows "\<exists>m'. resolve_or_none b k s = (mapping_of m (b, k), s\<lparr>sv_mapper := Some m'\<rparr>) \<and> mapper_inv m' \<and>
    mapping_of m' = mapping_of m"
proof -
  have "mapper_inv m" using assms by (auto simp: server_ok_def)
  then obtain m' where "mapper_resolve b k m = (Some (mapping_of m (b, k)), m')" "mapper_inv m'"
    "mapping_of m' = mapping_of m"
    using bm_index.resolve_looks_up by blast
  with assms(2) show ?thesis by (auto simp: resolve_or_none_def with_mapper_def)
qed

lemma s3_get_spec:
  assumes ok: "server_ok E s" and draws: "sv_draws s + 2 \<le> ev_horizon E"
  shows "\<exists>resp s'. s3_get_object E (porter_turn E) b k s = (resp, s') \<and> server_ok E s' \<and>
    object_map E s' = object_map E s \<and> bound s' = bound s \<and>
    (case object_map E s (b, k) of
       None \<Rightarrow> resp = no_such_key k
     | Some d \<Rightarrow> rs_status resp = 200 \<and> rs_body resp = d)"
proof -
  obtain m where m: "sv_mapper s = Some m" using ok by (auto simp: server_ok_def)
  obtain m' where r: "resolve_or_none b k s = (mapping_of m (b, k), s\<lparr>sv_mapper := Some m'\<rparr>)"
    "mapper_inv m'" "mapping_of m' = mapping_of m"
    using resolve_or_none_server [OF ok m] by blast
  let ?s1 = "s\<lparr>sv_mapper := Some m'\<rparr>"
  have ok1: "server_ok E ?s1" "object_map E ?s1 = object_map E s"
    using server_ok_mapper [OF ok m r(2,3)] by auto
  have b: "bound s' = bound s" if "sv_mapper s' = Some m'" for s'
    using m r(3) that by (simp add: bound_def fun_eq_iff)
  show ?thesis
  proof (cases "mapping_of m (b, k)")
    case None
    then show ?thesis using r(1) ok1 m b by (simp add: s3_get_object_def object_map_Some)
  next
    case (Some n)
    then have "plain_name n" using ok m by (auto simp: server_ok_def intro: ranI)
    from process_through_queue_executes [OF ok1(1) this, of GetFile "[]"] obtain st data p w q where x:
      "process_through_queue E (porter_turn E) GetFile n [] ?s1 =
        (if st = Success then Inr p else Inl st,
         ?s1\<lparr>sv_draws := Suc (sv_draws s), sv_store := w, sv_queue := q\<rparr>)"
      "ct_data (pk_content p) = data" "store_inv (ev_store E) w" "queue_idle q"
      "(st, data) = (case view (ev_store E) (sv_store s) n of None \<Rightarrow> (FileNotFound, [])
        | Some x \<Rightarrow> (Success, x))" "view (ev_store E) w = view (ev_store E) (sv_store s)"
      by auto
    have s2: "server_ok E s' \<and> object_map E s' = object_map E s"
      if "sv_draws s \<le> j" "j \<le> ev_horizon E" "sv_store s' = w" "sv_queue s' = q" "sv_mapper s' = Some m'"
        "sv_draws s' = j" for j s'
      using server_ok_step [OF ok m x(3,4) r(2), of j s'] that x(6) r(3) m
      by (auto simp: object_map_def intro!: ext)
    show ?thesis
    proof (cases "view (ev_store E) (sv_store s) n")
      case None
      then show ?thesis
        using Some r(1) x(1,5) s2 [of "Suc (sv_draws s)"
          "?s1\<lparr>sv_draws := Suc (sv_draws s), sv_store := w, sv_queue := q\<rparr>"] draws m b
        by (simp add: s3_get_object_def object_map_Some)
    next
      case (Some d)
      then show ?thesis
        using \<open>mapping_of m (b, k) = Some n\<close> r(1) x(1,2,5) draws m b
          s2 [of "Suc (Suc (sv_draws s))"
            "?s1\<lparr>sv_draws := Suc (sv_draws s), sv_store := w, sv_queue := q, sv_draws := Suc (Suc (sv_draws s))\<rparr>"]
        by (simp add: s3_get_object_def object_map_Some etag_def new_v4_def Let_def)
    qed
  qed
qed

lemma s3_put_spec:
  assumes ok: "server_ok E s" and draws: "sv_draws s + 3 \<le> ev_horizon E" and adm: "server_admits E s d"
  shows "\<exists>resp s'. s3_put_object E (porter_turn E) (Some b) k (Some d) s = (resp, s') \<and> server_ok E s' \<and>
    rs_status resp = 200 \<and> sv_draws s' = sv_draws s + 3 \<and> bound s' = (bound s)((b, k) := True) \<and>
    object_map E s' = (if bound s (b, k) then object_map E s else (object_map E s)((b, k) \<mapsto> d))"
proof -
  let ?n = "ev_uuid E (sv_draws s)"
  obtain m where m: "sv_mapper s = Some m" "mapper_inv m" using ok by (auto simp: server_ok_def)
  have fresh: "plain_name ?n" "view (ev_store E) (sv_store s) ?n = None" "?n \<notin> ran (mapping_of m)"
    using ok draws m(1) by (auto simp: server_ok_def uuids_fresh_def)
  obtain m' where r: "mapper_register b k ?n m = (Some (), m')" "mapper_inv m'"
    "mapping_of m' = (if mapping_of m (b, k) = None then (mapping_of m)((b, k) \<mapsto> ?n) else mapping_of m)"
    using bm_index.reg_first [OF m(2) fresh(3)] by blast
  have ran: "ran (mapping_of m') \<subseteq> ran (mapping_of m) \<union> {?n}"
    unfolding r(3) by (auto simp: ran_def)
  let ?s2 = "s\<lparr>sv_draws := Suc (sv_draws s), sv_mapper := Some m'\<rparr>"
  have s2: "server_ok E ?s2" "server_admits E ?s2 d"
  proof -
    show "server_ok E ?s2"
      by (rule server_ok_step [OF ok m(1) _ _ r(2), of "sv_store s" "sv_queue s" "Suc (sv_draws s)"])
         (use ok draws ran in \<open>auto simp: server_ok_def\<close>)
    show "server_admits E ?s2 d" using adm by (simp add: server_admits_def)
  qed
  from process_through_queue_executes [OF s2(1) fresh(1), of PutFile d] s2(2)
  obtain p w q where x: "process_through_queue E (porter_turn E) PutFile ?n d ?s2 =
      (Inr p, ?s2\<lparr>sv_draws := Suc (Suc (sv_draws s)), sv_store := w, sv_queue := q\<rparr>)"
    "store_inv (ev_store E) w" "queue_idle q"
    "view (ev_store E) w = (view (ev_store E) (sv_store s))(?n \<mapsto> d)"
    by auto
  let ?s3 = "?s2\<lparr>sv_draws := Suc (Suc (sv_draws s)), sv_store := w, sv_queue := q,
      sv_draws := Suc (Suc (Suc (sv_draws s)))\<rparr>"
  have "server_ok E ?s3"
    by (rule server_ok_step [OF ok m(1) x(2,3) r(2), of "sv_draws s + 3"])
       (use draws ran x(4) in \<open>auto simp: image_iff\<close>)
  moreover have "mapping_of m bk \<noteq> Some ?n" for bk using fresh(3) by (metis ranI)
  then have "object_map E ?s3 = (if bound s (b, k) then object_map E s else (object_map E s)((b, k) \<mapsto> d))"
    using m(1) x(4) fresh(2)
    by (auto simp: object_map_def bound_def r(3) fun_eq_iff bind_eq_None_conv
        split: if_splits Option.bind_splits)
  moreover have "bound ?s3 = (bound s)((b, k) := True)" using m(1) by (auto simp: bound_def r(3) fun_eq_iff)
  ultimately show ?thesis
    using m(1) r(1) x(1) by (simp add: s3_put_object_def with_mapper_def new_v4_def etag_def Let_def)
qed

lemma s3_delete_spec:
  assumes ok: "server_ok E s" and draws: "sv_draws s + 1 \<le> ev_horizon E"
  shows "server_ok E (s3_delete_object E (porter_turn E) b k s) \<and>
    object_map E (s3_delete_object E (porter_turn E) b k s) = (object_map E s)((b, k) := None) \<and>
    bound (s3_delete_object E (porter_turn E) b k s) = (bound s)((b, k) := False)"
proof -
  obtain m where m: "sv_mapper s = Some m" "mapper_inv m" using ok by (auto simp: server_ok_def)
  obtain m1 where r: "resolve_or_none b k s = (mapping_of m (b, k), s\<lparr>sv_mapper := Some m1\<rparr>)"
    "mapper_inv m1" "mapping_of m1 = mapping_of m"
    using resolve_or_none_server [OF ok m(1)] by blast
  show ?thesis
  proof (cases "mapping_of m (b, k)")
    case None
    with server_ok_mapper [OF ok m(1) r(2,3)] r m show ?thesis
      by (auto simp: s3_delete_object_def bound_def object_map_def fun_eq_iff)
  next
    case (Some n)
    obtain m2 where d: "mapper_delete b k m1 = (Some (), m2)" "mapper_inv m2"
      "mapping_of m2 = (mapping_of m)((b, k) := None)"
      using bm_index.del_removes [OF r(2), of b k] r(3) by auto
    let ?s2 = "s\<lparr>sv_mapper := Some m2\<rparr>"
    have ran: "ran (mapping_of m2) \<subseteq> ran (mapping_of m)" unfolding d(3) by (auto simp: ran_def)
    have ok2: "server_ok E ?s2"
      by (rule server_ok_step [OF ok m(1) _ _ d(2), of "sv_store s" "sv_queue s" "sv_draws s"])
         (use ok draws ran in \<open>auto simp: server_ok_def\<close>)
    have "plain_name n" using ok m Some by (auto simp: server_ok_def intro: ranI)
    from process_through_queue_executes [OF ok2 this, of DeleteFile "[]"] obtain x w q where x:
      "process_through_queue E (porter_turn E) DeleteFile n [] ?s2 =
        (x, ?s2\<lparr>sv_draws := Suc (sv_draws s), sv_store := w, sv_queue := q\<rparr>)"
      "store_inv (ev_store E) w" "queue_idle q"
      "view (ev_store E) w = (view (ev_store E) (sv_store s))(n := None)"
      by auto
    let ?s3 = "?s2\<lparr>sv_draws := Suc (sv_draws s), sv_store := w, sv_queue := q\<rparr>"
    have "server_ok E ?s3"
      by (rule server_ok_step [OF ok m(1) x(2,3) d(2), of "Suc (sv_draws s)"])
         (use draws ran x(4) in auto)
    moreover have "mapping_of m bk \<noteq> Some n" if "bk \<noteq> (b, k)" for bk
      using mapping_inj [of m bk n "(b, k)"] m(2) Some that by (auto simp: mapper_inv_def)
    then have "object_map E ?s3 = (object_map E s)((b, k) := None)"
      using m(1) x(4) by (auto simp: object_map_def d(3) fun_eq_iff split: Option.bind_splits)
    moreover have "s3_delete_object E (porter_turn E) b k s = ?s3"
      using r(1) Some d(1) x(1) by (simp add: s3_delete_object_def with_mapper_def)
    ultimately show ?thesis using m(1) by (auto simp: bound_def d(3) fun_eq_iff)
  qed
qed

lemma s3_uri:
  assumes "b \<noteq> []" and "CHR ''/'' \<notin> set b" and "CHR ''?'' \<notin> set (b @ k)"
  shows "split_on (CHR ''?'') (''/'' @ b @ ''/'' @ k) = [''/'' @ b @ ''/'' @ k]"
    and "parse_s3_path (''/'' @ b @ ''/'' @ k) = (Some b, Some k)"
  using assms split_on_free [of "CHR ''?''" "''/'' @ b @ ''/'' @ k"] splitn2_append [of "CHR ''/''" b k]
  by (auto simp: parse_s3_path_def strip_prefix_def)

section \<open>Escaping\<close>

text \<open>The five replacements in a row are one pass over the characters, because only the first inserts or
  looks for an ampersand.\<close>

definition escape_char :: "char \<Rightarrow> string" where
  "escape_char c =
     (if c = CHR ''&'' then ''&amp;'' else if c = CHR ''<'' then ''&lt;''
      else if c = CHR ''>'' then ''&gt;'' else if c = CHR 0x27 then ''&apos;''
      else if c = CHR 0x22 then ''&quot;'' else [c])"

lemma escape_xml_one_pass: "escape_xml s = concat (map escape_char s)"
proof (induction s)
  case (Cons c s)
  have "escape_xml (c # s) = escape_char c @ escape_xml s"
    by (simp add: escape_xml_def escape_char_def replace_str_Cons replace_str_append)
  with Cons show ?case by simp
qed (simp add: escape_xml_def)

text \<open>Reading the predefined entities back.\<close>

function unescape_xml :: "string \<Rightarrow> string" where
  "unescape_xml s =
     (if s = [] then []
      else if starts_with s ''&amp;'' then CHR ''&'' # unescape_xml (drop 5 s)
      else if starts_with s ''&lt;'' then CHR ''<'' # unescape_xml (drop 4 s)
      else if starts_with s ''&gt;'' then CHR ''>'' # unescape_xml (drop 4 s)
      else if starts_with s ''&apos;'' then CHR 0x27 # unescape_xml (drop 6 s)
      else if starts_with s ''&quot;'' then CHR 0x22 # unescape_xml (drop 6 s)
      else hd s # unescape_xml (tl s))"
  by pat_completeness auto
termination
  by (relation "measure length") auto

declare unescape_xml.simps [simp del]

lemma unescape_escape_char: "unescape_xml (escape_char c @ s) = c # unescape_xml s"
  by (subst unescape_xml.simps) (auto simp: escape_char_def)

section \<open>Properties\<close>



text \<open>C26: Overwriting an object through the S3 front end is lost: a second PUT to a key is answered with 200, and
  the GET that follows returns the first version.\<close>

theorem s3_second_put_lost:
  assumes "server_ok E s" and "sv_draws s + 5 \<le> ev_horizon E" and "server_admits E s d"
    and "b \<noteq> []" and "CHR ''/'' \<notin> set b" and "CHR ''?'' \<notin> set (b @ k)"
    and "object_map E s (b, k) = Some old"
    and "handle_s3 E (porter_turn E)
      \<lparr>rq_method = PUT, rq_uri = ''/'' @ b @ ''/'' @ k, rq_body = Some d\<rparr> s = (resp, s')"
    and "handle_s3 E (porter_turn E)
      \<lparr>rq_method = GET, rq_uri = ''/'' @ b @ ''/'' @ k, rq_body = None\<rparr> s' = (resp', s'')"
  shows "rs_status resp = 200 \<and> rs_status resp' = 200 \<and> rs_body resp' = old"
proof -
  note uri = s3_uri [OF assms(4-6)]
  have bound: "bound s (b, k)" using assms(7) by (auto simp: bound_def object_map_def split: Option.bind_splits)
  have put: "s3_put_object E (porter_turn E) (Some b) k (Some d) s = (resp, s')"
    using assms(8) uri by (simp add: handle_s3_def Let_def)
  from s3_put_spec [OF assms(1) _ assms(3), of b k] assms(2) put bound
  have s': "server_ok E s'" "rs_status resp = 200" "object_map E s' = object_map E s"
    and draws: "sv_draws s' + 2 \<le> ev_horizon E" by auto
  have "s3_get_object E (porter_turn E) b k s' = (resp', s'')"
    using assms(9) uri by (simp add: handle_s3_def Let_def)
  with s3_get_spec [OF s'(1) draws, of b k] s' assms(7) show ?thesis by auto
qed

theorem s3_second_put_lost_witness:
  "\<exists>resp s' resp' s''. handle_s3 demo_server_env (porter_turn demo_server_env)
      \<lparr>rq_method = PUT, rq_uri = ''/'' @ ''bkt'' @ ''/'' @ ''x.txt'', rq_body = Some [9]\<rparr> demo_server = (resp, s') \<and>
    handle_s3 demo_server_env (porter_turn demo_server_env)
      \<lparr>rq_method = GET, rq_uri = ''/'' @ ''bkt'' @ ''/'' @ ''x.txt'', rq_body = None\<rparr> s' = (resp', s'') \<and>
    rs_status resp = 200 \<and> rs_body resp' = [4]"
proof -
  obtain resp s' where put: "handle_s3 demo_server_env (porter_turn demo_server_env)
      \<lparr>rq_method = PUT, rq_uri = ''/'' @ ''bkt'' @ ''/'' @ ''x.txt'', rq_body = Some [9]\<rparr> demo_server = (resp, s')"
    by fastforce
  obtain resp' s'' where get: "handle_s3 demo_server_env (porter_turn demo_server_env)
      \<lparr>rq_method = GET, rq_uri = ''/'' @ ''bkt'' @ ''/'' @ ''x.txt'', rq_body = None\<rparr> s' = (resp', s'')"
    by fastforce
  from s3_second_put_lost [OF demo_server_ok _ demo_server_admits _ _ _ _ put get] put get show ?thesis
    by (auto simp: demo_object_map)
qed

text \<open>Escaped text in the XML bodies stands for the original text: no markup character is left in it, and
  reading the five predefined entities back gives the text.\<close>

theorem escape_xml_roundtrip:
  "unescape_xml (escape_xml s) = s \<and> set (escape_xml s) \<inter> {CHR ''<'', CHR ''>'', CHR 0x22, CHR 0x27} = {}"
proof
  show "unescape_xml (escape_xml s) = s"
    unfolding escape_xml_one_pass
    by (induction s) (simp_all add: unescape_escape_char, simp add: unescape_xml.simps)
  have "set (escape_char c) \<inter> {CHR ''<'', CHR ''>'', CHR 0x22, CHR 0x27} = {}" for c
    by (auto simp: escape_char_def)
  then show "set (escape_xml s) \<inter> {CHR ''<'', CHR ''>'', CHR 0x22, CHR 0x27} = {}"
    unfolding escape_xml_one_pass by fastforce
qed

end
