(* ===== verification/Lina_Http.thy ===== *)
theory Lina_Http
  imports Lina_S3
begin

text \<open>
  The read-only HTTP front end, \<^verbatim>\<open>linastore-server/src/front/http_service.rs\<close>: a GET of
  \<^verbatim>\<open>/bucket/key\<close>, or of \<^verbatim>\<open>/key\<close> in the default bucket.
\<close>

section \<open>The handler\<close>

definition http_mime_type :: "string \<Rightarrow> string" where
  "http_mime_type filename =
     (case path_extension filename of
        None \<Rightarrow> ''application/octet-stream''
      | Some x \<Rightarrow>
          if x = ''jpeg'' \<or> x = ''jpg'' then ''image/jpeg''
          else if x = ''png'' then ''image/png''
          else if x = ''mp4'' then ''video/mp4''
          else if x = ''pdf'' then ''application/pdf''
          else if x = ''txt'' then ''text/plain''
          else if x = ''json'' then ''application/json''
          else if x = ''html'' then ''text/html''
          else if x = ''css'' then ''text/css''
          else if x = ''js'' then ''application/javascript''
          else if x = ''svg'' then ''image/svg+xml''
          else if x = ''webp'' then ''image/webp''
          else if x = ''gif'' then ''image/gif''
          else if x = ''ico'' then ''image/x-icon''
          else if x = ''xml'' then ''application/xml''
          else ''application/octet-stream'')"

definition text_response :: "nat \<Rightarrow> string \<Rightarrow> http_response" where
  "text_response st body = \<lparr>rs_status = st, rs_headers = [], rs_body = as_bytes body\<rparr>"

definition resolve_with_mapper :: "string \<Rightarrow> string \<Rightarrow> server \<Rightarrow> (http_response + string) \<times> server" where
  "resolve_with_mapper bucket key s =
     (case with_mapper (mapper_resolve bucket key) s of
        (Mapped (Some internal), s') \<Rightarrow> (Inr internal, s')
      | (NoMapper, s') \<Rightarrow> (Inl (text_response 500 ''Mapper unavailable''), s')
      | (_, s') \<Rightarrow> (Inl (text_response 404 ''Not Found''), s'))"

definition http_found :: "package \<Rightarrow> http_response" where
  "http_found pkg =
     (let content_type = http_mime_type (from_utf8_lossy (until_nul (ct_identifier (pk_content pkg)))) in
      \<lparr>rs_status = 200,
       rs_headers = [(''X-Content-Type-Options'', ''nosniff''), (''X-Frame-Options'', ''DENY''),
                     (''Content-Type'', content_type),
                     (''Content-Length'', nat_str (length (ct_data (pk_content pkg))))],
       rs_body = ct_data (pk_content pkg)\<rparr>)"

text \<open>The part after the name is known; the first UUID is only used in log lines.\<close>

definition http_fetch ::
  "server_env \<Rightarrow> (server \<Rightarrow> server) \<Rightarrow> string \<Rightarrow> server \<Rightarrow> http_response \<times> server" where
  "http_fetch E peers file_identifier s =
     (let (log_id, s) = new_v4 E s;
          (uuid, s) = new_v4 E s;
          package = package_new_with_id uuid (timestamp s);
          package = package\<lparr>pk_behavior := GetFile,
            pk_content := (pk_content package)\<lparr>ct_identifier := as_bytes file_identifier\<rparr>\<rparr>
      in case exchange peers package s of
           (NoWaiter, s') \<Rightarrow> (text_response 500 ''Failed to process request'', s')
         | (NoOrder e, s') \<Rightarrow> (text_response 500 ''Failed to process request'', unregister uuid s')
         | (Answer pkg, s') \<Rightarrow> (http_found pkg, s')
         | (ChannelClosed, s') \<Rightarrow> (text_response 500 ''Channel closed unexpectedly'', abandon uuid s')
         | (TimedOut, s') \<Rightarrow> (text_response 408 ''Request timeout'', abandon uuid s'))"

definition handle_http ::
  "server_env \<Rightarrow> (server \<Rightarrow> server) \<Rightarrow> http_request \<Rightarrow> server \<Rightarrow> http_response \<times> server" where
  "handle_http E peers req s =
     (if rq_method req \<noteq> GET then (text_response 405 ''Method Not Allowed'', s)
      else
        let uri = rq_uri req;
            path = (case strip_prefix uri ''/'' of None \<Rightarrow> uri | Some p \<Rightarrow> p)
        in if path = [] then (text_response 200 ''LiNastore is running'', s)
           else
             let path_vec = split_on (CHR ''/'') path;
                 (bucket, key) =
                   (if length path_vec \<ge> 2 then (hd path_vec, join ''/'' (tl path_vec))
                    else (DEFAULT_BUCKET, hd path_vec))
             in case resolve_with_mapper bucket key s of
                  (Inl resp, s') \<Rightarrow> (resp, s')
                | (Inr name, s') \<Rightarrow> http_fetch E peers name s')"

section \<open>Properties\<close>

lemma http_path:
  assumes "b \<noteq> []" and "CHR ''/'' \<notin> set b"
  shows "length (split_on (CHR ''/'') (b @ ''/'' @ k)) \<ge> 2"
    and "hd (split_on (CHR ''/'') (b @ ''/'' @ k)) = b"
    and "join ''/'' (tl (split_on (CHR ''/'') (b @ ''/'' @ k))) = k"
  using assms split_on_append [of "CHR ''/''" b k] join_split_on [of "CHR ''/''" k]
  by (auto simp: Suc_le_eq)

lemma http_get_spec:
  assumes ok: "server_ok E s" and draws: "sv_draws s + 2 \<le> ev_horizon E"
    and b: "b \<noteq> []" "CHR ''/'' \<notin> set b"
    and req: "rq_method req = GET" "rq_uri req = ''/'' @ b @ ''/'' @ k"
  shows "\<exists>resp s'. handle_http E (porter_turn E) req s = (resp, s') \<and> server_ok E s' \<and>
    object_map E s' = object_map E s \<and> bound s' = bound s \<and>
    (if bound s (b, k)
     then rs_status resp = 200 \<and> rs_body resp = (case object_map E s (b, k) of None \<Rightarrow> [] | Some d \<Rightarrow> d)
     else resp = text_response 404 ''Not Found'')"
proof -
  obtain m where m: "sv_mapper s = Some m" "mapper_inv m" using ok by (auto simp: server_ok_def)
  obtain m' where r: "mapper_resolve b k m = (Some (mapping_of m (b, k)), m')" "mapper_inv m'"
    "mapping_of m' = mapping_of m"
    using bm_index.resolve_looks_up [OF m(2)] by blast
  let ?s1 = "s\<lparr>sv_mapper := Some m'\<rparr>"
  have ok1: "server_ok E ?s1" "object_map E ?s1 = object_map E s"
    using server_ok_mapper [OF ok m(1) r(2,3)] by auto
  have h: "handle_http E (porter_turn E) req s =
      (case mapping_of m (b, k) of
         None \<Rightarrow> (text_response 404 ''Not Found'', ?s1)
       | Some n \<Rightarrow> http_fetch E (porter_turn E) n ?s1)"
    using http_path [OF b, of k] req b m(1) r(1)
    by (simp add: handle_http_def strip_prefix_def resolve_with_mapper_def with_mapper_def Let_def
        split: option.splits)
  show ?thesis
  proof (cases "mapping_of m (b, k)")
    case None
    with h ok1 m(1) r(3) show ?thesis by (simp add: bound_def fun_eq_iff)
  next
    case (Some n)
    then have n: "plain_name n" using ok m by (auto simp: server_ok_def intro: ranI)
    let ?s2 = "?s1\<lparr>sv_draws := Suc (Suc (sv_draws s))\<rparr>"
    let ?p0 = "package_new_with_id (ev_uuid E (Suc (sv_draws s))) (timestamp ?s2)"
    let ?p = "?p0\<lparr>pk_behavior := GetFile, pk_content := (pk_content ?p0)\<lparr>ct_identifier := as_bytes n\<rparr>\<rparr>"
    have "\<exists>w q a. exchange (porter_turn E) ?p ?s2 = (Answer a, ?s2\<lparr>sv_store := w, sv_queue := q\<rparr>) \<and>
      store_inv (ev_store E) w \<and> queue_idle q \<and>
      ct_identifier (pk_content a) = ct_identifier (pk_content ?p) \<and>
      ((pk_status a, ct_data (pk_content a)), view (ev_store E) w) =
        order_spec (pk_behavior ?p) n (ct_data (pk_content ?p)) (view (ev_store E) (sv_store ?s2))"
      by (rule exchange_executes)
         (use ok1 n plain_name_order in \<open>auto simp: server_ok_def package_new_with_id_def\<close>)
    then obtain w q a where x: "exchange (porter_turn E) ?p ?s2 = (Answer a, ?s2\<lparr>sv_store := w, sv_queue := q\<rparr>)"
      "store_inv (ev_store E) w" "queue_idle q" "view (ev_store E) w = view (ev_store E) (sv_store s)"
      "ct_data (pk_content a) = (case view (ev_store E) (sv_store s) n of None \<Rightarrow> [] | Some d \<Rightarrow> d)"
      by (auto split: option.splits)
    let ?s3 = "?s2\<lparr>sv_store := w, sv_queue := q\<rparr>"
    have "server_ok E ?s3"
      by (rule server_ok_step [OF ok m(1) x(2,3) r(2), of "Suc (Suc (sv_draws s))"])
         (use draws x(4) r(3) in auto)
    moreover have "object_map E ?s3 = object_map E s"
      using m(1) r(3) x(4) by (auto simp: object_map_def intro!: ext)
    moreover have "http_fetch E (porter_turn E) n ?s1 = (http_found a, ?s3)"
      using x(1) by (simp add: http_fetch_def new_v4_def Let_def)
    ultimately show ?thesis
      using h Some m(1) r(3) x(5) by (simp add: http_found_def bound_def object_map_def fun_eq_iff Let_def)
  qed
qed



end
