(* ===== verification/Lina_Waitress.thy ===== *)
theory Lina_Waitress
  imports Lina_Server
begin

text \<open>
  The front end of the binary protocol, \<^verbatim>\<open>linastore-server/src/front/advanced_service.rs\<close>: the task that
  serves one connection, request by request, with its handshake, its check of the session token, and the
  exchange with the workers.
\<close>

section \<open>Decoding a request\<close>

text \<open>The session token and the file data of a payload.\<close>

definition take_token :: "op_code \<Rightarrow> byte list \<Rightarrow> string option \<times> byte list" where
  "take_token op data =
     (if op = OpWrite \<and> data \<noteq> []
      then (case position (\<lambda>b. b = 0) data of
              Some null_pos \<Rightarrow>
                (let file_start = null_pos + 1;
                     file_data = (if file_start < length data then drop file_start data else [])
                 in (from_utf8 (take null_pos data), file_data))
            | None \<Rightarrow> (None, data))
      else if data \<noteq> [] then (from_utf8 (until_nul data), [])
      else (None, []))"

text \<open>The check of the session: an error status, or the token to decrypt with.\<close>

definition valid_token :: "server_env \<Rightarrow> string option \<Rightarrow> server \<Rightarrow> (status + string option) \<times> server" where
  "valid_token E session_token s =
     (if is_password_enabled (ev_manager E)
      then (case session_token of
              Some tok \<Rightarrow>
                (case validate_session (ev_manager E) tok 60 (sv_auth s) of
                   (Some _, a) \<Rightarrow> (Inr (Some tok), s\<lparr>sv_auth := a\<rparr>)
                 | (None, a) \<Rightarrow> (Inl Unauthorized, s\<lparr>sv_auth := a\<rparr>))
            | None \<Rightarrow> (Inl Unauthorized, s))
      else (Inr session_token, s))"

definition clear_data :: "server_env \<Rightarrow> string option \<Rightarrow> byte list \<Rightarrow> status + byte list" where
  "clear_data E tok file_data =
     (case tok of
        Some t \<Rightarrow>
          if file_data \<noteq> []
          then (case decrypt_with_token (ev_auth E) t file_data of
                  Inr decrypted \<Rightarrow> Inr decrypted
                | Inl _ \<Rightarrow> if is_password_enabled (ev_manager E) then Inl BadRequest else Inr file_data)
          else Inr file_data
      | None \<Rightarrow> Inr file_data)"

definition behavior_of :: "op_code \<Rightarrow> behavior" where
  "behavior_of op =
     (case op of OpDelete \<Rightarrow> DeleteFile | OpWrite \<Rightarrow> PutFile | OpRead \<Rightarrow> GetFile | _ \<Rightarrow> NoBehavior)"

definition bucket_key :: "byte list \<Rightarrow> string \<times> string" where
  "bucket_key id_bytes =
     (case position (\<lambda>b. b = 0) id_bytes of
        Some null_pos \<Rightarrow> (from_utf8_lossy (take null_pos id_bytes), from_utf8_lossy (drop (null_pos + 1) id_bytes))
      | None \<Rightarrow> (DEFAULT_BUCKET, from_utf8_lossy id_bytes))"

text \<open>A write registers a new internal name and ignores whether that worked; all others look one up.\<close>

definition resolved_identifier ::
  "server_env \<Rightarrow> op_code \<Rightarrow> string \<times> string \<Rightarrow> server \<Rightarrow> (status + string) \<times> server" where
  "resolved_identifier E op bk s =
     (if op = OpWrite
      then (let (internal_name, s) = new_v4 E s;
                (_, s) = with_mapper (mapper_register (fst bk) (snd bk) internal_name) s
            in (Inr internal_name, s))
      else case with_mapper (mapper_resolve (fst bk) (snd bk)) s of
             (Mapped (Some internal), s') \<Rightarrow> (Inr internal, s')
           | (NoMapper, s') \<Rightarrow> (Inl InternalError, s')
           | (_, s') \<Rightarrow> (Inl FileNotFound, s'))"

section \<open>One request\<close>

text \<open>What a request sends, and whether the connection stays open.\<close>

type_synonym served = "(byte list \<times> bool) \<times> server"

definition handshake_reply_status :: "handshake_status \<Rightarrow> status" where
  "handshake_reply_status h =
     (case h of HsInvalidPassword \<Rightarrow> Unauthorized | HsAuthDisabled \<Rightarrow> BadRequest | _ \<Rightarrow> InternalError)"

definition waitress_auth :: "server_env \<Rightarrow> ip_addr \<Rightarrow> lina_protocol \<Rightarrow> server \<Rightarrow> served" where
  "waitress_auth E peer_ip m s =
     (let refuse = (\<lambda>st code s. ((write_error_response (ev_crc E) st (Some (handshake_code code)), False), s));
          (allowed, rl) = rl_check (sv_now s) peer_ip (sv_limiter s);
          s = s\<lparr>sv_limiter := rl\<rparr>
      in if \<not> allowed then refuse Unauthorized HsInvalidPassword s
         else
           let username = extract_username (p_identifier (m_payload m));
               password = extract_password (p_data (m_payload m));
               failed = rl_record_failure (sv_now s) peer_ip rl
           in if username = [] then refuse BadRequest HsInternalError (s\<lparr>sv_limiter := failed\<rparr>)
              else case handle_handshake (ev_auth E) (ev_manager E) username password (sv_auth s) of
                (Inr (tok, expires_at), a) \<Rightarrow>
                  ((serialize_protocol_message (reply_message (ev_crc E) Success []
                      (handshake_code HsSuccess # as_bytes tok @ [0] @ as_bytes (nat_str expires_at))), True),
                   s\<lparr>sv_auth := a, sv_limiter := rl_record_success peer_ip rl\<rparr>)
              | (Inl h, a) \<Rightarrow>
                  refuse (handshake_reply_status h) h
                    (s\<lparr>sv_auth := a, sv_limiter := if h = HsInvalidPassword then failed else rl\<rparr>))"

definition waitress_exchange :: "server_env \<Rightarrow> (server \<Rightarrow> server) \<Rightarrow> package \<Rightarrow> server \<Rightarrow> served" where
  "waitress_exchange E peers order_pkg s =
     (let failed_reply = write_error_response (ev_crc E) InternalError None in
      case exchange peers order_pkg s of
        (NoWaiter, s') \<Rightarrow> ((failed_reply, False), s')
      | (NoOrder e, s') \<Rightarrow> ((failed_reply, False), abandon (pk_uni_id order_pkg) s')
      | (Answer pkg, s') \<Rightarrow>
          ((serialize_protocol_message (reply_message (ev_crc E) (pk_status pkg)
              (ct_identifier (pk_content pkg)) (ct_data (pk_content pkg))), True), s')
      | (ChannelClosed, s') \<Rightarrow> ((failed_reply, True), abandon (pk_uni_id order_pkg) s')
      | (TimedOut, s') \<Rightarrow> ((failed_reply, True), abandon (pk_uni_id order_pkg) s'))"

definition waitress_order ::
  "server_env \<Rightarrow> (server \<Rightarrow> server) \<Rightarrow> lina_protocol \<Rightarrow> server \<Rightarrow> served" where
  "waitress_order E peers m s =
     (let refuse = (\<lambda>st s. ((write_error_response (ev_crc E) st None, False), s));
          op = message_op m;
          (uuid, s) = new_v4 E s;
          (session_token, file_data) = take_token op (p_data (m_payload m))
      in case valid_token E session_token s of
           (Inl st, s) \<Rightarrow> refuse st s
         | (Inr tok, s) \<Rightarrow>
             (case clear_data E tok file_data of
                Inl st \<Rightarrow> refuse st s
              | Inr file_data \<Rightarrow>
                  (let order_pkg = (package_new_with_id uuid (timestamp s))\<lparr>pk_behavior := behavior_of op\<rparr>
                   in case resolved_identifier E op (bucket_key (p_identifier (m_payload m))) s of
                        (Inl st, s) \<Rightarrow> refuse st s
                      | (Inr name, s) \<Rightarrow>
                          waitress_exchange E peers
                            (order_pkg\<lparr>pk_content := \<lparr>ct_flags = m_flags m, ct_identifier = as_bytes name,
                                                     ct_data = file_data\<rparr>\<rparr>) s)))"

definition waitress_request ::
  "server_env \<Rightarrow> (server \<Rightarrow> server) \<Rightarrow> ip_addr \<Rightarrow> lina_protocol \<Rightarrow> server \<Rightarrow> served" where
  "waitress_request E peers peer_ip m s =
     (if message_op m = OpAuth then waitress_auth E peer_ip m s else waitress_order E peers m s)"

section \<open>One connection\<close>

lemma parse_shrinks:
  "parse_protocol_message crc mx lina_protocol_new stream = (Inr m, stream') \<Longrightarrow>
   length (carried stream') < length (carried stream)"
  by (drule parse_accepts) simp

text \<open>The other tasks also run while the connection waits for its next message.  The bytes sent are the
  concatenation of the replies.\<close>

function waitress_loop ::
  "server_env \<Rightarrow> (server \<Rightarrow> server) \<Rightarrow> ip_addr \<Rightarrow> stream \<Rightarrow> server \<Rightarrow> byte list \<times> server" where
  "waitress_loop E peers peer_ip stream s =
     (let s = peers s in
      case parse_protocol_message (ev_crc E) (ev_max_payload E) lina_protocol_new stream of
        (Inl _, _) \<Rightarrow> ([], s)
      | (Inr m, stream') \<Rightarrow>
          (let ((sent, open), s') = waitress_request E peers peer_ip m s in
           if open
           then (let (rest, s'') = waitress_loop E peers peer_ip stream' s' in (sent @ rest, s''))
           else (sent, s')))"
  by pat_completeness auto
termination
proof (relation "measure (\<lambda>(_, _, _, stream, _). length (carried stream))", goal_cases)
  case (2 E peers ip stream s)
  then show ?case by (auto dest!: sym [of "(_, _)"] intro: parse_shrinks)
qed simp

declare waitress_loop.simps [simp del]

text \<open>The first UUID of a connection is only used in log lines.\<close>

definition waitress ::
  "server_env \<Rightarrow> (server \<Rightarrow> server) \<Rightarrow> ip_addr \<Rightarrow> stream \<Rightarrow> server \<Rightarrow> byte list \<times> server" where
  "waitress E peers peer_addr stream s =
     (let (log_id, s) = new_v4 E s in waitress_loop E peers peer_addr stream s)"


section \<open>What a request does\<close>

lemma server_ok_auth [simp]:
  "server_ok E (s\<lparr>sv_auth := a\<rparr>) = server_ok E s" "object_map E (s\<lparr>sv_auth := a\<rparr>) = object_map E s"
  "bound (s\<lparr>sv_auth := a\<rparr>) = bound s" "server_admits E (s\<lparr>sv_auth := a\<rparr>) d = server_admits E s d"
  by (auto simp: server_ok_def uuids_fresh_def object_map_def bound_def server_admits_def fun_eq_iff)

lemma valid_token_state: "\<exists>a. snd (valid_token E t s) = s\<lparr>sv_auth := a\<rparr>"
proof -
  have "s = s\<lparr>sv_auth := sv_auth s\<rparr>" by simp
  then show ?thesis
    unfolding valid_token_def by (auto split: option.splits prod.splits intro: exI [of _ "sv_auth s"])
qed

text \<open>A token that no handshake has granted is refused, and nothing is touched but the session table, on which
  the check runs its statement.\<close>

lemma valid_token_ungranted:
  assumes "auth_run (ev_auth E) (ev_manager E) (sv_auth s) I" and "auth_required (ev_manager E)"
    and "\<And>tok. t = Some tok \<Longrightarrow> tok \<notin> snd ` set I"
  shows "\<exists>a. valid_token E t s = (Inl Unauthorized, s\<lparr>sv_auth := a\<rparr>) \<and> auth_run (ev_auth E) (ev_manager E) a I"
proof (cases t)
  case None
  have "s = s\<lparr>sv_auth := sv_auth s\<rparr>" by simp
  with None assms(1,2) show ?thesis
    by (auto simp: valid_token_def is_password_enabled_def intro: exI [of _ "sv_auth s"])
next
  case (Some tok)
  obtain r a where v: "validate_session (ev_manager E) tok 60 (sv_auth s) = (r, a)" by fastforce
  have "r = None"
  proof (rule ccontr)
    assume "r \<noteq> None"
    with v obtain u where "validate_session (ev_manager E) tok 60 (sv_auth s) = (Some u, a)" by auto
    from validated_token_granted [OF assms(1,2) this] have "tok \<in> snd ` set I" by force
    with assms(3) Some show False by blast
  qed
  moreover have "auth_run (ev_auth E) (ev_manager E) a I"
    using auth_run.Validated [OF assms(1), of tok 60] v by simp
  ultimately show ?thesis using Some v assms(2) by (auto simp: valid_token_def is_password_enabled_def)
qed

text \<open>The reply and the new objects of an admitted request.\<close>

definition internal_name :: "server \<Rightarrow> string \<times> string \<Rightarrow> string option" where
  "internal_name s bk = Option.bind (sv_mapper s) (\<lambda>m. mapping_of m bk)"

definition sent_reply :: "server_env \<Rightarrow> string \<Rightarrow> status \<times> byte list \<Rightarrow> byte list" where
  "sent_reply E name r = serialize_protocol_message (reply_message (ev_crc E) (fst r) (as_bytes name) (snd r))"

definition advanced_spec ::
  "server_env \<Rightarrow> server \<Rightarrow> op_code \<Rightarrow> string \<times> string \<Rightarrow> byte list \<Rightarrow>
   (byte list \<times> bool) \<times> (string \<times> string \<Rightarrow> byte list option)" where
  "advanced_spec E s op bk d =
     (if op = OpWrite
      then ((sent_reply E (ev_uuid E (Suc (sv_draws s))) (Success, []), True),
            if bound s bk then object_map E s else (object_map E s)(bk \<mapsto> d))
      else case internal_name s bk of
             None \<Rightarrow> ((write_error_response (ev_crc E) FileNotFound None, False), object_map E s)
           | Some n \<Rightarrow>
               (case op of
                  OpRead \<Rightarrow>
                    ((sent_reply E n (case object_map E s bk of None \<Rightarrow> (FileNotFound, []) | Some x \<Rightarrow> (Success, x)),
                      True), object_map E s)
                | OpDelete \<Rightarrow> ((sent_reply E n (Success, []), True), (object_map E s)(bk := None))
                | _ \<Rightarrow> ((sent_reply E n (InternalError, []), True), object_map E s)))"

lemma waitress_exchange_executes:
  assumes "server_ok E s" and "plain_name n"
    and "pk_content pkg = \<lparr>ct_flags = fl, ct_identifier = as_bytes n, ct_data = d\<rparr>"
    and "pk_behavior pkg = PutFile \<Longrightarrow> server_admits E s d"
  shows "\<exists>r w q. waitress_exchange E (porter_turn E) pkg s =
      ((sent_reply E n r, True), s\<lparr>sv_store := w, sv_queue := q\<rparr>) \<and>
    store_inv (ev_store E) w \<and> queue_idle q \<and>
    (r, view (ev_store E) w) = order_spec (pk_behavior pkg) n d (view (ev_store E) (sv_store s))"
proof -
  have "\<exists>w q a. exchange (porter_turn E) pkg s = (Answer a, s\<lparr>sv_store := w, sv_queue := q\<rparr>) \<and>
    store_inv (ev_store E) w \<and> queue_idle q \<and>
    ct_identifier (pk_content a) = ct_identifier (pk_content pkg) \<and>
    ((pk_status a, ct_data (pk_content a)), view (ev_store E) w) =
      order_spec (pk_behavior pkg) n (ct_data (pk_content pkg)) (view (ev_store E) (sv_store s))"
    by (rule exchange_executes)
       (use assms plain_name_order in \<open>auto simp: server_ok_def server_admits_def\<close>)
  then obtain w q a where x: "exchange (porter_turn E) pkg s = (Answer a, s\<lparr>sv_store := w, sv_queue := q\<rparr>)"
    "store_inv (ev_store E) w" "queue_idle q" "ct_identifier (pk_content a) = as_bytes n"
    "((pk_status a, ct_data (pk_content a)), view (ev_store E) w) =
      order_spec (pk_behavior pkg) n d (view (ev_store E) (sv_store s))"
    by (auto simp: assms(3))
  then show ?thesis
    by (intro exI [of _ "(pk_status a, ct_data (pk_content a))"] exI [of _ w] exI [of _ q])
       (simp add: waitress_exchange_def sent_reply_def)
qed

lemma valid_token_draws:
  "valid_token E t (s\<lparr>sv_draws := n\<rparr>) = apsnd (\<lambda>s. s\<lparr>sv_draws := n\<rparr>) (valid_token E t s)"
  by (auto simp: valid_token_def split: option.splits prod.splits)

text \<open>An admitted request goes on to the resolution of its key and to the exchange.\<close>

lemma waitress_order_admitted:
  assumes "take_token (message_op m) (p_data (m_payload m)) = (t, fd)"
    and "fst (valid_token E t s) = Inr tok" and "clear_data E tok fd = Inr d"
  shows "\<exists>a. waitress_order E peers m s =
    (let s1 = s\<lparr>sv_auth := a, sv_draws := Suc (sv_draws s)\<rparr> in
     case resolved_identifier E (message_op m) (bucket_key (p_identifier (m_payload m))) s1 of
       (Inl st, s2) \<Rightarrow> ((write_error_response (ev_crc E) st None, False), s2)
     | (Inr name, s2) \<Rightarrow>
         waitress_exchange E peers
           ((package_new_with_id (ev_uuid E (sv_draws s)) (timestamp s1))
             \<lparr>pk_behavior := behavior_of (message_op m),
              pk_content := \<lparr>ct_flags = m_flags m, ct_identifier = as_bytes name, ct_data = d\<rparr>\<rparr>) s2)"
proof -
  obtain a where "valid_token E t s = (Inr tok, s\<lparr>sv_auth := a\<rparr>)"
    using valid_token_state [of E t s] assms(2) by (cases "valid_token E t s") auto
  then have "valid_token E t (s\<lparr>sv_draws := Suc (sv_draws s)\<rparr>) =
      (Inr tok, s\<lparr>sv_auth := a, sv_draws := Suc (sv_draws s)\<rparr>)"
    by (simp add: valid_token_draws)
  with assms show ?thesis
    by (intro exI [of _ a]) (simp add: waitress_order_def new_v4_def Let_def)
qed

lemma behavior_of_simps [simp]:
  "behavior_of OpWrite = PutFile" "behavior_of OpRead = GetFile" "behavior_of OpDelete = DeleteFile"
  "behavior_of OpNone = NoBehavior"
  by (simp_all add: behavior_of_def)

text \<open>A write on a server that has drawn one identifier for the request.\<close>

lemma resolved_write:
  assumes ok: "server_ok E s" and draws: "Suc (sv_draws s) \<le> ev_horizon E"
  shows "\<exists>m m'. sv_mapper s = Some m \<and> plain_name (ev_uuid E (sv_draws s)) \<and>
    view (ev_store E) (sv_store s) (ev_uuid E (sv_draws s)) = None \<and>
    ev_uuid E (sv_draws s) \<notin> ran (mapping_of m) \<and> mapper_inv m' \<and>
    mapping_of m' = (if mapping_of m bk = None then (mapping_of m)(bk \<mapsto> ev_uuid E (sv_draws s)) else mapping_of m) \<and>
    resolved_identifier E OpWrite bk s =
      (Inr (ev_uuid E (sv_draws s)), s\<lparr>sv_draws := Suc (sv_draws s), sv_mapper := Some m'\<rparr>)"
proof -
  let ?n = "ev_uuid E (sv_draws s)"
  obtain m where m: "sv_mapper s = Some m" "mapper_inv m" using ok by (auto simp: server_ok_def)
  have fresh: "plain_name ?n" "view (ev_store E) (sv_store s) ?n = None" "?n \<notin> ran (mapping_of m)"
    using ok draws m(1) by (auto simp: server_ok_def uuids_fresh_def)
  obtain m' where "mapper_register (fst bk) (snd bk) ?n m = (Some (), m')" "mapper_inv m'"
    "mapping_of m' = (if mapping_of m bk = None then (mapping_of m)(bk \<mapsto> ?n) else mapping_of m)"
    using bm_index.reg_first [OF m(2) fresh(3), of "fst bk" "snd bk"] by auto
  with m fresh show ?thesis
    by (intro exI [of _ m] exI [of _ m']) (simp add: resolved_identifier_def new_v4_def with_mapper_def)
qed

lemma resolved_lookup:
  assumes ok: "server_ok E s" and "op \<noteq> OpWrite"
  shows "\<exists>m m'. sv_mapper s = Some m \<and> mapper_inv m \<and> mapper_inv m' \<and> mapping_of m' = mapping_of m \<and>
    resolved_identifier E op bk s =
      (case mapping_of m bk of None \<Rightarrow> Inl FileNotFound | Some n \<Rightarrow> Inr n, s\<lparr>sv_mapper := Some m'\<rparr>)"
proof -
  obtain m where m: "sv_mapper s = Some m" "mapper_inv m" using ok by (auto simp: server_ok_def)
  obtain m' where "mapper_resolve (fst bk) (snd bk) m = (Some (mapping_of m bk), m')" "mapper_inv m'"
    "mapping_of m' = mapping_of m"
    using bm_index.resolve_looks_up [OF m(2), of "fst bk" "snd bk"] by auto
  with m assms(2) show ?thesis
    by (auto simp: resolved_identifier_def with_mapper_def split: option.splits)
qed

lemma server_ok_started:
  assumes "server_ok E s"
  defines "s1 \<equiv> \<lambda>a. s\<lparr>sv_auth := a, sv_draws := Suc (sv_draws s)\<rparr>"
  shows "server_ok E (s1 a)" "object_map E (s1 a) = object_map E s" "bound (s1 a) = bound s"
    "internal_name (s1 a) = internal_name s" "server_admits E (s1 a) d = server_admits E s d"
    "sv_draws (s1 a) = Suc (sv_draws s)"
  using server_ok_draws [of E "s\<lparr>sv_auth := a\<rparr>" "Suc (sv_draws s)"] assms(1)
  by (auto simp: s1_def bound_def internal_name_def server_admits_def fun_eq_iff)

lemma waitress_write_spec:
  assumes ok: "server_ok E s" and draws: "sv_draws s + 2 \<le> ev_horizon E" and adm: "server_admits E s d"
    and op: "message_op m = OpWrite" and bk: "bucket_key (p_identifier (m_payload m)) = bk"
    and tok: "take_token OpWrite (p_data (m_payload m)) = (t, fd)" "fst (valid_token E t s) = Inr tok"
      "clear_data E tok fd = Inr d"
  shows "\<exists>r s'. waitress_order E (porter_turn E) m s = (r, s') \<and> server_ok E s' \<and>
    (r, object_map E s') = advanced_spec E s OpWrite bk d \<and> bound s' = (bound s)(bk := True) \<and>
    sv_draws s' = sv_draws s + 2"
proof -
  obtain a where o: "waitress_order E (porter_turn E) m s =
    (let s1 = s\<lparr>sv_auth := a, sv_draws := Suc (sv_draws s)\<rparr> in
     case resolved_identifier E OpWrite bk s1 of
       (Inl st, s2) \<Rightarrow> ((write_error_response (ev_crc E) st None, False), s2)
     | (Inr name, s2) \<Rightarrow>
         waitress_exchange E (porter_turn E)
           ((package_new_with_id (ev_uuid E (sv_draws s)) (timestamp s1))
             \<lparr>pk_behavior := PutFile,
              pk_content := \<lparr>ct_flags = m_flags m, ct_identifier = as_bytes name, ct_data = d\<rparr>\<rparr>) s2)"
    using waitress_order_admitted [of m t fd E s tok d "porter_turn E", unfolded op bk behavior_of_simps, OF tok]
    by blast
  let ?s1 = "s\<lparr>sv_auth := a, sv_draws := Suc (sv_draws s)\<rparr>" and ?n = "ev_uuid E (Suc (sv_draws s))"
  note s1 = server_ok_started [OF ok, of a]
  obtain mp mp' where m: "sv_mapper s = Some mp" "plain_name ?n" "view (ev_store E) (sv_store s) ?n = None"
    "?n \<notin> ran (mapping_of mp)" "mapper_inv mp'"
    "mapping_of mp' = (if mapping_of mp bk = None then (mapping_of mp)(bk \<mapsto> ?n) else mapping_of mp)"
    "resolved_identifier E OpWrite bk ?s1 =
      (Inr ?n, ?s1\<lparr>sv_draws := Suc (Suc (sv_draws s)), sv_mapper := Some mp'\<rparr>)"
    using resolved_write [OF s1(1), of bk] draws by auto
  let ?s2 = "?s1\<lparr>sv_draws := Suc (Suc (sv_draws s)), sv_mapper := Some mp'\<rparr>"
  have ran: "ran (mapping_of mp') \<subseteq> ran (mapping_of mp) \<union> {?n}" unfolding m(6) by (auto simp: ran_def)
  have s2: "server_ok E ?s2" "server_admits E ?s2 d"
  proof -
    show "server_ok E ?s2"
      by (rule server_ok_step [OF ok m(1) _ _ m(5), of "sv_store s" "sv_queue s" "sv_draws s + 2"])
         (use ok draws ran in \<open>auto simp: server_ok_def\<close>)
    show "server_admits E ?s2 d" using adm by (simp add: server_admits_def)
  qed
  obtain w q where x: "waitress_order E (porter_turn E) m s =
      ((sent_reply E ?n (Success, []), True), ?s2\<lparr>sv_store := w, sv_queue := q\<rparr>)"
    "store_inv (ev_store E) w" "queue_idle q"
    "view (ev_store E) w = (view (ev_store E) (sv_store s))(?n \<mapsto> d)"
    using waitress_exchange_executes [OF s2(1) m(2), of "(package_new_with_id (ev_uuid E (sv_draws s)) (timestamp ?s1))
             \<lparr>pk_behavior := PutFile,
              pk_content := \<lparr>ct_flags = m_flags m, ct_identifier = as_bytes ?n, ct_data = d\<rparr>\<rparr>" "m_flags m" d]
      s2(2) o m(7) by (auto simp: Let_def)
  let ?s3 = "?s2\<lparr>sv_store := w, sv_queue := q\<rparr>"
  have "server_ok E ?s3"
    by (rule server_ok_step [OF ok m(1) x(2,3) m(5), of "sv_draws s + 2"])
       (use draws ran x(4) in \<open>auto simp: image_iff\<close>)
  moreover have "mapping_of mp bk' \<noteq> Some ?n" for bk' using m(4) by (metis ranI)
  then have "object_map E ?s3 = (if bound s bk then object_map E s else (object_map E s)(bk \<mapsto> d))"
    using m(1,3) x(4)
    by (auto simp: object_map_def bound_def m(6) fun_eq_iff bind_eq_None_conv split: if_splits Option.bind_splits)
  moreover have "bound ?s3 = (bound s)(bk := True)" using m(1) by (auto simp: bound_def m(6) fun_eq_iff)
  ultimately show ?thesis using x(1) by (simp add: advanced_spec_def)
qed

lemma waitress_lookup_spec:
  assumes ok: "server_ok E s" and draws: "sv_draws s + 1 \<le> ev_horizon E"
    and op: "message_op m = op" "op \<noteq> OpWrite" "op \<noteq> OpAuth"
    and bk: "bucket_key (p_identifier (m_payload m)) = bk"
    and tok: "take_token op (p_data (m_payload m)) = (t, fd)" "fst (valid_token E t s) = Inr tok"
      "clear_data E tok fd = Inr d"
  shows "\<exists>r s'. waitress_order E (porter_turn E) m s = (r, s') \<and> server_ok E s' \<and>
    (r, object_map E s') = advanced_spec E s op bk d \<and> bound s' = bound s \<and> sv_draws s' = sv_draws s + 1"
proof -
  obtain a where o: "waitress_order E (porter_turn E) m s =
    (let s1 = s\<lparr>sv_auth := a, sv_draws := Suc (sv_draws s)\<rparr> in
     case resolved_identifier E op bk s1 of
       (Inl st, s2) \<Rightarrow> ((write_error_response (ev_crc E) st None, False), s2)
     | (Inr name, s2) \<Rightarrow>
         waitress_exchange E (porter_turn E)
           ((package_new_with_id (ev_uuid E (sv_draws s)) (timestamp s1))
             \<lparr>pk_behavior := behavior_of op,
              pk_content := \<lparr>ct_flags = m_flags m, ct_identifier = as_bytes name, ct_data = d\<rparr>\<rparr>) s2)"
    using waitress_order_admitted [of m t fd E s tok d "porter_turn E", unfolded op(1) bk, OF tok] by blast
  let ?s1 = "s\<lparr>sv_auth := a, sv_draws := Suc (sv_draws s)\<rparr>"
  note s1 = server_ok_started [OF ok, of a]
  obtain mp mp' where m: "sv_mapper s = Some mp" "mapper_inv mp" "mapper_inv mp'" "mapping_of mp' = mapping_of mp"
    "resolved_identifier E op bk ?s1 =
      (case mapping_of mp bk of None \<Rightarrow> Inl FileNotFound | Some n \<Rightarrow> Inr n, ?s1\<lparr>sv_mapper := Some mp'\<rparr>)"
    using resolved_lookup [OF s1(1) op(2), of bk] by auto
  let ?s2 = "?s1\<lparr>sv_mapper := Some mp'\<rparr>"
  have s2: "server_ok E ?s2" "object_map E ?s2 = object_map E s"
    using server_ok_mapper [OF s1(1) _ m(3,4)] m(1) s1(2) by auto
  have b: "bound s' = bound s" if "sv_mapper s' = Some mp'" for s'
    using m(1,4) that by (auto simp: bound_def fun_eq_iff)
  show ?thesis
  proof (cases "mapping_of mp bk")
    case None
    with o m s2 b op(2) show ?thesis by (simp add: advanced_spec_def internal_name_def)
  next
    case (Some n)
    then have "plain_name n" using ok m(1) by (auto simp: server_ok_def intro: ranI)
    obtain r w q where x: "waitress_order E (porter_turn E) m s =
        ((sent_reply E n r, True), ?s2\<lparr>sv_store := w, sv_queue := q\<rparr>)"
      "store_inv (ev_store E) w" "queue_idle q"
      "(r, view (ev_store E) w) = order_spec (behavior_of op) n d (view (ev_store E) (sv_store s))"
      using waitress_exchange_executes [OF s2(1) \<open>plain_name n\<close>,
          of "(package_new_with_id (ev_uuid E (sv_draws s)) (timestamp ?s1))
             \<lparr>pk_behavior := behavior_of op,
              pk_content := \<lparr>ct_flags = m_flags m, ct_identifier = as_bytes n, ct_data = d\<rparr>\<rparr>" "m_flags m" d]
        o m(5) Some op(2) by (cases op) (auto simp: Let_def op(3))
    let ?s3 = "?s2\<lparr>sv_store := w, sv_queue := q\<rparr>"
    have v: "view (ev_store E) w = (view (ev_store E) (sv_store s))(n := None) \<and> op = OpDelete \<or>
      view (ev_store E) w = view (ev_store E) (sv_store s) \<and> op \<noteq> OpDelete"
      using x(4) op(2,3) by (cases op) auto
    have "server_ok E ?s3"
      by (rule server_ok_step [OF ok m(1) x(2,3) m(3), of "sv_draws s + 1"])
         (use draws v m(4) in auto)
    moreover have "mapping_of mp bk' \<noteq> Some n" if "bk' \<noteq> bk" for bk'
      using mapping_inj [of mp bk' n bk] m(2) Some that by (auto simp: mapper_inv_def)
    then have "object_map E ?s3 = (if op = OpDelete then (object_map E s)(bk := None) else object_map E s)"
      using m(1,4) v Some by (auto simp: object_map_def fun_eq_iff split: Option.bind_splits)
    moreover have "object_map E s bk = view (ev_store E) (sv_store s) n"
      using m(1) Some by (simp add: object_map_Some)
    ultimately show ?thesis
      using x(1,4) b [of ?s3] Some m(1) op(2,3)
      by (cases op) (auto simp: advanced_spec_def internal_name_def split: option.splits)
  qed
qed

section \<open>What a connection does\<close>

text \<open>A stretch of the connection that carries exactly one request, in reads of any size.\<close>

definition carries_request :: "server_env \<Rightarrow> stream \<Rightarrow> lina_protocol \<Rightarrow> bool" where
  "carries_request E str m \<longleftrightarrow> flowing str \<and> carried str = m_flags m # tl (serialize_protocol_message m) \<and>
     m_status m = NoStatus \<and> sized m \<and> verify (ev_crc E) m \<and> p_dlen (m_payload m) \<le> ucast (ev_max_payload E)"

fun serve_all ::
  "server_env \<Rightarrow> (server \<Rightarrow> server) \<Rightarrow> ip_addr \<Rightarrow> lina_protocol list \<Rightarrow> server \<Rightarrow> byte list \<times> server" where
  "serve_all E peers ip [] s = ([], peers s)"
| "serve_all E peers ip (m # ms) s =
     (case waitress_request E peers ip m (peers s) of
        ((sent, open), s') \<Rightarrow>
          if open then apfst ((@) sent) (serve_all E peers ip ms s') else (sent, s'))"

lemma carries_request_parse:
  assumes "carries_request E str m"
  shows "parse_protocol_message (ev_crc E) (ev_max_payload E) lina_protocol_new (str @ t) = (Inr m, t)"
proof -
  have "parse_protocol_message (ev_crc E) (ev_max_payload E) lina_protocol_new (str @ t) =
      verified (ev_crc E) (as_request (m_flags m) m) t"
    by (rule parse_flowing) (use assms in \<open>simp_all add: carries_request_def\<close>)
  moreover have "as_request (m_flags m) m = m" using assms by (simp add: as_request_def carries_request_def)
  ultimately show ?thesis using assms by (simp add: verified_def carries_request_def)
qed

section \<open>Properties\<close>




text \<open>C2: While authentication is required, in every state of the session tables that the service can reach and
  whatever the other tasks do, a request other than a handshake is served only with a token that a handshake
  granted: otherwise it is answered Unauthorized, the connection is closed, and the store, the queue, the
  mapper and the rate limiter are as before.\<close>

theorem advanced_requires_token:
  assumes "auth_run (ev_auth E) (ev_manager E) (sv_auth s) I" and "auth_required (ev_manager E)"
    and "message_op m \<noteq> OpAuth"
    and "\<And>tok. fst (take_token (message_op m) (p_data (m_payload m))) = Some tok \<Longrightarrow> tok \<notin> snd ` set I"
  shows "\<exists>s'. waitress_request E peers ip m s = ((write_error_response (ev_crc E) Unauthorized None, False), s') \<and>
    sv_store s' = sv_store s \<and> sv_queue s' = sv_queue s \<and> sv_mapper s' = sv_mapper s \<and>
    sv_limiter s' = sv_limiter s \<and> auth_run (ev_auth E) (ev_manager E) (sv_auth s') I"
proof -
  obtain t fd where t: "take_token (message_op m) (p_data (m_payload m)) = (t, fd)" by fastforce
  have "\<exists>a. valid_token E t s = (Inl Unauthorized, s\<lparr>sv_auth := a\<rparr>) \<and> auth_run (ev_auth E) (ev_manager E) a I"
    by (rule valid_token_ungranted [OF assms(1,2)]) (use assms(4) t in simp)
  then obtain a where "valid_token E t s = (Inl Unauthorized, s\<lparr>sv_auth := a\<rparr>)"
    "auth_run (ev_auth E) (ev_manager E) a I" by blast
  with assms(3) t show ?thesis
    by (simp add: waitress_request_def waitress_order_def new_v4_def valid_token_draws Let_def)
qed

text \<open>A read of \<open>x.txt\<close> in \<open>bkt\<close> with a given token.\<close>

definition demo_request :: "string \<Rightarrow> lina_protocol" where
  "demo_request tok = lina_protocol_new\<lparr>m_flags := flag_byte FRead,
     m_payload := (m_payload lina_protocol_new)\<lparr>p_identifier := as_bytes ''bkt'' @ [0] @ as_bytes ''x.txt'',
       p_data := as_bytes tok\<rparr>\<rparr>"

lemma demo_request:
  "message_op (demo_request tok) = OpRead"
  "bucket_key (p_identifier (m_payload (demo_request tok))) = (''bkt'', ''x.txt'')"
  "take_token OpRead (as_bytes ''uuu'') = (Some ''uuu'', [])"
  "take_token OpRead (as_bytes ''forged'') = (Some ''forged'', [])"
  "p_data (m_payload (demo_request tok)) = as_bytes tok"
proof -
  show "message_op (demo_request tok) = OpRead"
    by (simp add: demo_request_def message_op_def) code_simp
  have "bucket_key (as_bytes ''bkt'' @ [0] @ as_bytes ''x.txt'') = (''bkt'', ''x.txt'')" by code_simp
  then show "bucket_key (p_identifier (m_payload (demo_request tok))) = (''bkt'', ''x.txt'')"
    by (simp add: demo_request_def)
  show "take_token OpRead (as_bytes ''uuu'') = (Some ''uuu'', [])"
    "take_token OpRead (as_bytes ''forged'') = (Some ''forged'', [])" by code_simp+
qed (simp add: demo_request_def)

theorem advanced_requires_token_witness:
  "\<exists>s'. waitress_request demo_server_env (\<lambda>s. s) ''ip'' (demo_request ''forged'')
      (demo_server\<lparr>sv_auth := demo_granted\<rparr>) =
      ((write_error_response demo_crc Unauthorized None, False), s') \<and> sv_store s' = demo_store []"
proof -
  let ?s = "demo_server\<lparr>sv_auth := demo_granted\<rparr>"
  have "auth_run (ev_auth demo_server_env) (ev_manager demo_server_env) (sv_auth ?s) [(''pw'', ''uuu'')]"
    using auth_run.Granted [OF demo_auth_facts(8) demo_granted(1)] by (simp add: demo_server_env_def)
  from advanced_requires_token [OF this, of "demo_request ''forged''" "\<lambda>s. s" "''ip''"] show ?thesis
    by (auto simp: demo_request demo_server_env_def demo_auth_facts)
qed

text \<open>C28: Through the binary protocol, the order queue, a worker and the store, the server is a map from bucket and
  key to object: an admitted read returns the object, a delete removes it and a write stores the decrypted
  data under a key that is not bound yet.  The delete leaves the key bound.\<close>

theorem advanced_refines_object_map:
  assumes "server_ok E s" and "sv_draws s + 2 \<le> ev_horizon E"
    and "message_op m \<noteq> OpAuth" and "bucket_key (p_identifier (m_payload m)) = bk"
    and "take_token (message_op m) (p_data (m_payload m)) = (t, fd)"
    and "fst (valid_token E t s) = Inr tok" and "clear_data E tok fd = Inr d"
    and "message_op m = OpWrite \<Longrightarrow> server_admits E s d"
  shows "\<exists>r s'. waitress_request E (porter_turn E) ip m s = (r, s') \<and> server_ok E s' \<and>
    (r, object_map E s') = advanced_spec E s (message_op m) bk d \<and>
    bound s' = (if message_op m = OpWrite then (bound s)(bk := True) else bound s)"
proof (cases "message_op m = OpWrite")
  case True
  with waitress_write_spec [OF assms(1,2) assms(8) True assms(4), of t fd tok] assms(5-7) show ?thesis
    by (auto simp: waitress_request_def)
next
  case False
  with waitress_lookup_spec [OF assms(1) _ refl False assms(3-7)] assms(2,3) show ?thesis
    by (auto simp: waitress_request_def)
qed

theorem advanced_refines_object_map_witness:
  "\<exists>s'. waitress_request demo_server_env (porter_turn demo_server_env) ''ip'' (demo_request ''uuu'')
      (demo_server\<lparr>sv_auth := demo_granted\<rparr>) = ((sent_reply demo_server_env ''c'' (Success, [4]), True), s')"
proof -
  let ?s = "demo_server\<lparr>sv_auth := demo_granted\<rparr>"
  have "fst (validate_session demo_manager ''uuu'' 60 demo_granted) = Some ''u''"
    by (simp add: validate_quiet demo_granted demo_manager_def)
  then have "fst (valid_token demo_server_env (Some ''uuu'') ?s) = Inr (Some ''uuu'')"
    by (auto simp: valid_token_def demo_server_env_def split: prod.splits)
  moreover have "clear_data demo_server_env (Some ''uuu'') [] = Inr []" by (simp add: clear_data_def)
  ultimately show ?thesis
    using advanced_refines_object_map [of demo_server_env ?s "demo_request ''uuu''" "(''bkt'', ''x.txt'')"
        "Some ''uuu''" "[]" "Some ''uuu''" "[]" "''ip''"] demo_server_ok
    by (auto simp: demo_request advanced_spec_def internal_name_def demo_object_map)
qed

end
