(* ===== verification/Lina_System.thy ===== *)
theory Lina_System
  imports Lina_Http Lina_Waitress
begin

text \<open>
  The three front ends on one server.  Requests that arrive one after the other through any of them are
  answered as by one table of objects; the table and its answers are the specification \<open>spec_objects\<close> and
  \<open>answered\<close>.
\<close>

section \<open>Requests of the three front ends\<close>

text \<open>The data in \<open>Advanced\<close> is what the payload of the message holds after decryption.\<close>

datatype front_request =
    HttpGet string string
  | S3Get string string
  | S3Put string string "byte list"
  | S3Delete string string
  | Advanced ip_addr lina_protocol "byte list"

datatype front_reply = Page http_response | Sent_bytes "byte list" bool

definition object_uri :: "string \<Rightarrow> string \<Rightarrow> string" where
  "object_uri b k = ''/'' @ b @ ''/'' @ k"

fun serve :: "server_env \<Rightarrow> front_request \<Rightarrow> server \<Rightarrow> front_reply \<times> server" where
  "serve E (HttpGet b k) s = apfst Page
     (handle_http E (porter_turn E) \<lparr>rq_method = GET, rq_uri = object_uri b k, rq_body = None\<rparr> s)"
| "serve E (S3Get b k) s = apfst Page
     (handle_s3 E (porter_turn E) \<lparr>rq_method = GET, rq_uri = object_uri b k, rq_body = None\<rparr> s)"
| "serve E (S3Put b k d) s = apfst Page
     (handle_s3 E (porter_turn E) \<lparr>rq_method = PUT, rq_uri = object_uri b k, rq_body = Some d\<rparr> s)"
| "serve E (S3Delete b k) s = apfst Page
     (handle_s3 E (porter_turn E) \<lparr>rq_method = DELETE, rq_uri = object_uri b k, rq_body = None\<rparr> s)"
| "serve E (Advanced ip m d) s = apfst (\<lambda>(sent, open). Sent_bytes sent open)
     (waitress_request E (porter_turn E) ip m s)"

fun serve_run :: "server_env \<Rightarrow> front_request list \<Rightarrow> server \<Rightarrow> front_reply list \<times> server" where
  "serve_run E [] s = ([], s)"
| "serve_run E (r # rs) s =
     (case serve E r s of (a, s') \<Rightarrow> apfst ((#) a) (serve_run E rs s'))"

section \<open>The specification\<close>

text \<open>The objects, and the keys that have been given out.\<close>

type_synonym objects = "(string \<times> string \<Rightarrow> byte list option) \<times> (string \<times> string \<Rightarrow> bool)"

fun store_object :: "string \<times> string \<Rightarrow> byte list \<Rightarrow> objects \<Rightarrow> objects" where
  "store_object bk d (objs, keys) = (if keys bk then objs else objs(bk \<mapsto> d), keys(bk := True))"

definition message_key :: "lina_protocol \<Rightarrow> string \<times> string" where
  "message_key m = bucket_key (p_identifier (m_payload m))"

fun spec_objects :: "front_request \<Rightarrow> objects \<Rightarrow> objects" where
  "spec_objects (HttpGet b k) ob = ob"
| "spec_objects (S3Get b k) ob = ob"
| "spec_objects (S3Put b k d) ob = store_object (b, k) d ob"
| "spec_objects (S3Delete b k) ob = ((fst ob)((b, k) := None), (snd ob)((b, k) := False))"
| "spec_objects (Advanced ip m d) ob =
     (case message_op m of
        OpWrite \<Rightarrow> store_object (message_key m) d ob
      | OpDelete \<Rightarrow> ((fst ob)(message_key m := None), snd ob)
      | _ \<Rightarrow> ob)"

text \<open>What a client of the binary protocol reads in a reply, for the reply's internal name.\<close>

definition advanced_answer :: "op_code \<Rightarrow> byte list option \<Rightarrow> status \<times> byte list" where
  "advanced_answer op content =
     (case op of
        OpRead \<Rightarrow> (case content of None \<Rightarrow> (FileNotFound, []) | Some x \<Rightarrow> (Success, x))
      | OpNone \<Rightarrow> (InternalError, [])
      | _ \<Rightarrow> (Success, []))"

fun answered :: "server_env \<Rightarrow> front_request \<Rightarrow> objects \<Rightarrow> front_reply \<Rightarrow> bool" where
  "answered E (HttpGet b k) (objs, keys) (Page p) \<longleftrightarrow>
     (if keys (b, k) then rs_status p = 200 \<and> rs_body p = (case objs (b, k) of None \<Rightarrow> [] | Some d \<Rightarrow> d)
      else p = text_response 404 ''Not Found'')"
| "answered E (S3Get b k) (objs, keys) (Page p) \<longleftrightarrow>
     (case objs (b, k) of None \<Rightarrow> p = no_such_key k | Some d \<Rightarrow> rs_status p = 200 \<and> rs_body p = d)"
| "answered E (S3Put b k d) ob (Page p) \<longleftrightarrow> rs_status p = 200"
| "answered E (S3Delete b k) ob (Page p) \<longleftrightarrow> rs_status p = 204"
| "answered E (Advanced ip m d) (objs, keys) (Sent_bytes sent open) \<longleftrightarrow>
     (if message_op m = OpWrite \<or> keys (message_key m)
      then open \<and> (\<exists>name. sent = sent_reply E name (advanced_answer (message_op m) (objs (message_key m))))
      else \<not> open \<and> sent = write_error_response (ev_crc E) FileNotFound None)"
| "answered E _ _ _ \<longleftrightarrow> False"

fun answered_run :: "server_env \<Rightarrow> front_request list \<Rightarrow> objects \<Rightarrow> front_reply list \<Rightarrow> bool" where
  "answered_run E [] ob [] \<longleftrightarrow> True"
| "answered_run E (r # rs) ob (a # as) \<longleftrightarrow> answered E r ob a \<and> answered_run E rs (spec_objects r ob) as"
| "answered_run E _ _ _ \<longleftrightarrow> False"

text \<open>Requests with a bucket and a key in the URI, stored data within the limits of the store, and, for the
  binary protocol, an accepted token and a payload that decrypts.\<close>

definition uri_ok :: "string \<Rightarrow> string \<Rightarrow> bool" where
  "uri_ok b k \<longleftrightarrow> b \<noteq> [] \<and> CHR ''/'' \<notin> set b \<and> CHR ''?'' \<notin> set (b @ k)"

fun admissible :: "server_env \<Rightarrow> front_request \<Rightarrow> server \<Rightarrow> bool" where
  "admissible E (HttpGet b k) s \<longleftrightarrow> uri_ok b k"
| "admissible E (S3Get b k) s \<longleftrightarrow> uri_ok b k"
| "admissible E (S3Put b k d) s \<longleftrightarrow> uri_ok b k \<and> server_admits E s d"
| "admissible E (S3Delete b k) s \<longleftrightarrow> uri_ok b k"
| "admissible E (Advanced ip m d) s \<longleftrightarrow>
     message_op m \<noteq> OpAuth \<and> (message_op m = OpWrite \<longrightarrow> server_admits E s d) \<and>
     (case take_token (message_op m) (p_data (m_payload m)) of
        (t, fd) \<Rightarrow> (case fst (valid_token E t s) of Inl _ \<Rightarrow> False | Inr tok \<Rightarrow> clear_data E tok fd = Inr d))"

fun admissible_run :: "server_env \<Rightarrow> front_request list \<Rightarrow> server \<Rightarrow> bool" where
  "admissible_run E [] s \<longleftrightarrow> True"
| "admissible_run E (r # rs) s \<longleftrightarrow>
     sv_draws s + 3 \<le> ev_horizon E \<and> admissible E r s \<and> admissible_run E rs (snd (serve E r s))"

section \<open>One request\<close>

definition objects_of :: "server_env \<Rightarrow> server \<Rightarrow> objects" where
  "objects_of E s = (object_map E s, bound s)"

lemma object_map_unbound: "\<not> bound s bk \<Longrightarrow> object_map E s bk = None"
  by (auto simp: bound_def object_map_def split: Option.bind_splits)

lemma internal_name_bound: "internal_name s bk = None \<longleftrightarrow> \<not> bound s bk"
  by (auto simp: bound_def internal_name_def split: Option.bind_splits)

lemma serve_http_step:
  assumes "server_ok E s" and "sv_draws s + 3 \<le> ev_horizon E" and "uri_ok b k"
  shows "\<exists>a s'. serve E (HttpGet b k) s = (a, s') \<and> server_ok E s' \<and>
    objects_of E s' = spec_objects (HttpGet b k) (objects_of E s) \<and> answered E (HttpGet b k) (objects_of E s) a"
  using http_get_spec [OF assms(1), of b "\<lparr>rq_method = GET, rq_uri = object_uri b k, rq_body = None\<rparr>" k] assms(2,3)
  by (auto simp: uri_ok_def object_uri_def objects_of_def)

lemma serve_s3_step:
  assumes ok: "server_ok E s" and draws: "sv_draws s + 3 \<le> ev_horizon E" and "admissible E r s"
    and r: "r \<in> {S3Get b k, S3Put b k d, S3Delete b k}"
  shows "\<exists>a s'. serve E r s = (a, s') \<and> server_ok E s' \<and>
    objects_of E s' = spec_objects r (objects_of E s) \<and> answered E r (objects_of E s) a"
proof -
  have u: "uri_ok b k" using assms(3) r by auto
  note uri = s3_uri [of b k, folded object_uri_def]
  from r consider "r = S3Get b k" | "r = S3Put b k d" | "r = S3Delete b k" by blast
  then show ?thesis
  proof cases
    case 1
    with s3_get_spec [OF ok, of b k] draws uri u show ?thesis
      by (fastforce simp: handle_s3_def uri_ok_def objects_of_def Let_def)
  next
    case 2
    with assms(3) have adm: "server_admits E s d" by simp
    from 2 s3_put_spec [OF ok draws adm, of b k] uri u show ?thesis
      by (fastforce simp: handle_s3_def uri_ok_def objects_of_def Let_def)
  next
    case 3
    with s3_delete_spec [OF ok, of b k] draws uri u show ?thesis
      by (auto simp: handle_s3_def uri_ok_def objects_of_def build_empty_response_def Let_def)
  qed
qed

lemma serve_advanced_step:
  assumes ok: "server_ok E s" and draws: "sv_draws s + 3 \<le> ev_horizon E" and adm: "admissible E (Advanced ip m d) s"
  shows "\<exists>a s'. serve E (Advanced ip m d) s = (a, s') \<and> server_ok E s' \<and>
    objects_of E s' = spec_objects (Advanced ip m d) (objects_of E s) \<and>
    answered E (Advanced ip m d) (objects_of E s) a"
proof -
  obtain t fd where t: "take_token (message_op m) (p_data (m_payload m)) = (t, fd)" by fastforce
  obtain tok where tok: "fst (valid_token E t s) = Inr tok" "clear_data E tok fd = Inr d"
    using adm t by (auto split: sum.splits)
  have "\<exists>r s'. waitress_order E (porter_turn E) m s = (r, s') \<and> server_ok E s' \<and>
    (r, object_map E s') = advanced_spec E s (message_op m) (message_key m) d \<and>
    bound s' = (if message_op m = OpWrite then (bound s)(message_key m := True) else bound s)"
  proof (cases "message_op m = OpWrite")
    case True
    with waitress_write_spec [OF ok _ _ True, of d "message_key m" t fd tok] draws adm t tok show ?thesis
      by (auto simp: message_key_def)
  next
    case False
    with waitress_lookup_spec [OF ok _ refl False, of "message_key m" t fd tok d] draws adm t tok show ?thesis
      by (auto simp: message_key_def)
  qed
  then obtain r s' where x: "waitress_order E (porter_turn E) m s = (r, s')" "server_ok E s'"
    "(r, object_map E s') = advanced_spec E s (message_op m) (message_key m) d"
    "bound s' = (if message_op m = OpWrite then (bound s)(message_key m := True) else bound s)" by blast
  have "objects_of E s' = spec_objects (Advanced ip m d) (objects_of E s)"
    using x(3,4) adm object_map_unbound [of s "message_key m" E] internal_name_bound [of s "message_key m"]
    by (cases "message_op m")
       (auto simp: objects_of_def advanced_spec_def fun_upd_idem split: option.splits if_splits)
  moreover have "answered E (Advanced ip m d) (objects_of E s) (Sent_bytes (fst r) (snd r))"
    using x(3) adm internal_name_bound [of s "message_key m"]
    by (cases "message_op m")
       (auto simp: objects_of_def advanced_spec_def advanced_answer_def split: option.splits if_splits)
  ultimately show ?thesis
    using x(1,2) adm by (simp add: waitress_request_def split_beta)
qed

lemma serve_step:
  assumes "server_ok E s" and "sv_draws s + 3 \<le> ev_horizon E" and "admissible E r s"
  shows "\<exists>a s'. serve E r s = (a, s') \<and> server_ok E s' \<and>
    objects_of E s' = spec_objects r (objects_of E s) \<and> answered E r (objects_of E s) a"
proof (cases r)
  case (HttpGet b k)
  with serve_http_step [OF assms(1,2)] assms(3) show ?thesis by simp
next
  case (Advanced ip m d)
  with serve_advanced_step [OF assms(1,2)] assms(3) show ?thesis by blast
qed (use serve_s3_step [OF assms] in blast)+

lemma serve_run_refines:
  "server_ok E s \<Longrightarrow> admissible_run E rs s \<Longrightarrow>
   \<exists>as s'. serve_run E rs s = (as, s') \<and> server_ok E s' \<and>
     objects_of E s' = fold spec_objects rs (objects_of E s) \<and> answered_run E rs (objects_of E s) as"
proof (induction rs arbitrary: s)
  case (Cons r rs)
  then obtain a s1 where 1: "serve E r s = (a, s1)" "server_ok E s1"
    "objects_of E s1 = spec_objects r (objects_of E s)" "answered E r (objects_of E s) a"
    using serve_step [OF Cons.prems(1), of r] by auto
  with Cons.IH [OF 1(2)] Cons.prems(2) obtain as s' where "serve_run E rs s1 = (as, s')" "server_ok E s'"
    "objects_of E s' = fold spec_objects rs (objects_of E s1)" "answered_run E rs (objects_of E s1) as"
    by auto
  with 1 show ?case by simp
qed simp

end
