(* ===== verification/Lina_Fuse.thy ===== *)
theory Lina_Fuse
  imports Lina_Store_Thms
begin

text \<open>
  The FUSE file system over the store, \<^verbatim>\<open>linafs/src/fuse.rs\<close>.  Inode numbers are hashes of the names, so
  every request looks its file up among all links; writes go to a buffer per inode, which
  flush, fsync and release store.  A reply is a sum of an error number and the data of the reply.
\<close>

section \<open>Inodes, attributes and modes\<close>

text \<open>\<^verbatim>\<open>DefaultHasher\<close> is documented as an unspecified function of the values written to it, here strings.\<close>

record fuse_env =
  fe_store :: env
  default_hash :: "string list \<Rightarrow> u64"

type_synonym ino = u64

definition ROOT_INO :: ino where
  "ROOT_INO = 1"

definition file_ino :: "fuse_env \<Rightarrow> string \<Rightarrow> ino" where
  "file_ino fe name =
     (let ino = default_hash fe [name] in
      if ino = 0 \<or> ino = ROOT_INO then ino XOR 0xDEAD else ino)"

definition dir_ino :: "fuse_env \<Rightarrow> string \<Rightarrow> ino" where
  "dir_ino fe dir_path =
     (let ino = default_hash fe [''d:'', dir_path] in
      if ino = 0 \<or> ino = ROOT_INO then ino XOR 0xDEAD else ino)"

datatype file_type = RegularFile | Directory | Symlink

text \<open>The four times are \<^verbatim>\<open>UNIX_EPOCH\<close>, zero.\<close>

record file_attr =
  at_ino :: ino
  at_size :: u64
  at_blocks :: u64
  at_kind :: file_type
  at_perm :: u16
  at_nlink :: u32
  at_uid :: u32
  at_gid :: u32
  at_rdev :: u32
  at_blksize :: u32
  at_flags :: u32
  at_times :: nat

definition make_attr :: "ino \<Rightarrow> u64 \<Rightarrow> file_type \<Rightarrow> u16 \<Rightarrow> file_attr" where
  "make_attr ino sz kind perm =
     \<lparr>at_ino = ino, at_size = sz, at_blocks = (sz + 511) div 512, at_kind = kind, at_perm = perm,
      at_nlink = (if kind = Directory then 2 else 1), at_uid = 0, at_gid = 0, at_rdev = 0,
      at_blksize = 4096, at_flags = 0, at_times = 0\<rparr>"

text \<open>The octal constants of the code, in hexadecimal.\<close>

definition S_IFMT :: u32 where "S_IFMT = 0xF000"
definition S_IFREG :: u32 where "S_IFREG = 0x8000"
definition S_IFLNK :: u32 where "S_IFLNK = 0xA000"
definition S_IFDIR :: u32 where "S_IFDIR = 0x4000"
definition PERM_MASK :: u32 where "PERM_MASK = 0x1FF"
definition MODE_FILE :: u32 where "MODE_FILE = S_IFREG OR 0x1A4"
definition MODE_SYMLINK :: u32 where "MODE_SYMLINK = S_IFLNK OR 0x1FF"

definition kind_from_mode :: "u32 \<Rightarrow> file_type" where
  "kind_from_mode mode =
     (if mode \<ge> S_IFREG
      then (if mode AND S_IFMT = S_IFLNK then Symlink
            else if mode AND S_IFMT = S_IFDIR then Directory
            else RegularFile)
      else RegularFile)"

definition perm_from_mode :: "u32 \<Rightarrow> u16" where
  "perm_from_mode mode = ucast (mode AND PERM_MASK)"

definition direct_child_name :: "string \<Rightarrow> string \<Rightarrow> string option" where
  "direct_child_name full prefix =
     Option.bind (if prefix = [] then Some full else strip_prefix full (prefix @ ''/''))
       (\<lambda>stripped. if CHR ''/'' \<in> set stripped then None else Some stripped)"

section \<open>State\<close>

record lina_fs =
  fs_store :: world
  write_buf :: "ino \<Rightarrow> byte list option"
  compressed :: bool

datatype errno = ENOENT | EINVAL | EIO | ENOTEMPTY

type_synonym 'a fsop = "lina_fs \<Rightarrow> (errno + 'a) \<times> lina_fs"

text \<open>Running a future of the store to its end.\<close>

definition rt :: "'a op \<Rightarrow> lina_fs \<Rightarrow> 'a res \<times> lina_fs" where
  "rt m fs = (case m (fs_store fs) of (r, w) \<Rightarrow> (r, fs\<lparr>fs_store := w\<rparr>))"

text \<open>The results of store calls: with the error given, with errors ignored, and with a default.\<close>

definition rt_or :: "errno \<Rightarrow> 'a op \<Rightarrow> 'a fsop" where
  "rt_or e m fs = (case rt m fs of (Inl _, fs') \<Rightarrow> (Inl e, fs') | (Inr x, fs') \<Rightarrow> (Inr x, fs'))"

definition rt_ignore :: "'a op \<Rightarrow> unit fsop" where
  "rt_ignore m fs = (Inr (), snd (rt m fs))"

definition rt_default :: "'a \<Rightarrow> 'a op \<Rightarrow> 'a fsop" where
  "rt_default d m fs = (case rt m fs of (Inl _, fs') \<Rightarrow> (Inr d, fs') | (Inr x, fs') \<Rightarrow> (Inr x, fs'))"

definition reply :: "'a \<Rightarrow> 'a fsop" where
  "reply x fs = (Inr x, fs)"

definition error :: "errno \<Rightarrow> 'a fsop" where
  "error e fs = (Inl e, fs)"

definition fs_then :: "'a fsop \<Rightarrow> ('a \<Rightarrow> 'b fsop) \<Rightarrow> 'b fsop" where
  "fs_then m f fs = (case m fs of (Inl e, fs') \<Rightarrow> (Inl e, fs') | (Inr x, fs') \<Rightarrow> f x fs')"

definition lina_fs_new :: "node list \<Rightarrow> bool \<Rightarrow> world \<Rightarrow> err + lina_fs" where
  "lina_fs_new listing cm w =
     (case store_new listing w of
        (Inl err, _) \<Rightarrow> Inl err
      | (Inr _, w') \<Rightarrow> Inr \<lparr>fs_store = w', write_buf = Map.empty, compressed = cm\<rparr>)"

definition all_files :: "link list fsop" where
  "all_files = rt_default [] (list_links ''*'' 0 False True)"

definition resolve_dir_path :: "fuse_env \<Rightarrow> ino \<Rightarrow> string option fsop" where
  "resolve_dir_path fe ino =
     fs_then (rt_default [] all_dirs) (\<lambda>ds.
     reply (map_option d_path (find (\<lambda>d. dir_ino fe (d_path d) = ino) ds)))"

section \<open>Names\<close>

text \<open>The head that the requests on a name in a directory share: the path of the parent, the name as
  text, and the path.\<close>

definition parent_path_of :: "fuse_env \<Rightarrow> ino \<Rightarrow> string fsop" where
  "parent_path_of fe parent =
     (if parent = ROOT_INO then reply []
      else fs_then (resolve_dir_path fe parent) (\<lambda>p. case p of Some p \<Rightarrow> reply p | None \<Rightarrow> error ENOENT))"

definition name_str :: "byte list \<Rightarrow> string fsop" where
  "name_str name = (case from_utf8 name of Some n \<Rightarrow> reply n | None \<Rightarrow> error EINVAL)"

definition join_path :: "string \<Rightarrow> string \<Rightarrow> string" where
  "join_path parent_path n = (if parent_path = [] then n else parent_path @ ''/'' @ n)"

definition full_path_of :: "fuse_env \<Rightarrow> ino \<Rightarrow> byte list \<Rightarrow> (string \<times> string) fsop" where
  "full_path_of fe parent name =
     fs_then (parent_path_of fe parent) (\<lambda>p.
     fs_then (name_str name) (\<lambda>n. reply (p, join_path p n)))"

text \<open>The link of an inode.\<close>

definition link_of_ino :: "fuse_env \<Rightarrow> ino \<Rightarrow> link option fsop" where
  "link_of_ino fe ino =
     fs_then all_files (\<lambda>fs. reply (find (\<lambda>l. file_ino fe (l_name l) = ino) fs))"

definition name_of_ino :: "fuse_env \<Rightarrow> ino \<Rightarrow> string fsop" where
  "name_of_ino fe ino =
     fs_then (link_of_ino fe ino) (\<lambda>l. case l of Some l \<Rightarrow> reply (l_name l) | None \<Rightarrow> error ENOENT)"

section \<open>Requests on attributes\<close>

definition fuse_lookup :: "fuse_env \<Rightarrow> ino \<Rightarrow> byte list \<Rightarrow> file_attr fsop" where
  "fuse_lookup fe parent name =
     fs_then (full_path_of fe parent name) (\<lambda>(_, full_path).
     fs_then (rt_default None (and_then (get_binary_data (fe_store fe) full_path) (\<lambda>d. ok (Some d)))) (\<lambda>found.
     case found of
       Some data \<Rightarrow>
         fs_then all_files (\<lambda>fs.
         let ino = file_ino fe full_path;
             mode = (case find (\<lambda>l. l_name l = full_path) fs of Some l \<Rightarrow> l_mode l | None \<Rightarrow> MODE_FILE)
         in reply (make_attr ino (word_of_nat (length data)) (kind_from_mode mode) (perm_from_mode mode)))
     | None \<Rightarrow>
         fs_then (rt_default False (is_dir full_path)) (\<lambda>d.
         if d then reply (make_attr (dir_ino fe full_path) 0 Directory 0x1ED) else error ENOENT)))"

definition fuse_getattr :: "fuse_env \<Rightarrow> ino \<Rightarrow> file_attr fsop" where
  "fuse_getattr fe ino =
     (if ino = ROOT_INO then reply (make_attr ROOT_INO 0 Directory 0x1ED)
      else fs_then (link_of_ino fe ino) (\<lambda>l. case l of
        Some link \<Rightarrow>
          fs_then (rt_or EIO (get_binary_data (fe_store fe) (l_name link))) (\<lambda>data.
          reply (make_attr ino (word_of_nat (length data)) (kind_from_mode (l_mode link))
            (perm_from_mode (l_mode link))))
      | None \<Rightarrow>
          fs_then (rt_default [] all_dirs) (\<lambda>ds.
          case find (\<lambda>d. dir_ino fe (d_path d) = ino) ds of
            Some d \<Rightarrow> reply (make_attr ino 0 Directory (ucast (d_mode d)))
          | None \<Rightarrow> error ENOENT)))"

definition truncate :: "fuse_env \<Rightarrow> ino \<Rightarrow> string \<Rightarrow> u64 \<Rightarrow> unit fsop" where
  "truncate fe ino name new_size =
     fs_then
       (\<lambda>fs. case write_buf fs ino of
          Some data \<Rightarrow>
            (let data' = resize (unat new_size) 0 data in
             (Inr data', fs\<lparr>write_buf := (write_buf fs)(ino \<mapsto> data')\<rparr>))
        | None \<Rightarrow>
            fs_then (rt_or EIO (get_binary_data (fe_store fe) name)) (\<lambda>d. reply (resize (unat new_size) 0 d)) fs)
     (\<lambda>truncated fs. rt_or EIO (put_binary_data (fe_store fe) name truncated True (compressed fs)) fs)"

text \<open>The length of a file as the buffer or else the store has it, 0 when it cannot be read.\<close>

definition current_len :: "fuse_env \<Rightarrow> ino \<Rightarrow> string \<Rightarrow> nat fsop" where
  "current_len fe ino name fs =
     (case write_buf fs ino of
        Some d \<Rightarrow> (Inr (length d), fs)
      | None \<Rightarrow> fs_then (rt_default [] (get_binary_data (fe_store fe) name)) (\<lambda>d. reply (length d)) fs)"

definition setattr_dir :: "fuse_env \<Rightarrow> ino \<Rightarrow> u32 option \<Rightarrow> dir_entry \<Rightarrow> file_attr fsop" where
  "setattr_dir fe ino mode d =
     (case mode of
        Some m \<Rightarrow>
          (let new_mode = (d_mode d AND S_IFMT) OR (m AND PERM_MASK) in
           fs_then (rt_ignore (set_directory_mode (d_path d) new_mode)) (\<lambda>_.
           reply (make_attr ino 0 Directory (perm_from_mode new_mode))))
      | None \<Rightarrow> reply (make_attr ino 0 Directory (perm_from_mode (d_mode d))))"

definition setattr_file ::
  "fuse_env \<Rightarrow> ino \<Rightarrow> u32 option \<Rightarrow> u64 option \<Rightarrow> file_attr fsop" where
  "setattr_file fe ino mode sz =
     fs_then (name_of_ino fe ino) (\<lambda>name.
     fs_then (case sz of Some new_size \<Rightarrow> truncate fe ino name new_size | None \<Rightarrow> reply ()) (\<lambda>_.
     fs_then (link_of_ino fe ino) (\<lambda>link.
     let old_mode = (case link of Some l \<Rightarrow> l_mode l | None \<Rightarrow> MODE_FILE);
         file_mode = (case mode of Some m \<Rightarrow> (old_mode AND S_IFMT) OR (m AND PERM_MASK) | None \<Rightarrow> old_mode)
     in fs_then (if mode = None then reply () else rt_ignore (set_file_mode name file_mode)) (\<lambda>_.
        fs_then (current_len fe ino name) (\<lambda>data_len.
        reply (make_attr ino (word_of_nat data_len) (kind_from_mode file_mode) (perm_from_mode file_mode)))))))"

definition fuse_setattr :: "fuse_env \<Rightarrow> ino \<Rightarrow> u32 option \<Rightarrow> u64 option \<Rightarrow> file_attr fsop" where
  "fuse_setattr fe ino mode sz =
     (if ino = ROOT_INO
      then reply (make_attr ROOT_INO 0 Directory (ucast (case mode of Some m \<Rightarrow> m | None \<Rightarrow> 0x1ED)))
      else fs_then (rt_default [] all_dirs) (\<lambda>ds.
        case find (\<lambda>d. dir_ino fe (d_path d) = ino) ds of
          Some d \<Rightarrow> setattr_dir fe ino mode d
        | None \<Rightarrow> setattr_file fe ino mode sz))"

section \<open>Requests on directories\<close>

definition child_dir_entries :: "fuse_env \<Rightarrow> string \<Rightarrow> dir_entry list \<Rightarrow> (ino \<times> file_type \<times> string) list" where
  "child_dir_entries fe prefix ds =
     List.map_filter (\<lambda>d. map_option (\<lambda>leaf. (dir_ino fe (d_path d), Directory, leaf))
       (direct_child_name (d_path d) prefix)) ds"

fun child_file_entries ::
  "fuse_env \<Rightarrow> string \<Rightarrow> string list \<Rightarrow> link list \<Rightarrow> (ino \<times> file_type \<times> string) list" where
  "child_file_entries fe prefix seen [] = []"
| "child_file_entries fe prefix seen (link # ls) =
     (case direct_child_name (l_name link) prefix of
        Some leaf \<Rightarrow>
          if leaf \<in> set seen then child_file_entries fe prefix seen ls
          else (file_ino fe (join_path prefix leaf), kind_from_mode (l_mode link), leaf) #
               child_file_entries fe prefix (leaf # seen) ls
      | None \<Rightarrow> child_file_entries fe prefix seen ls)"

text \<open>\<open>room\<close> is the number of entries the reply buffer of the kernel takes; \<^verbatim>\<open>reply.add\<close> then reports that it is
  full.  Each entry carries the offset at which a further request goes on.\<close>

definition fuse_readdir ::
  "fuse_env \<Rightarrow> nat \<Rightarrow> ino \<Rightarrow> u64 \<Rightarrow> ((ino \<times> file_type \<times> string) \<times> u64) list fsop" where
  "fuse_readdir fe room ino offset =
     fs_then (parent_path_of fe ino) (\<lambda>prefix.
     fs_then (rt_default [] (list_child_dirs prefix)) (\<lambda>child_dirs.
     fs_then all_files (\<lambda>fs.
     let ds = child_dir_entries fe prefix child_dirs;
         entries = [(ino, Directory, ''.''), (ROOT_INO, Directory, ''..'')] @ ds @
           child_file_entries fe prefix (map (snd \<circ> snd) ds) fs
     in reply (take room (drop (unat offset)
          (map (\<lambda>i. (entries ! i, word_of_nat (i + 1))) [0..<length entries]))))))"

definition fuse_mkdir :: "fuse_env \<Rightarrow> ino \<Rightarrow> byte list \<Rightarrow> u32 \<Rightarrow> file_attr fsop" where
  "fuse_mkdir fe parent name req_mode =
     (let mode = S_IFDIR OR (req_mode AND PERM_MASK) in
      fs_then (full_path_of fe parent name) (\<lambda>(parent_path, dir_path).
      fs_then (rt_or EIO (mkdir dir_path parent_path)) (\<lambda>_.
      fs_then (rt_ignore (set_directory_mode dir_path mode)) (\<lambda>_.
      reply (make_attr (dir_ino fe dir_path) 0 Directory (perm_from_mode mode))))))"

definition fuse_rmdir :: "fuse_env \<Rightarrow> ino \<Rightarrow> byte list \<Rightarrow> unit fsop" where
  "fuse_rmdir fe parent name =
     fs_then (full_path_of fe parent name) (\<lambda>(_, dir_path).
     fs_then (rt_default [] (list_child_dirs dir_path)) (\<lambda>child_dirs.
     if child_dirs \<noteq> [] then error ENOTEMPTY
     else fs_then all_files (\<lambda>fs.
       if list_ex (\<lambda>l. strip_prefix (l_name l) (dir_path @ ''/'') \<noteq> None) fs then error ENOTEMPTY
       else rt_or ENOENT (rmdir dir_path))))"

section \<open>Requests on file contents\<close>

definition slice :: "u64 \<Rightarrow> u32 \<Rightarrow> byte list \<Rightarrow> byte list" where
  "slice offset sz data =
     (let start = unat offset in
      if start \<ge> length data then []
      else take (min (start + unat sz) (length data) - start) (drop start data))"

definition fuse_read :: "fuse_env \<Rightarrow> ino \<Rightarrow> u64 \<Rightarrow> u32 \<Rightarrow> byte list fsop" where
  "fuse_read fe ino offset sz fs =
     (case write_buf fs ino of
        Some data \<Rightarrow> (Inr (slice offset sz data), fs)
      | None \<Rightarrow>
          fs_then (name_of_ino fe ino) (\<lambda>name.
          fs_then (rt_or EIO (get_binary_data (fe_store fe) name)) (\<lambda>data.
          reply (slice offset sz data))) fs)"

text \<open>The buffer of an inode, filled from the store on the first write.\<close>

definition fill_buf :: "fuse_env \<Rightarrow> ino \<Rightarrow> unit fsop" where
  "fill_buf fe ino fs =
     (if write_buf fs ino \<noteq> None then (Inr (), fs)
      else fs_then (name_of_ino fe ino) (\<lambda>name.
           fs_then (rt_or ENOENT (get_binary_data (fe_store fe) name)) (\<lambda>d fs.
           (Inr (), fs\<lparr>write_buf := (write_buf fs)(ino \<mapsto> d)\<rparr>))) fs)"

definition overwrite :: "nat \<Rightarrow> byte list \<Rightarrow> byte list \<Rightarrow> byte list" where
  "overwrite off data entry =
     splice off data
       (if off + length data > length entry then resize (off + length data) 0 entry else entry)"

definition fuse_write :: "fuse_env \<Rightarrow> ino \<Rightarrow> u64 \<Rightarrow> byte list \<Rightarrow> u32 fsop" where
  "fuse_write fe ino offset data =
     fs_then (fill_buf fe ino) (\<lambda>_ fs.
       (Inr (word_of_nat (length data)),
        fs\<lparr>write_buf := (write_buf fs)(ino := map_option (overwrite (unat offset) data) (write_buf fs ino))\<rparr>))"

text \<open>The body that flush, fsync and release share: the buffer is taken out before the store is asked.\<close>

definition persist_buf :: "fuse_env \<Rightarrow> ino \<Rightarrow> unit fsop" where
  "persist_buf fe ino fs =
     (case write_buf fs ino of
        None \<Rightarrow> (Inr (), fs)
      | Some data \<Rightarrow>
          fs_then (name_of_ino fe ino)
            (\<lambda>name fs. rt_or EIO (put_binary_data (fe_store fe) name data True (compressed fs)) fs)
            (fs\<lparr>write_buf := (write_buf fs)(ino := None)\<rparr>))"

definition fuse_flush :: "fuse_env \<Rightarrow> ino \<Rightarrow> unit fsop" where
  "fuse_flush fe ino = persist_buf fe ino"

definition fuse_fsync :: "fuse_env \<Rightarrow> ino \<Rightarrow> unit fsop" where
  "fuse_fsync fe ino = persist_buf fe ino"

definition fuse_release :: "fuse_env \<Rightarrow> ino \<Rightarrow> bool \<Rightarrow> unit fsop" where
  "fuse_release fe ino flush_called fs =
     (if flush_called then (Inr (), fs\<lparr>write_buf := (write_buf fs)(ino := None)\<rparr>)
      else persist_buf fe ino fs)"

section \<open>Requests that create, remove and rename\<close>

definition fuse_put :: "fuse_env \<Rightarrow> string \<Rightarrow> byte list \<Rightarrow> bool \<Rightarrow> unit fsop" where
  "fuse_put fe name data cover fs =
     rt_or EIO (put_binary_data (fe_store fe) name data cover (compressed fs)) fs"

definition fuse_create :: "fuse_env \<Rightarrow> ino \<Rightarrow> byte list \<Rightarrow> u32 \<Rightarrow> file_attr fsop" where
  "fuse_create fe parent name req_mode =
     (let mode = S_IFREG OR (req_mode AND PERM_MASK) in
      fs_then (full_path_of fe parent name) (\<lambda>(_, full_path).
      fs_then (fuse_put fe full_path [] False) (\<lambda>_.
      fs_then (rt_ignore (set_file_mode full_path mode)) (\<lambda>_.
      reply (make_attr (file_ino fe full_path) 0 (kind_from_mode mode) (perm_from_mode mode))))))"

definition fuse_symlink :: "fuse_env \<Rightarrow> ino \<Rightarrow> byte list \<Rightarrow> byte list \<Rightarrow> file_attr fsop" where
  "fuse_symlink fe parent name link =
     fs_then (full_path_of fe parent name) (\<lambda>(_, full_path).
     fs_then (name_str link) (\<lambda>target.
     fs_then (fuse_put fe full_path (as_bytes target) False) (\<lambda>_.
     fs_then (rt_ignore (set_file_mode full_path MODE_SYMLINK)) (\<lambda>_.
     reply (make_attr (file_ino fe full_path) (word_of_nat (length target)) Symlink 0x1FF)))))"

definition fuse_readlink :: "fuse_env \<Rightarrow> ino \<Rightarrow> byte list fsop" where
  "fuse_readlink fe ino =
     fs_then (name_of_ino fe ino) (\<lambda>name. rt_or EIO (get_binary_data (fe_store fe) name))"

definition fuse_unlink :: "fuse_env \<Rightarrow> ino \<Rightarrow> byte list \<Rightarrow> unit fsop" where
  "fuse_unlink fe parent name =
     fs_then (full_path_of fe parent name) (\<lambda>(_, full_path). rt_or ENOENT (delete full_path False))"

definition fuse_rename :: "fuse_env \<Rightarrow> ino \<Rightarrow> byte list \<Rightarrow> ino \<Rightarrow> byte list \<Rightarrow> unit fsop" where
  "fuse_rename fe parent name newparent newname =
     fs_then (parent_path_of fe parent) (\<lambda>parent_path.
     fs_then (parent_path_of fe newparent) (\<lambda>new_parent_path.
     fs_then (name_str name) (\<lambda>old_name.
     fs_then (name_str newname) (\<lambda>new_name.
     let old_path = join_path parent_path old_name; new_path = join_path new_parent_path new_name in
     fs_then (rt_or ENOENT (get_binary_data (fe_store fe) old_path)) (\<lambda>data.
     fs_then (fuse_put fe new_path data True) (\<lambda>_.
     rt_ignore (delete old_path False)))))))"

section \<open>The remaining requests\<close>

definition fuse_fallocate :: "unit fsop" where
  "fuse_fallocate = reply ()"

definition fuse_lseek :: "fuse_env \<Rightarrow> ino \<Rightarrow> u64 \<Rightarrow> int \<Rightarrow> u64 fsop" where
  "fuse_lseek fe ino offset whence =
     fs_then (link_of_ino fe ino) (\<lambda>l.
     fs_then (case l of Some l \<Rightarrow> current_len fe ino (l_name l) | None \<Rightarrow> reply 0) (\<lambda>len.
     let file_size = (word_of_nat len :: u64) in
     reply (if whence = 2 then (let e = file_size + offset in if sint e < 0 then 0 else e)
            else if whence = 3 then (if sint offset < 0 then 0 else offset)
            else if whence = 4 then file_size
            else 0)))"

definition fuse_statfs :: "(u64 \<times> u64 \<times> u64 \<times> u64 \<times> u64 \<times> u32 \<times> u32 \<times> u32) fsop" where
  "fuse_statfs =
     fs_then all_files (\<lambda>fs. reply (0, 0, 0, word_of_nat (length fs), 0, 4096, 255, 4096))"

end
