(* ===== verification/Lina_Fuse_Thms.thy ===== *)
theory Lina_Fuse_Thms
  imports Lina_Fuse
begin

text \<open>
  The theorems about the FUSE file system: the files a mount shows, which are the stored objects overlaid by
  the write buffers, and what the requests do to them while no call of the store fails.
\<close>

section \<open>The store below the file system\<close>

lemma store_inv_pop [simp]: "store_inv e (pop w) \<longleftrightarrow> store_inv e w" if "quiet w"
  using that by (simp add: store_inv_def store_ok_def abs_of_def)

lemma view_pop [simp]: "view e (pop w) = view e w"
  by (simp add: view_def abs_of_def)

lemma admits_pop [simp]: "admits e (pop w) d = admits e w d"
  by (simp add: admits_def abs_of_def)

text \<open>Every link has a content, and only links have one.\<close>

lemma view_dom: "store_inv e w \<Longrightarrow> dom (view e w) = l_name ` set (links w)"
proof -
  assume inv: "store_inv e w"
  then have wf: "wf e (abs_of w)" and keys: "keys_ok w"
    by (auto simp: store_inv_def store_ok_def good_def)
  have "view e w n \<noteq> None" if "link_map w n = Some l" for n l
    using wf_link_source [OF wf, of n l] that by (auto simp: view_def abs_of_def)
  moreover have "view e w n = None" if "link_map w n = None" for n
    using that by (simp add: view_def contents_def)
  ultimately have "view e w n \<noteq> None \<longleftrightarrow> link_map w n \<noteq> None" for n by (cases "link_map w n") auto
  moreover have "link_map w n \<noteq> None \<longleftrightarrow> n \<in> l_name ` set (links w)" for n
    by (simp add: link_map_def map_of_key_None)
  ultimately show ?thesis by (auto simp only: dom_def)
qed

lemma view_name_nonempty: "store_inv e w \<Longrightarrow> view e w n = Some d \<Longrightarrow> n \<noteq> []"
  using wf_link [of e "abs_of w" n]
  by (auto simp: store_inv_def store_ok_def good_def view_def contents_def link_ok_def split: option.splits)

section \<open>What a mount shows\<close>

definition stored :: "fuse_env \<Rightarrow> lina_fs \<Rightarrow> string \<Rightarrow> byte list option" where
  "stored fe fs = view (fe_store fe) (fs_store fs)"

definition shown :: "fuse_env \<Rightarrow> lina_fs \<Rightarrow> string \<Rightarrow> byte list option" where
  "shown fe fs n =
     (case stored fe fs n of
        None \<Rightarrow> None
      | Some d \<Rightarrow> Some (case write_buf fs (file_ino fe n) of None \<Rightarrow> d | Some b \<Rightarrow> b))"

text \<open>The store is well-formed and no call fails, and no two files have the same inode number.\<close>

definition fuse_inv :: "fuse_env \<Rightarrow> lina_fs \<Rightarrow> bool" where
  "fuse_inv fe fs \<longleftrightarrow> store_inv (fe_store fe) (fs_store fs) \<and> inj_on (file_ino fe) (dom (stored fe fs))"

lemma fuse_invD:
  assumes "fuse_inv fe fs"
  shows "store_inv (fe_store fe) (fs_store fs)" "quiet (fs_store fs)"
    "file_ino fe n = file_ino fe m \<Longrightarrow> stored fe fs n \<noteq> None \<Longrightarrow> stored fe fs m \<noteq> None \<Longrightarrow> n = m"
  using assms by (auto simp: fuse_inv_def store_inv_def dest: inj_onD)

text \<open>A request that leaves the contents of the store alone.\<close>

definition same_store :: "fuse_env \<Rightarrow> lina_fs \<Rightarrow> lina_fs \<Rightarrow> bool" where
  "same_store fe fs fs' \<longleftrightarrow> (\<exists>w. fs' = fs\<lparr>fs_store := w\<rparr> \<and> store_inv (fe_store fe) w \<and>
     view (fe_store fe) w = stored fe fs \<and> (\<forall>d. admits (fe_store fe) w d = admits (fe_store fe) (fs_store fs) d))"

lemma same_storeD:
  assumes "same_store fe fs fs'" and "fuse_inv fe fs"
  shows "fuse_inv fe fs'" "stored fe fs' = stored fe fs" "shown fe fs' = shown fe fs"
    "write_buf fs' = write_buf fs" "compressed fs' = compressed fs"
    "admits (fe_store fe) (fs_store fs') d = admits (fe_store fe) (fs_store fs) d"
proof -
  obtain w where w: "fs' = fs\<lparr>fs_store := w\<rparr>" "store_inv (fe_store fe) w" "view (fe_store fe) w = stored fe fs"
    using assms(1) by (auto simp: same_store_def)
  then show st: "stored fe fs' = stored fe fs" and "write_buf fs' = write_buf fs" "compressed fs' = compressed fs"
    by (simp_all add: stored_def)
  with w assms(2) show "fuse_inv fe fs'" by (simp add: fuse_inv_def)
  show "admits (fe_store fe) (fs_store fs') d = admits (fe_store fe) (fs_store fs) d"
    using assms(1) by (auto simp: same_store_def)
  from w st show "shown fe fs' = shown fe fs" by (simp add: shown_def fun_eq_iff split: option.splits)
qed

lemma same_store_trans: "same_store fe fs fs1 \<Longrightarrow> same_store fe fs1 fs2 \<Longrightarrow> same_store fe fs fs2"
  by (auto simp: same_store_def stored_def)

lemma same_store_pop: "fuse_inv fe fs \<Longrightarrow> same_store fe fs (fs\<lparr>fs_store := pop (fs_store fs)\<rparr>)"
  using fuse_invD(1,2) [of fe fs]
  by (auto simp: same_store_def stored_def intro!: exI [of _ "pop (fs_store fs)"])

lemma all_files_quiet:
  "quiet (fs_store fs) \<Longrightarrow> all_files fs = (Inr (links (fs_store fs)), fs\<lparr>fs_store := pop (fs_store fs)\<rparr>)"
  by (simp add: all_files_def rt_default_def rt_def list_links_def list_locked_def get_n_links_def get_def)

lemma link_of_ino_stored:
  assumes inv: "fuse_inv fe fs" and n: "stored fe fs n \<noteq> None"
  shows "\<exists>l fs'. link_of_ino fe (file_ino fe n) fs = (Inr (Some l), fs') \<and> same_store fe fs fs' \<and>
    l \<in> set (links (fs_store fs)) \<and> l_name l = n"
proof -
  have dom: "dom (stored fe fs) = l_name ` set (links (fs_store fs))"
    unfolding stored_def by (rule view_dom) (rule fuse_invD [OF inv])
  have "n \<in> l_name ` set (links (fs_store fs))" unfolding dom [symmetric] using n by (simp add: domIff)
  then have "find (\<lambda>l. file_ino fe (l_name l) = file_ino fe n) (links (fs_store fs)) \<noteq> None"
    unfolding find_None_iff by blast
  then obtain l where l: "find (\<lambda>l. file_ino fe (l_name l) = file_ino fe n) (links (fs_store fs)) = Some l"
    by blast
  then have mem: "l \<in> set (links (fs_store fs))" and ino: "file_ino fe (l_name l) = file_ino fe n"
    by (auto simp: find_Some_iff)
  have "l_name l \<in> dom (stored fe fs)" using mem dom by simp
  then have "l_name l = n" by (intro fuse_invD(3) [OF inv ino _ n]) (simp add: domIff)
  moreover have "link_of_ino fe (file_ino fe n) fs = (Inr (Some l), fs\<lparr>fs_store := pop (fs_store fs)\<rparr>)"
    unfolding link_of_ino_def fs_then_def all_files_quiet [OF fuse_invD(2) [OF inv]] reply_def prod.case sum.case l ..
  ultimately show ?thesis using mem same_store_pop [OF inv] by blast
qed

lemma name_of_ino_stored:
  assumes "fuse_inv fe fs" and "stored fe fs n \<noteq> None"
  shows "\<exists>fs'. name_of_ino fe (file_ino fe n) fs = (Inr n, fs') \<and> same_store fe fs fs'"
  using link_of_ino_stored [OF assms] by (auto simp: name_of_ino_def fs_then_def reply_def)

lemma rt_get_stored:
  assumes inv: "fuse_inv fe fs" and n: "n \<noteq> []"
  shows "\<exists>fs'. same_store fe fs fs' \<and>
    rt_or er (get_binary_data (fe_store fe) n) fs =
      (case stored fe fs n of None \<Rightarrow> Inl er | Some d \<Rightarrow> Inr d, fs')"
  using sm.get_looks_up [OF fuse_invD(1) [OF inv] n]
  by (cases "stored fe fs n") (auto simp: rt_or_def rt_def same_store_def stored_def)

lemma stored_nonempty: "fuse_inv fe fs \<Longrightarrow> stored fe fs n = Some d \<Longrightarrow> n \<noteq> []"
  unfolding stored_def by (rule view_name_nonempty) (rule fuse_invD)

text \<open>Storing the content of an existing file keeps the names, and with them the inode numbers.\<close>

lemma rt_put_stored:
  assumes inv: "fuse_inv fe fs" and n: "n \<noteq> []" and adm: "admits (fe_store fe) (fs_store fs) d"
    and inj: "inj_on (file_ino fe) (insert n (dom (stored fe fs)))"
  shows "\<exists>w. rt_or er (put_binary_data (fe_store fe) n d cover cm) fs = (Inr (), fs\<lparr>fs_store := w\<rparr>) \<and>
    fuse_inv fe (fs\<lparr>fs_store := w\<rparr>) \<and> stored fe (fs\<lparr>fs_store := w\<rparr>) = (stored fe fs)(n \<mapsto> d)"
  using sm.put_updates [OF fuse_invD(1) [OF inv] n adm, of cover cm] inj
  by (auto simp: rt_or_def rt_def stored_def fuse_inv_def)

section \<open>Reading and writing\<close>

text \<open>The contents that \<^verbatim>\<open>pread\<close> and \<^verbatim>\<open>pwrite\<close> are to return and to leave.\<close>

definition pread :: "nat \<Rightarrow> nat \<Rightarrow> byte list \<Rightarrow> byte list" where
  "pread off n c = take n (drop off c)"

definition pwrite :: "nat \<Rightarrow> byte list \<Rightarrow> byte list \<Rightarrow> byte list" where
  "pwrite off d c =
     map (\<lambda>i. if off \<le> i \<and> i < off + length d then d ! (i - off) else if i < length c then c ! i else 0)
       [0..<max (length c) (off + length d)]"

lemma slice_pread: "slice off n c = pread (unat off) (unat n) c"
proof (cases "length c \<le> unat off")
  case False
  then have "take (min (unat off + unat n) (length c) - unat off) (drop (unat off) c) = take (unat n) (drop (unat off) c)"
    by (cases "unat off + unat n \<le> length c") (simp_all add: min_def)
  with False show ?thesis by (simp add: slice_def pread_def Let_def)
qed (simp add: slice_def pread_def)

lemma overwrite_pwrite: "overwrite off d c = pwrite off d c"
proof (rule nth_equalityI)
  show len: "length (overwrite off d c) = length (pwrite off d c)"
    by (simp add: overwrite_def pwrite_def length_splice)
  fix i
  assume "i < length (overwrite off d c)"
  then have i: "i < max (length c) (off + length d)" unfolding len by (simp add: pwrite_def)
  then have "pwrite off d c ! i =
      (if off \<le> i \<and> i < off + length d then d ! (i - off) else if i < length c then c ! i else 0)"
    by (simp add: pwrite_def)
  moreover have "overwrite off d c ! i =
      (if off \<le> i \<and> i < off + length d then d ! (i - off) else if i < length c then c ! i else 0)"
    using i by (auto simp: overwrite_def nth_splice nth_resize split: if_splits)
  ultimately show "overwrite off d c ! i = pwrite off d c ! i" by simp
qed

text \<open>Requests on a file, named by its path, and their replies.\<close>

datatype file_op =
    Write string u64 "byte list"
  | Read string u64 u32
  | Flush string
  | Fsync string
  | Release string bool

datatype file_reply = Written u32 | Data "byte list" | Done

fun file_request :: "fuse_env \<Rightarrow> file_op \<Rightarrow> file_reply fsop" where
  "file_request fe (Write n off d) = fs_then (fuse_write fe (file_ino fe n) off d) (\<lambda>k. reply (Written k))"
| "file_request fe (Read n off k) = fs_then (fuse_read fe (file_ino fe n) off k) (\<lambda>d. reply (Data d))"
| "file_request fe (Flush n) = fs_then (fuse_flush fe (file_ino fe n)) (\<lambda>_. reply Done)"
| "file_request fe (Fsync n) = fs_then (fuse_fsync fe (file_ino fe n)) (\<lambda>_. reply Done)"
| "file_request fe (Release n b) = fs_then (fuse_release fe (file_ino fe n) b) (\<lambda>_. reply Done)"

fun op_name :: "file_op \<Rightarrow> string" where
  "op_name (Write n _ _) = n"
| "op_name (Read n _ _) = n"
| "op_name (Flush n) = n"
| "op_name (Fsync n) = n"
| "op_name (Release n _) = n"

text \<open>The reference: one byte sequence per file.\<close>

fun posix_reply :: "file_op \<Rightarrow> (string \<Rightarrow> byte list option) \<Rightarrow> file_reply" where
  "posix_reply (Write n off d) m = Written (word_of_nat (length d))"
| "posix_reply (Read n off k) m = Data (case m n of None \<Rightarrow> [] | Some c \<Rightarrow> pread (unat off) (unat k) c)"
| "posix_reply _ m = Done"

fun posix_files :: "file_op \<Rightarrow> (string \<Rightarrow> byte list option) \<Rightarrow> string \<Rightarrow> byte list option" where
  "posix_files (Write n off d) m = m(n := map_option (pwrite (unat off) d) (m n))"
| "posix_files _ m = m"

text \<open>The file exists; what is to be stored is acceptable to the store; and a release that announces an
  earlier flush finds nothing that was written after it.\<close>

definition persistable :: "fuse_env \<Rightarrow> lina_fs \<Rightarrow> string \<Rightarrow> bool" where
  "persistable fe fs n \<longleftrightarrow>
     (\<forall>b. write_buf fs (file_ino fe n) = Some b \<longrightarrow> admits (fe_store fe) (fs_store fs) b)"

fun op_ok :: "fuse_env \<Rightarrow> lina_fs \<Rightarrow> file_op \<Rightarrow> bool" where
  "op_ok fe fs (Flush n) \<longleftrightarrow> stored fe fs n \<noteq> None \<and> persistable fe fs n"
| "op_ok fe fs (Fsync n) \<longleftrightarrow> stored fe fs n \<noteq> None \<and> persistable fe fs n"
| "op_ok fe fs (Release n True) \<longleftrightarrow> stored fe fs n \<noteq> None \<and> shown fe fs n = stored fe fs n"
| "op_ok fe fs (Release n False) \<longleftrightarrow> stored fe fs n \<noteq> None \<and> persistable fe fs n"
| "op_ok fe fs op \<longleftrightarrow> stored fe fs (op_name op) \<noteq> None"

lemma shown_buffered:
  assumes "fuse_inv fe fs" and "stored fe fs n \<noteq> None"
  shows "shown fe (fs\<lparr>write_buf := (write_buf fs)(file_ino fe n := Some b)\<rparr>) = (shown fe fs)(n \<mapsto> b)"
proof
  fix m
  show "shown fe (fs\<lparr>write_buf := (write_buf fs)(file_ino fe n := Some b)\<rparr>) m = ((shown fe fs)(n \<mapsto> b)) m"
    using assms(2) fuse_invD(3) [OF assms(1), of m n]
    by (auto simp: shown_def stored_def split: option.splits)
qed

lemma fuse_inv_buf [simp]: "fuse_inv fe (fs\<lparr>write_buf := b\<rparr>) = fuse_inv fe fs" "stored fe (fs\<lparr>write_buf := b\<rparr>) = stored fe fs"
  by (simp_all add: fuse_inv_def stored_def)

lemma fuse_read_shown:
  assumes inv: "fuse_inv fe fs" and c: "shown fe fs n = Some c"
  shows "\<exists>fs'. fuse_read fe (file_ino fe n) off k fs = (Inr (pread (unat off) (unat k) c), fs') \<and> same_store fe fs fs'"
proof (cases "write_buf fs (file_ino fe n)")
  case (Some b)
  have "fs\<lparr>fs_store := fs_store fs\<rparr> = fs" by simp
  then have "same_store fe fs fs" unfolding same_store_def stored_def using fuse_invD(1) [OF inv] by metis
  with Some c show ?thesis by (auto simp: fuse_read_def shown_def slice_pread split: option.splits)
next
  case None
  then have s: "stored fe fs n = Some c" using c by (simp add: shown_def split: option.splits)
  then obtain fs1 where 1: "name_of_ino fe (file_ino fe n) fs = (Inr n, fs1)" "same_store fe fs fs1"
    using name_of_ino_stored [OF inv, of n] by auto
  note 11 = same_storeD [OF 1(2) inv]
  obtain fs2 where "rt_or EIO (get_binary_data (fe_store fe) n) fs1 = (Inr c, fs2)" "same_store fe fs1 fs2"
    using rt_get_stored [OF 11(1) stored_nonempty [OF inv s], of EIO] 11(2) s by auto
  with None 1 show ?thesis
    using same_store_trans [OF 1(2)] by (simp add: fuse_read_def fs_then_def reply_def slice_pread)
qed

lemma fill_buf_shown:
  assumes inv: "fuse_inv fe fs" and c: "shown fe fs n = Some c"
  shows "\<exists>fs1. fill_buf fe (file_ino fe n) fs =
      (Inr (), fs1\<lparr>write_buf := (write_buf fs1)(file_ino fe n \<mapsto> c)\<rparr>) \<and> same_store fe fs fs1"
proof (cases "write_buf fs (file_ino fe n)")
  case (Some b)
  then have "b = c" using c by (simp add: shown_def split: option.splits)
  with Some have "fs = fs\<lparr>write_buf := (write_buf fs)(file_ino fe n \<mapsto> c)\<rparr>" by (simp add: fun_upd_idem)
  moreover have "fs\<lparr>fs_store := fs_store fs\<rparr> = fs" by simp
  then have "same_store fe fs fs" unfolding same_store_def stored_def using fuse_invD(1) [OF inv] by metis
  ultimately show ?thesis using Some by (auto simp: fill_buf_def)
next
  case None
  then have s: "stored fe fs n = Some c" using c by (simp add: shown_def split: option.splits)
  then obtain fs1 where 1: "name_of_ino fe (file_ino fe n) fs = (Inr n, fs1)" "same_store fe fs fs1"
    using name_of_ino_stored [OF inv, of n] by auto
  note 11 = same_storeD [OF 1(2) inv]
  obtain fs2 where "rt_or ENOENT (get_binary_data (fe_store fe) n) fs1 = (Inr c, fs2)" "same_store fe fs1 fs2"
    using rt_get_stored [OF 11(1) stored_nonempty [OF inv s], of ENOENT] 11(2) s by auto
  with None 1 show ?thesis
    using same_store_trans [OF 1(2)] by (auto simp: fill_buf_def fs_then_def)
qed

lemma fuse_write_shown:
  assumes inv: "fuse_inv fe fs" and c: "shown fe fs n = Some c"
  shows "\<exists>fs'. fuse_write fe (file_ino fe n) off d fs = (Inr (word_of_nat (length d)), fs') \<and> fuse_inv fe fs' \<and>
    stored fe fs' = stored fe fs \<and> shown fe fs' = (shown fe fs)(n \<mapsto> pwrite (unat off) d c)"
proof -
  obtain fs1 where 1: "fill_buf fe (file_ino fe n) fs =
      (Inr (), fs1\<lparr>write_buf := (write_buf fs1)(file_ino fe n \<mapsto> c)\<rparr>)" "same_store fe fs fs1"
    using fill_buf_shown [OF assms] by blast
  note 11 = same_storeD [OF 1(2) inv]
  have "stored fe fs1 n \<noteq> None" using c 11(2) by (auto simp: shown_def split: option.splits)
  then have "shown fe (fs1\<lparr>write_buf := (write_buf fs1)(file_ino fe n := Some (pwrite (unat off) d c))\<rparr>) =
      (shown fe fs)(n \<mapsto> pwrite (unat off) d c)"
    using shown_buffered [OF 11(1)] 11(3) by simp
  with 1(1) 11(1,2) show ?thesis by (simp add: fuse_write_def fs_then_def overwrite_pwrite)
qed

text \<open>Persisting moves the shown content into the store.\<close>

lemma persist_buf_shown:
  assumes inv: "fuse_inv fe fs" and c: "shown fe fs n = Some c" and adm: "persistable fe fs n"
  shows "\<exists>fs'. persist_buf fe (file_ino fe n) fs = (Inr (), fs') \<and> fuse_inv fe fs' \<and>
    stored fe fs' = (stored fe fs)(n \<mapsto> c) \<and> shown fe fs' = shown fe fs"
proof (cases "write_buf fs (file_ino fe n)")
  case None
  with c have "stored fe fs n = Some c" by (simp add: shown_def split: option.splits)
  with None inv show ?thesis by (simp add: persist_buf_def fun_upd_idem)
next
  case (Some b)
  then have b: "b = c" and st: "stored fe fs n \<noteq> None" using c by (auto simp: shown_def split: option.splits)
  let ?fs = "fs\<lparr>write_buf := (write_buf fs)(file_ino fe n := None)\<rparr>"
  obtain fs1 where 1: "name_of_ino fe (file_ino fe n) ?fs = (Inr n, fs1)" "same_store fe ?fs fs1"
    using name_of_ino_stored [of fe ?fs n] inv st by auto
  then obtain w1 where w1: "fs1 = ?fs\<lparr>fs_store := w1\<rparr>" by (auto simp: same_store_def)
  have inv': "fuse_inv fe ?fs" using inv by simp
  note 11 = same_storeD [OF 1(2) inv']
  have adm1: "admits (fe_store fe) (fs_store fs1) c"
    using adm Some b 11(6) by (simp add: persistable_def)
  obtain w where w: "rt_or EIO (put_binary_data (fe_store fe) n c True (compressed fs1)) fs1 =
      (Inr (), fs1\<lparr>fs_store := w\<rparr>)" "fuse_inv fe (fs1\<lparr>fs_store := w\<rparr>)"
    "stored fe (fs1\<lparr>fs_store := w\<rparr>) = (stored fe fs)(n \<mapsto> c)"
    using rt_put_stored [OF 11(1) _ adm1, of n EIO True "compressed fs1"] stored_nonempty [OF inv, of n] st 11(2) inv
    by (auto simp: fuse_inv_def insert_absorb domIff)
  let ?fs' = "fs1\<lparr>fs_store := w\<rparr>"
  have "shown fe ?fs' m = shown fe fs m" for m
  proof (cases "m = n")
    case True
    then show ?thesis using w(3) c w1 by (simp add: shown_def)
  next
    case False
    then have "file_ino fe m \<noteq> file_ino fe n" if "stored fe fs m \<noteq> None"
      using fuse_invD(3) [OF inv _ that st] by blast
    with False w(3) w1 show ?thesis by (auto simp: shown_def split: option.splits)
  qed
  with w 1(1) Some b show ?thesis
    by (intro exI [of _ ?fs']) (auto simp: persist_buf_def fs_then_def)
qed

text \<open>A release after a flush forgets the buffer.\<close>

lemma drop_buf_shown:
  assumes inv: "fuse_inv fe fs" and "shown fe fs n = stored fe fs n" and "stored fe fs n \<noteq> None"
  shows "shown fe (fs\<lparr>write_buf := (write_buf fs)(file_ino fe n := None)\<rparr>) = shown fe fs"
proof
  fix m
  show "shown fe (fs\<lparr>write_buf := (write_buf fs)(file_ino fe n := None)\<rparr>) m = shown fe fs m"
  proof (cases "file_ino fe m = file_ino fe n \<and> stored fe fs m \<noteq> None")
    case True
    then have "m = n" using fuse_invD(3) [OF inv, of m n] assms(3) by blast
    with assms(2) show ?thesis by (simp add: shown_def stored_def split: option.splits)
  next
    case False
    with assms(2) show ?thesis by (auto simp: shown_def stored_def split: option.splits)
  qed
qed

lemma file_request_step:
  assumes inv: "fuse_inv fe fs" and ok: "op_ok fe fs op"
  shows "\<exists>fs'. file_request fe op fs = (Inr (posix_reply op (shown fe fs)), fs') \<and> fuse_inv fe fs' \<and>
    shown fe fs' = posix_files op (shown fe fs)"
proof -
  have "stored fe fs (op_name op) \<noteq> None" using ok by (cases op rule: op_name.cases; cases "case op of Release _ b \<Rightarrow> b | _ \<Rightarrow> True") auto
  then obtain c where c: "shown fe fs (op_name op) = Some c" by (auto simp: shown_def)
  have persist: "\<exists>fs'. persist_buf fe (file_ino fe n) fs = (Inr (), fs') \<and> fuse_inv fe fs' \<and> shown fe fs' = shown fe fs"
    if "op_name op = n" "persistable fe fs n" for n
    using persist_buf_shown [OF inv, of n c] c that by blast
  show ?thesis
  proof (cases op)
    case (Write n off d)
    with fuse_write_shown [OF inv, of n c off d] c show ?thesis by (auto simp: fs_then_def reply_def)
  next
    case (Read n off k)
    with fuse_read_shown [OF inv, of n c off k] c same_storeD [OF _ inv] show ?thesis
      by (auto simp: fs_then_def reply_def)
  next
    case (Flush n)
    with persist ok show ?thesis by (auto simp: fuse_flush_def fs_then_def reply_def)
  next
    case (Fsync n)
    with persist ok show ?thesis by (auto simp: fuse_fsync_def fs_then_def reply_def)
  next
    case (Release n b)
    show ?thesis
    proof (cases b)
      case True
      with Release ok drop_buf_shown [OF inv, of n] inv show ?thesis
        by (simp add: fuse_release_def fs_then_def reply_def)
    next
      case False
      with Release ok persist show ?thesis by (auto simp: fuse_release_def fs_then_def reply_def)
    qed
  qed
qed

fun file_requests :: "fuse_env \<Rightarrow> file_op list \<Rightarrow> lina_fs \<Rightarrow> (errno + file_reply) list \<times> lina_fs" where
  "file_requests fe [] fs = ([], fs)"
| "file_requests fe (op # ops) fs =
     (case file_request fe op fs of (r, fs') \<Rightarrow> apfst ((#) r) (file_requests fe ops fs'))"

fun posix_run :: "file_op list \<Rightarrow> (string \<Rightarrow> byte list option) \<Rightarrow> file_reply list \<times> (string \<Rightarrow> byte list option)" where
  "posix_run [] m = ([], m)"
| "posix_run (op # ops) m = apfst ((#) (posix_reply op m)) (posix_run ops (posix_files op m))"

fun ops_ok :: "fuse_env \<Rightarrow> lina_fs \<Rightarrow> file_op list \<Rightarrow> bool" where
  "ops_ok fe fs [] \<longleftrightarrow> True"
| "ops_ok fe fs (op # ops) \<longleftrightarrow> op_ok fe fs op \<and> ops_ok fe (snd (file_request fe op fs)) ops"

lemma file_requests_refine:
  "fuse_inv fe fs \<Longrightarrow> ops_ok fe fs ops \<Longrightarrow>
   \<exists>fs'. file_requests fe ops fs = (map Inr (fst (posix_run ops (shown fe fs))), fs') \<and> fuse_inv fe fs' \<and>
     shown fe fs' = snd (posix_run ops (shown fe fs))"
proof (induction ops arbitrary: fs)
  case (Cons op ops)
  then obtain fs1 where 1: "file_request fe op fs = (Inr (posix_reply op (shown fe fs)), fs1)" "fuse_inv fe fs1"
    "shown fe fs1 = posix_files op (shown fe fs)"
    using file_request_step [OF Cons.prems(1), of op] by auto
  with Cons.IH [OF 1(2)] Cons.prems(2) show ?case by auto
qed simp

section \<open>Names in directories\<close>

definition dir_path :: "fuse_env \<Rightarrow> world \<Rightarrow> ino \<Rightarrow> string option" where
  "dir_path fe w ino =
     (if ino = ROOT_INO then Some []
      else map_option d_path (find (\<lambda>d. dir_ino fe (d_path d) = ino) (sort_key d_path (dirs w))))"

lemma parent_path_quiet:
  assumes inv: "fuse_inv fe fs" and "dir_path fe (fs_store fs) ino = Some p"
  shows "\<exists>fs'. parent_path_of fe ino fs = (Inr p, fs') \<and> same_store fe fs fs' \<and>
    dirs (fs_store fs') = dirs (fs_store fs) \<and> links (fs_store fs') = links (fs_store fs)"
proof (cases "ino = ROOT_INO")
  case True
  have "fs\<lparr>fs_store := fs_store fs\<rparr> = fs" by simp
  then have "same_store fe fs fs" unfolding same_store_def stored_def using fuse_invD(1) [OF inv] by metis
  with True assms(2) show ?thesis by (simp add: parent_path_of_def dir_path_def reply_def)
next
  case False
  with assms(2) fuse_invD(2) [OF inv] same_store_pop [OF inv] show ?thesis
    by (auto simp: parent_path_of_def resolve_dir_path_def dir_path_def fs_then_def reply_def rt_default_def rt_def
        all_dirs_def list_all_dirs_def get_def)
qed

lemma full_path_quiet:
  assumes inv: "fuse_inv fe fs" and "dir_path fe (fs_store fs) parent = Some p" and "from_utf8 name = Some n"
  shows "\<exists>fs'. full_path_of fe parent name fs = (Inr (p, join_path p n), fs') \<and> same_store fe fs fs'"
  using parent_path_quiet [OF assms(1,2)] assms(3)
  by (auto simp: full_path_of_def name_str_def fs_then_def reply_def)

lemma join_path_nonempty: "n \<noteq> [] \<Longrightarrow> join_path p n \<noteq> []"
  by (simp add: join_path_def)

lemma fuse_inv_upd:
  assumes "fuse_inv fe fs" and "store_inv (fe_store fe) w" and "dom (view (fe_store fe) w) \<subseteq> dom (stored fe fs)"
  shows "fuse_inv fe (fs\<lparr>fs_store := w\<rparr>)"
  using assms by (auto simp: fuse_inv_def stored_def intro: inj_on_subset)

lemma direct_child_name_iff:
  "direct_child_name full p = Some leaf \<longleftrightarrow> full = join_path p leaf \<and> CHR ''/'' \<notin> set leaf"
  by (auto simp: direct_child_name_def join_path_def bind_eq_Some_conv strip_prefix_iff)

abbreviation entry_name :: "ino \<times> file_type \<times> string \<Rightarrow> string" where
  "entry_name x \<equiv> snd (snd x)"

lemma child_file_entries_names:
  "entry_name ` set (child_file_entries fe p seen ls) =
     {leaf. \<exists>l\<in>set ls. direct_child_name (l_name l) p = Some leaf} - set seen"
proof (induction ls arbitrary: seen)
  case (Cons link ls)
  then show ?case by (cases "direct_child_name (l_name link) p") auto
qed simp

lemma child_file_entries_distinct:
  "distinct (map entry_name (child_file_entries fe p seen ls))"
proof (induction ls arbitrary: seen)
  case (Cons link ls)
  show ?case
  proof (cases "direct_child_name (l_name link) p")
    case (Some leaf)
    have "leaf \<notin> entry_name ` set (child_file_entries fe p (leaf # seen) ls)"
      unfolding child_file_entries_names by simp
    with Cons Some show ?thesis by simp
  qed (use Cons in simp)
qed simp

lemma child_file_entries_ino:
  "x \<in> set (child_file_entries fe p seen ls) \<Longrightarrow> fst x = file_ino fe (join_path p (entry_name x))"
  by (induction ls arbitrary: seen) (auto split: option.splits if_splits)

text \<open>The listing of a directory, without the first two entries.\<close>

definition listing :: "fuse_env \<Rightarrow> world \<Rightarrow> string \<Rightarrow> (ino \<times> file_type \<times> string) list" where
  "listing fe w p =
     (let ds = child_dir_entries fe p (sort_key d_path (filter (\<lambda>d. d_parent d = p) (dirs w)))
      in ds @ child_file_entries fe p (map entry_name ds) (links w))"

lemma fuse_readdir_quiet:
  assumes inv: "fuse_inv fe fs" and p: "dir_path fe (fs_store fs) ino = Some p"
  shows "fst (fuse_readdir fe room ino off fs) =
    Inr (take room (drop (unat off) (map (\<lambda>i. (((ino, Directory, ''.'') # (ROOT_INO, Directory, ''..'') #
        listing fe (fs_store fs) p) ! i, word_of_nat (i + 1)))
      [0..<length (listing fe (fs_store fs) p) + 2])))"
proof -
  obtain fs1 where 1: "parent_path_of fe ino fs = (Inr p, fs1)" "same_store fe fs fs1"
    "dirs (fs_store fs1) = dirs (fs_store fs)" "links (fs_store fs1) = links (fs_store fs)"
    using parent_path_quiet [OF inv p] by blast
  have q: "quiet (fs_store fs1)" using fuse_invD(2) [OF same_storeD(1) [OF 1(2) inv]] .
  have "rt_default [] (list_child_dirs p) fs1 =
      (Inr (sort_key d_path (filter (\<lambda>d. d_parent d = p) (dirs (fs_store fs)))), fs1\<lparr>fs_store := pop (fs_store fs1)\<rparr>)"
    using q 1(3) by (simp add: rt_default_def rt_def list_child_dirs_def list_dirs_by_parent_def get_def)
  moreover have "all_files (fs1\<lparr>fs_store := pop (fs_store fs1)\<rparr>) =
      (Inr (links (fs_store fs)), fs1\<lparr>fs_store := pop (pop (fs_store fs1))\<rparr>)"
    using q 1(4) by (simp add: all_files_quiet)
  ultimately show ?thesis
    using 1(1) by (simp add: fuse_readdir_def fs_then_def reply_def listing_def comp_def Let_def)
qed

lemma child_dir_entries_names:
  "entry_name ` set (child_dir_entries fe p ds) = {leaf. \<exists>d\<in>set ds. direct_child_name (d_path d) p = Some leaf}"
  by (auto simp: child_dir_entries_def List.map_filter_def image_image split: option.splits) force+

lemma child_dir_entries_distinct:
  "distinct (map d_path ds) \<Longrightarrow> distinct (map entry_name (child_dir_entries fe p ds))"
proof (induction ds)
  case (Cons d ds)
  show ?case
  proof (cases "direct_child_name (d_path d) p")
    case (Some leaf)
    have "leaf \<notin> entry_name ` set (child_dir_entries fe p ds)"
      unfolding child_dir_entries_names using Some Cons.prems by (auto simp: direct_child_name_iff image_iff)
    with Some Cons show ?thesis by (simp add: child_dir_entries_def map_filter_simps)
  qed (use Cons in \<open>simp add: child_dir_entries_def map_filter_simps\<close>)
qed (simp add: child_dir_entries_def map_filter_simps)

text \<open>The part of a rename after the names are known.\<close>

lemma rename_paths:
  assumes inv: "fuse_inv fe fs" and d: "stored fe fs old = Some d" and new: "new \<noteq> []"
    and adm: "admits (fe_store fe) (fs_store fs) d"
    and inj: "inj_on (file_ino fe) (insert new (dom (stored fe fs)))"
  shows "\<exists>fs'. fs_then (rt_or ENOENT (get_binary_data (fe_store fe) old)) (\<lambda>data.
      fs_then (fuse_put fe new data True) (\<lambda>_. rt_ignore (delete old False))) fs = (Inr (), fs') \<and>
    fuse_inv fe fs' \<and> stored fe fs' = ((stored fe fs)(new \<mapsto> d))(old := None) \<and> write_buf fs' = write_buf fs"
proof -
  have old: "old \<noteq> []" by (rule stored_nonempty [OF inv d])
  obtain fs1 where 1: "rt_or ENOENT (get_binary_data (fe_store fe) old) fs = (Inr d, fs1)" "same_store fe fs fs1"
    using rt_get_stored [OF inv old, of ENOENT] d by auto
  note 11 = same_storeD [OF 1(2) inv]
  obtain w2 where 2: "fuse_put fe new d True fs1 = (Inr (), fs1\<lparr>fs_store := w2\<rparr>)" "fuse_inv fe (fs1\<lparr>fs_store := w2\<rparr>)"
    "stored fe (fs1\<lparr>fs_store := w2\<rparr>) = (stored fe fs)(new \<mapsto> d)"
    using rt_put_stored [OF 11(1) new, of d EIO True "compressed fs1"] 11(2,6) adm inj by (auto simp: fuse_put_def)
  obtain w3 where 3: "delete old False w2 = (Inr (), w3)" "store_inv (fe_store fe) w3"
    "view (fe_store fe) w3 = (view (fe_store fe) w2)(old := None)"
    using sm.del_removes [of "fe_store fe" w2 old] fuse_invD(1) [OF 2(2)] old by auto
  let ?fs = "fs1\<lparr>fs_store := w3\<rparr>"
  have "fuse_inv fe ?fs"
    using fuse_inv_upd [OF 2(2) 3(2)] 3(3) by (auto simp: stored_def)
  moreover have "stored fe ?fs = ((stored fe fs)(new \<mapsto> d))(old := None)"
    using 2(3) 3(3) by (simp add: stored_def)
  ultimately show ?thesis
    using 1(1) 2(1) 3(1) 11(4) by (auto simp: fs_then_def rt_ignore_def rt_def)
qed

section \<open>Properties\<close>


definition demo_fuse_env :: fuse_env where
  "demo_fuse_env = \<lparr>fe_store = demo_env,
     default_hash = (\<lambda>xs. word_of_nat (sum_list (map of_char (concat xs))))\<rparr>"

definition demo_fs :: lina_fs where
  "demo_fs = \<lparr>fs_store = demo_store [], write_buf = Map.empty, compressed = False\<rparr>"

lemma demo_fs_facts:
  "fuse_inv demo_fuse_env demo_fs" "shown demo_fuse_env demo_fs = view demo_env (demo_store [])"
  "stored demo_fuse_env demo_fs = view demo_env (demo_store [])" "fe_store demo_fuse_env = demo_env"
  "fs_store demo_fs = demo_store []" "compressed demo_fs = False"
proof -
  show st: "stored demo_fuse_env demo_fs = view demo_env (demo_store [])"
    and "shown demo_fuse_env demo_fs = view demo_env (demo_store [])"
    and sel: "fe_store demo_fuse_env = demo_env" "fs_store demo_fs = demo_store []" "compressed demo_fs = False"
    by (auto simp: stored_def shown_def demo_fuse_env_def demo_fs_def fun_eq_iff split: option.splits)
  have "file_ino demo_fuse_env ''a.txt'' = 0x1EF" "file_ino demo_fuse_env ''b.txt'' = 0x1F0"
    "file_ino demo_fuse_env ''c'' = 0x63"
    by (simp_all add: file_ino_def demo_fuse_env_def ROOT_INO_def)
  then have "inj_on (file_ino demo_fuse_env) {''a.txt'', ''b.txt'', ''c''}" by (simp add: inj_on_def)
  moreover have "dom (view demo_env (demo_store [])) = {''a.txt'', ''b.txt'', ''c''}"
    by (auto simp: demo_full_view split: if_splits)
  moreover have "store_inv demo_env (demo_store [])"
    using demo_full_ok [of "[]"] demo_lawful by (simp add: store_inv_def)
  ultimately show "fuse_inv demo_fuse_env demo_fs" by (simp add: fuse_inv_def st sel)
qed


text \<open>A flush makes what a file shows durable: the content moves into the store, where a new mount finds it, and
  no file changes.\<close>

theorem fuse_flush_persists:
  assumes "fuse_inv fe fs" and "shown fe fs n = Some c" and "persistable fe fs n"
  shows "\<exists>fs'. fuse_flush fe (file_ino fe n) fs = (Inr (), fs') \<and> fuse_inv fe fs' \<and>
    stored fe fs' = (stored fe fs)(n \<mapsto> c) \<and> shown fe fs' = shown fe fs"
  using persist_buf_shown [OF assms] by (simp add: fuse_flush_def)

theorem fuse_flush_persists_witness:
  "\<exists>fs'. fuse_flush demo_fuse_env (file_ino demo_fuse_env ''c'')
      (demo_fs\<lparr>write_buf := [file_ino demo_fuse_env ''c'' \<mapsto> [9, 9]]\<rparr>) = (Inr (), fs') \<and>
    stored demo_fuse_env fs' ''c'' = Some [9, 9]"
proof -
  let ?fs = "demo_fs\<lparr>write_buf := [file_ino demo_fuse_env ''c'' \<mapsto> [9, 9]]\<rparr>"
  have "shown demo_fuse_env ?fs ''c'' = Some [9, 9]"
    by (simp add: shown_def demo_fs_facts demo_full_view)
  moreover have "persistable demo_fuse_env ?fs ''c''"
    by (simp add: persistable_def demo_fs_facts demo_full_admits)
  ultimately show ?thesis using fuse_flush_persists [of demo_fuse_env ?fs "''c''" "[9, 9]"]
    by (auto simp: demo_fs_facts)
qed

text \<open>C39: A rename stores the old file's stored content under the new path and then deletes the old path.  Renaming a
  file to its own path therefore deletes it, and buffered writes stay with the old inode number.\<close>

theorem fuse_rename_effect:
  assumes "fuse_inv fe fs" and "dir_path fe (fs_store fs) parent = Some p" and "from_utf8 name = Some n"
    and "dir_path fe (fs_store fs) newparent = Some q" and "from_utf8 newname = Some m" and "m \<noteq> []"
    and "stored fe fs (join_path p n) = Some d" and "admits (fe_store fe) (fs_store fs) d"
    and "inj_on (file_ino fe) (insert (join_path q m) (dom (stored fe fs)))"
  shows "\<exists>fs'. fuse_rename fe parent name newparent newname fs = (Inr (), fs') \<and> fuse_inv fe fs' \<and>
    stored fe fs' = ((stored fe fs)(join_path q m \<mapsto> d))(join_path p n := None) \<and> write_buf fs' = write_buf fs"
proof -
  obtain fs1 where 1: "parent_path_of fe parent fs = (Inr p, fs1)" "same_store fe fs fs1"
    "dirs (fs_store fs1) = dirs (fs_store fs)"
    using parent_path_quiet [OF assms(1,2)] by blast
  note 11 = same_storeD [OF 1(2) assms(1)]
  have "dir_path fe (fs_store fs1) newparent = Some q" using assms(4) unfolding dir_path_def 1(3) .
  then obtain fs2 where 2: "parent_path_of fe newparent fs1 = (Inr q, fs2)" "same_store fe fs1 fs2"
    using parent_path_quiet [OF 11(1)] by blast
  note 22 = same_storeD [OF 2(2) 11(1)]
  show ?thesis
    using rename_paths [OF 22(1), of "join_path p n" d "join_path q m"] 1(1) 2(1) 11(2,4,6) 22(2,4,6) assms(3,5-9)
    by (simp add: fuse_rename_def name_str_def fs_then_def reply_def join_path_nonempty Let_def)
qed

theorem fuse_rename_effect_witness:
  "\<exists>fs'. fuse_rename demo_fuse_env ROOT_INO (as_bytes ''c'') ROOT_INO (as_bytes ''c'') demo_fs = (Inr (), fs') \<and>
    stored demo_fuse_env fs' ''c'' = None"
proof -
  have "from_utf8 (as_bytes ''c'') = Some ''c''" by code_simp
  moreover have "inj_on (file_ino demo_fuse_env) (insert ''c'' (dom (stored demo_fuse_env demo_fs)))"
    using demo_fs_facts(1) by (simp add: fuse_inv_def insert_absorb demo_fs_facts demo_full_view domIff)
  ultimately show ?thesis
    using fuse_rename_effect [OF demo_fs_facts(1), of ROOT_INO "[]" "as_bytes ''c''" "''c''" ROOT_INO "[]"
        "as_bytes ''c''" "''c''" "[4]"]
    by (auto simp: dir_path_def join_path_def demo_fs_facts demo_full_view demo_full_admits)
qed



end
