(* ===== verification/Lina_Client.thy ===== *)
theory Lina_Client
  imports Lina_Waitress
begin

text \<open>
  The Python client, \<^verbatim>\<open>client/python/lina_client.py\<close>.  What is at the other end of its socket is a parameter:
  \<open>ce_send\<close> takes the bytes of a request and gives the reads that the client's socket will return.  The
  server of \<open>Lina_Waitress\<close> is one such peer.
\<close>

section \<open>State and errors\<close>

datatype client_error =
    ConnectionError string
  | ProtocolError string
  | ChecksumError string
  | SocketError
  | OverflowError
  | UnicodeDecodeError
  | ValueError string

text \<open>\<open>'w\<close> is the state of the other end and of the clock.  \<^verbatim>\<open>AESGCM\<close> encryption takes key, nonce and data and
  refuses too long data.\<close>

record 'w client_env =
  ce_crc :: crc32
  ce_sha256 :: "byte list \<Rightarrow> byte list"
  ce_encrypt :: "byte list \<Rightarrow> byte list \<Rightarrow> byte list \<Rightarrow> byte list option"
  ce_urandom :: "nat \<Rightarrow> byte list"
  ce_time :: "'w \<Rightarrow> int"
  ce_connect :: "'w \<Rightarrow> (net_error + stream) \<times> 'w"
  ce_send :: "byte list \<Rightarrow> 'w \<Rightarrow> (net_error + stream) \<times> 'w"

text \<open>A socket that is connected holds what it has still to deliver; a failed connect leaves one that is not.
  \<open>cl_draws\<close> counts the nonces.\<close>

datatype socket = NoSocket | Unconnected | Connected stream

record client =
  cl_socket :: socket
  session_token :: "string option"
  token_expires_at :: "int option"
  cached_username :: "string option"
  cached_password :: "string option"
  auto_refresh :: bool
  refresh_buffer :: int
  cl_draws :: nat

definition client_init :: "bool \<Rightarrow> int \<Rightarrow> client" where
  "client_init refresh buffer =
     \<lparr>cl_socket = NoSocket, session_token = None, token_expires_at = None, cached_username = None,
      cached_password = None, auto_refresh = refresh, refresh_buffer = buffer, cl_draws = 0\<rparr>"

type_synonym ('w, 'a) cop = "client \<times> 'w \<Rightarrow> (client_error + 'a) \<times> client \<times> 'w"

definition cl_return :: "'a \<Rightarrow> ('w, 'a) cop" where
  "cl_return x s = (Inr x, s)"

definition cl_raise :: "client_error \<Rightarrow> ('w, 'a) cop" where
  "cl_raise e s = (Inl e, s)"

definition cl_bind :: "('w, 'a) cop \<Rightarrow> ('a \<Rightarrow> ('w, 'b) cop) \<Rightarrow> ('w, 'b) cop" where
  "cl_bind m f s = (case m s of (Inl e, s') \<Rightarrow> (Inl e, s') | (Inr x, s') \<Rightarrow> f x s')"

definition cl_get :: "(client \<Rightarrow> ('w, 'a) cop) \<Rightarrow> ('w, 'a) cop" where
  "cl_get f s = f (fst s) s"

definition cl_modify :: "(client \<Rightarrow> client) \<Rightarrow> ('w, unit) cop" where
  "cl_modify f s = (Inr (), f (fst s), snd s)"

text \<open>\<^verbatim>\<open>try: ... finally: ...\<close> with a clean-up that does not fail, and \<^verbatim>\<open>except socket.error\<close>, which a timeout
  also is.\<close>

definition cl_finally :: "('w, 'a) cop \<Rightarrow> (client \<Rightarrow> client) \<Rightarrow> ('w, 'a) cop" where
  "cl_finally m f s = (case m s of (r, c, w) \<Rightarrow> (r, f c, w))"

definition except_socket :: "('w, 'a) cop \<Rightarrow> client_error \<Rightarrow> ('w, 'a) cop" where
  "except_socket m e s = (case m s of (Inl SocketError, s') \<Rightarrow> (Inl e, s') | r \<Rightarrow> r)"

definition set_session_token :: "string \<Rightarrow> client \<Rightarrow> client" where
  "set_session_token tok c = c\<lparr>session_token := Some tok\<rparr>"

section \<open>The socket\<close>

definition disconnect :: "client \<Rightarrow> client" where
  "disconnect c = c\<lparr>cl_socket := NoSocket\<rparr>"

definition cl_connect :: "'w client_env \<Rightarrow> ('w, unit) cop" where
  "cl_connect ce = (\<lambda>(c, w).
     case ce_connect ce w of
       (Inl _, w') \<Rightarrow> (Inl (ConnectionError ''Failed to connect''), c\<lparr>cl_socket := Unconnected\<rparr>, w')
     | (Inr rx, w') \<Rightarrow> (Inr (), c\<lparr>cl_socket := Connected rx\<rparr>, w'))"

definition connected :: "'w client_env \<Rightarrow> ('w, unit) cop" where
  "connected ce = cl_get (\<lambda>c. if cl_socket c = NoSocket then cl_connect ce else cl_return ())"

text \<open>A silence that nobody waited for is over when the peer answers the next request.\<close>

definition sendall :: "'w client_env \<Rightarrow> byte list \<Rightarrow> ('w, unit) cop" where
  "sendall ce bs = (\<lambda>(c, w).
     case cl_socket c of
       Connected old \<Rightarrow>
         (case ce_send ce bs w of
            (Inl _, w') \<Rightarrow> (Inl SocketError, c, w')
          | (Inr rx, w') \<Rightarrow> (Inr (), c\<lparr>cl_socket := Connected (filter (\<lambda>e. e \<noteq> Silence) old @ rx)\<rparr>, w'))
     | _ \<Rightarrow> (Inl SocketError, c, w))"

text \<open>Reading with a function on the reads to come.\<close>

definition reads :: "(stream \<Rightarrow> (client_error + 'a) \<times> stream) \<Rightarrow> ('w, 'a) cop" where
  "reads f = (\<lambda>(c, w).
     case cl_socket c of
       Connected s \<Rightarrow> (case f s of (r, s') \<Rightarrow> (r, c\<lparr>cl_socket := Connected s'\<rparr>, w))
     | _ \<Rightarrow> (Inl SocketError, c, w))"

text \<open>\<^verbatim>\<open>socket.recv(n)\<close>: one read of at most \<open>n\<close> bytes; none at the end of the stream.  A silence is longer than the
  timeout.\<close>

fun recv_from :: "nat \<Rightarrow> stream \<Rightarrow> (client_error + byte list) \<times> stream" where
  "recv_from n [] = (Inr [], [])"
| "recv_from n (Silence # s) = (Inl SocketError, s)"
| "recv_from n (NetErr e # s) = (Inl SocketError, s)"
| "recv_from n (Chunk bs # s) =
     (if length bs \<le> n then (Inr bs, s) else (Inr (take n bs), Chunk (drop n bs) # s))"

definition recv :: "nat \<Rightarrow> ('w, byte list) cop" where
  "recv n = reads (recv_from n)"

text \<open>The loop of \<^verbatim>\<open>_recv_all\<close>, which asks for what is missing until it has it all.\<close>

fun recv_all_from :: "nat \<Rightarrow> byte list \<Rightarrow> stream \<Rightarrow> (client_error + byte list) \<times> stream" where
  "recv_all_from sz data [] =
     (if sz \<le> length data then (Inr data, [])
      else (Inl (ConnectionError ''Connection closed while receiving data''), []))"
| "recv_all_from sz data (Silence # s) =
     (if sz \<le> length data then (Inr data, Silence # s) else (Inl SocketError, s))"
| "recv_all_from sz data (NetErr e # s) =
     (if sz \<le> length data then (Inr data, NetErr e # s) else (Inl SocketError, s))"
| "recv_all_from sz data (Chunk bs # s) =
     (if sz \<le> length data then (Inr data, Chunk bs # s)
      else if bs = [] then (Inl (ConnectionError ''Connection closed while receiving data''), s)
      else if length bs \<le> sz - length data then recv_all_from sz (data @ bs) s
      else (Inr (data @ take (sz - length data) bs), Chunk (drop (sz - length data) bs) # s))"

definition recv_all :: "nat \<Rightarrow> ('w, byte list) cop" where
  "recv_all n = reads (recv_all_from n [])"

section \<open>Requests\<close>

definition LINA_NAME_MAX_LENGTH :: nat where
  "LINA_NAME_MAX_LENGTH = 255"

definition LINA_HEADER_BASE_LENGTH :: nat where
  "LINA_HEADER_BASE_LENGTH = 10"

definition build_identifier :: "string \<Rightarrow> string \<Rightarrow> byte list" where
  "build_identifier file_name bucket =
     (if bucket \<noteq> [] then as_bytes bucket @ [0] @ as_bytes file_name else as_bytes file_name)"

text \<open>The bytes of a request: the identifier must fit one byte of length, the data four.\<close>

definition request_bytes :: "crc32 \<Rightarrow> byte \<Rightarrow> string \<Rightarrow> byte list \<Rightarrow> byte list \<Rightarrow> client_error + byte list" where
  "request_bytes crc fl too_long identifier data =
     (if length identifier > LINA_NAME_MAX_LENGTH then Inl (ProtocolError too_long)
      else if length data \<ge> 2 ^ 32 then Inl OverflowError
      else
        let ilen = [word_of_nat (length identifier)];
            dlen = to_le_bytes32 (word_of_nat (length data));
            checksum = to_le_bytes32 (crc (ilen @ identifier @ dlen @ data))
        in Inr ([fl] @ ilen @ identifier @ dlen @ checksum @ data))"

definition cl_lift :: "client_error + 'a \<Rightarrow> ('w, 'a) cop" where
  "cl_lift r s = (r, s)"

text \<open>\<^verbatim>\<open>int.from_bytes(bs, 'little')\<close>, and the slice \<^verbatim>\<open>bs[i:j]\<close>, which ends where the bytes end.\<close>

fun from_bytes_le :: "byte list \<Rightarrow> nat" where
  "from_bytes_le [] = 0"
| "from_bytes_le (b # bs) = unat b + 256 * from_bytes_le bs"

definition py_slice :: "nat \<Rightarrow> nat \<Rightarrow> byte list \<Rightarrow> byte list" where
  "py_slice i j bs = take (j - i) (drop i bs)"

definition verify_checksum :: "crc32 \<Rightarrow> byte list \<Rightarrow> nat \<Rightarrow> byte list \<Rightarrow> nat \<Rightarrow> bool" where
  "verify_checksum crc identifier len data checksum \<longleftrightarrow>
     unat (crc ([word_of_nat (length identifier)] @ identifier @ to_le_bytes32 (word_of_nat len) @ data)) = checksum"

section \<open>Encryption\<close>

definition cl_encrypt_with_token :: "'w client_env \<Rightarrow> string \<Rightarrow> byte list \<Rightarrow> ('w, byte list) cop" where
  "cl_encrypt_with_token ce tok data = (\<lambda>(c, w).
     let key = ce_sha256 ce (as_bytes tok); nonce = ce_urandom ce (cl_draws c) in
     (case ce_encrypt ce key nonce data of
        None \<Rightarrow> Inl OverflowError
      | Some ciphertext \<Rightarrow> Inr (nonce @ ciphertext),
      c\<lparr>cl_draws := Suc (cl_draws c)\<rparr>, w))"

section \<open>The handshake\<close>

definition py_space :: "char \<Rightarrow> bool" where
  "py_space ch \<longleftrightarrow> ch \<in> {CHR '' '', CHR 0x09, CHR 0x0A, CHR 0x0B, CHR 0x0C, CHR 0x0D}"

definition py_strip :: "string \<Rightarrow> string" where
  "py_strip s = rev (dropWhile py_space (rev (dropWhile py_space s)))"

text \<open>\<^verbatim>\<open>int(s)\<close>: spaces around, a sign, and digits, which single underscores may separate.\<close>

definition py_int :: "string \<Rightarrow> int option" where
  "py_int s =
     (let t = py_strip s;
          (neg, u) = (case t of
             c # u \<Rightarrow> if c = CHR ''-'' then (True, u) else if c = CHR ''+'' then (False, u) else (False, t)
           | [] \<Rightarrow> (False, t));
          parts = split_on (CHR ''_'') u
      in if list_all (\<lambda>p. p \<noteq> [] \<and> list_all is_digit p) parts
         then Some ((if neg then - 1 else 1) * int (digits_value (concat parts)))
         else None)"

text \<open>What the error codes of a refused handshake are reported as.\<close>

definition handshake_message :: "string \<Rightarrow> byte \<Rightarrow> string" where
  "handshake_message other code =
     (if code = 1 then ''Invalid password''
      else if code = 2 then ''Authentication disabled''
      else if code = 127 then ''Internal server error''
      else other @ nat_str (unat code))"

definition handshake_error :: "byte \<Rightarrow> nat \<Rightarrow> ('w, 'a) cop" where
  "handshake_error st dlen_recv =
     (let plain = cl_raise (ProtocolError (''Authentication failed with status: '' @ nat_str (unat st))) in
      if dlen_recv > 0
      then cl_bind (recv_all dlen_recv) (\<lambda>error_data.
        case error_data of
          [] \<Rightarrow> plain
        | code # _ \<Rightarrow>
            cl_raise (ProtocolError (handshake_message ''Authentication failed with error code: '' code)))
      else plain)"

definition handshake_token :: "byte list \<Rightarrow> ('w, string \<times> int) cop" where
  "handshake_token response_data =
     (case response_data of
        [] \<Rightarrow> cl_raise (ProtocolError ''Empty auth response received'')
      | handshake_status # rest \<Rightarrow>
          if handshake_status = 0
          then (case position ((=) 0) rest of
                  None \<Rightarrow> cl_raise (ProtocolError ''Invalid auth response: missing null terminator'')
                | Some null_pos \<Rightarrow>
                    (case (from_utf8 (take null_pos rest), from_utf8 (drop (null_pos + 1) rest)) of
                       (Some tok, Some expires_at_str) \<Rightarrow>
                         (case py_int expires_at_str of
                            None \<Rightarrow> cl_raise (ValueError expires_at_str)
                          | Some expires_at \<Rightarrow>
                              cl_bind (cl_modify (\<lambda>c. c\<lparr>session_token := Some tok,
                                                       token_expires_at := Some expires_at\<rparr>))
                                (\<lambda>_. cl_return (tok, expires_at)))
                     | _ \<Rightarrow> cl_raise UnicodeDecodeError))
          else cl_raise (ProtocolError (handshake_message ''Handshake failed with status: '' handshake_status)))"

definition cache_credentials :: "string \<Rightarrow> string \<Rightarrow> client \<Rightarrow> client" where
  "cache_credentials username password c = c\<lparr>cached_username := Some username, cached_password := Some password\<rparr>"

definition clear_cached_credentials :: "client \<Rightarrow> client" where
  "clear_cached_credentials c = c\<lparr>cached_username := None, cached_password := None\<rparr>"

definition lina_handshake :: "'w client_env \<Rightarrow> string \<Rightarrow> string \<Rightarrow> bool \<Rightarrow> ('w, string \<times> int) cop" where
  "lina_handshake ce username password cache =
     cl_bind (if cache then cl_modify (cache_credentials username password) else cl_return ()) (\<lambda>_.
     cl_bind (connected ce) (\<lambda>_.
     cl_bind (cl_lift (request_bytes (ce_crc ce) 0x60 ''Username too long'' (as_bytes username)
                         (as_bytes password @ [0]))) (\<lambda>bs.
     cl_bind (except_socket (sendall ce bs) (ConnectionError ''Failed to send auth request'')) (\<lambda>_.
     cl_bind (except_socket (recv LINA_HEADER_BASE_LENGTH)
                (ConnectionError ''Failed to receive auth response header'')) (\<lambda>header.
     if length header < LINA_HEADER_BASE_LENGTH then cl_raise (ProtocolError ''Incomplete header received'')
     else
       let st = byte_at header 0; p = 2 + unat (byte_at header 1);
           dlen_recv = from_bytes_le (py_slice p (p + 4) header)
       in if st \<noteq> 0 then handshake_error st dlen_recv
          else if dlen_recv > 0 then cl_bind (recv_all dlen_recv) handshake_token
          else cl_raise (ProtocolError ''Empty auth response received''))))))"

text \<open>The refresh before every operation.\<close>

definition is_token_expired :: "int \<Rightarrow> client \<Rightarrow> bool" where
  "is_token_expired now c =
     (case token_expires_at c of None \<Rightarrow> True | Some t \<Rightarrow> now \<ge> t - refresh_buffer c)"

definition has_credentials :: "client \<Rightarrow> bool" where
  "has_credentials c \<longleftrightarrow>
     cached_username c \<notin> {None, Some []} \<and> cached_password c \<notin> {None, Some []}"

definition refresh_token_if_needed :: "'w client_env \<Rightarrow> ('w, unit) cop" where
  "refresh_token_if_needed ce = (\<lambda>(c, w).
     if \<not> auto_refresh c then (Inr (), c, w)
     else if session_token c = None \<and> \<not> has_credentials c then (Inr (), c, w)
     else if is_token_expired (ce_time ce w) c
     then (if has_credentials c
           then cl_bind (lina_handshake ce (the (cached_username c)) (the (cached_password c)) True)
                  (\<lambda>_. cl_return ()) (c, w)
           else (Inl (ProtocolError ''Token expired and no cached credentials available for refresh''), c, w))
     else (Inr (), c, w))"

section \<open>The operations\<close>

text \<open>The token of a client that has one, \<^verbatim>\<open>if self.session_token\<close>.\<close>

definition active_token :: "client \<Rightarrow> string option" where
  "active_token c = (case session_token c of Some t \<Rightarrow> if t \<noteq> [] then Some t else None | None \<Rightarrow> None)"

definition upload_data :: "'w client_env \<Rightarrow> byte list \<Rightarrow> ('w, byte list) cop" where
  "upload_data ce file_data = cl_get (\<lambda>c.
     case active_token c of
       Some t \<Rightarrow> cl_bind (cl_encrypt_with_token ce t file_data) (\<lambda>enc. cl_return (as_bytes t @ [0] @ enc))
     | None \<Rightarrow> cl_return file_data)"

definition token_data :: "client \<Rightarrow> byte list" where
  "token_data c = (case active_token c of Some t \<Rightarrow> as_bytes t @ [0] | None \<Rightarrow> [])"

text \<open>The reply to an upload or a delete: only the status is looked at.\<close>

definition expect_success :: "byte list \<Rightarrow> ('w, bool) cop" where
  "expect_success identifier =
     cl_bind (except_socket (recv_all (LINA_HEADER_BASE_LENGTH + length identifier))
                (ConnectionError ''Failed to receive response'')) (\<lambda>resp.
     if byte_at resp 0 \<noteq> 0
     then cl_raise (ProtocolError (''Server returned error code: '' @ nat_str (unat (byte_at resp 0))))
     else cl_return True)"

definition lina_upload_file :: "'w client_env \<Rightarrow> string \<Rightarrow> byte list \<Rightarrow> string \<Rightarrow> ('w, bool) cop" where
  "lina_upload_file ce file_name content bucket =
     cl_bind (refresh_token_if_needed ce) (\<lambda>_.
     cl_bind (connected ce) (\<lambda>_.
     cl_finally
       (cl_bind (upload_data ce content) (\<lambda>file_data.
        let identifier = build_identifier file_name bucket in
        cl_bind (cl_lift (request_bytes (ce_crc ce) 0x80 ''File name too long'' identifier file_data)) (\<lambda>bs.
        cl_bind (except_socket (sendall ce bs) (ConnectionError ''Failed to send data'')) (\<lambda>_.
        expect_success identifier))))
       disconnect))"

definition read_download :: "'w client_env \<Rightarrow> byte list \<Rightarrow> ('w, byte list) cop" where
  "read_download ce identifier =
     cl_bind (except_socket (recv_all (LINA_HEADER_BASE_LENGTH + length identifier))
                (ConnectionError ''Failed to receive header'')) (\<lambda>header.
     let st = byte_at header 0; ilen_recv = unat (byte_at header 1);
         identifier_recv = py_slice 2 (2 + ilen_recv) header; p = 2 + ilen_recv;
         len = from_bytes_le (py_slice p (p + 4) header);
         checksum = from_bytes_le (py_slice (p + 4) (p + 8) header)
     in if st \<noteq> 0 then cl_raise (ProtocolError (''Server returned error code: '' @ nat_str (unat st)))
        else
          cl_bind (except_socket (recv_all len) (ConnectionError ''Failed to receive data'')) (\<lambda>data.
          if verify_checksum (ce_crc ce) identifier_recv len data checksum then cl_return data
          else cl_raise (ChecksumError ''Checksum verification failed'')))"

definition lina_download_file :: "'w client_env \<Rightarrow> string \<Rightarrow> string \<Rightarrow> ('w, byte list) cop" where
  "lina_download_file ce file_name bucket =
     cl_bind (refresh_token_if_needed ce) (\<lambda>_.
     cl_bind (connected ce) (\<lambda>_.
     cl_finally
       (cl_get (\<lambda>c.
        let identifier = build_identifier file_name bucket in
        cl_bind (cl_lift (request_bytes (ce_crc ce) 0x40 ''File name too long'' identifier (token_data c))) (\<lambda>bs.
        cl_bind (except_socket (sendall ce bs) (ConnectionError ''Failed to send request'')) (\<lambda>_.
        read_download ce identifier))))
       disconnect))"

definition lina_delete_file :: "'w client_env \<Rightarrow> string \<Rightarrow> string \<Rightarrow> ('w, bool) cop" where
  "lina_delete_file ce file_name bucket =
     cl_bind (refresh_token_if_needed ce) (\<lambda>_.
     cl_bind (connected ce) (\<lambda>_.
     cl_finally
       (cl_get (\<lambda>c.
        let identifier = build_identifier file_name bucket in
        cl_bind (cl_lift (request_bytes (ce_crc ce) 0xC0 ''File name too long'' identifier (token_data c))) (\<lambda>bs.
        cl_bind (except_socket (sendall ce bs) (ConnectionError ''Failed to send delete request'')) (\<lambda>_.
        expect_success identifier))))
       disconnect))"

end
