(* ===== verification/Lina_Client_Thms.thy ===== *)
theory Lina_Client_Thms
  imports Lina_Client
begin

text \<open>
  The Python client against the server: what the requests it builds mean to the server, and what it makes
  of the replies.
\<close>

section \<open>Numbers on the wire\<close>

lemma from_bytes_le_to_le: "from_bytes_le (to_le_bytes32 w) = unat w"
proof -
  let ?n = "unat w"
  have lt: "?n < 4294967296" using unsigned_less [of w] by simp
  have b: "unat (ucast (drop_bit k w) :: byte) = ?n div 2 ^ k mod 256" for k
    by (simp add: unsigned_ucast_eq unat_drop_bit_eq take_bit_eq_mod flip: drop_bit_eq_div)
  have "from_bytes_le (to_le_bytes32 w) =
      ?n mod 256 + 256 * (?n div 256 mod 256 + 256 * (?n div 65536 mod 256 + 256 * (?n div 16777216 mod 256)))"
    using b [of 0] b [of 8] b [of 16] b [of 24] by (simp add: to_le_bytes32_def)
  also have "?n div 65536 = ?n div 256 div 256" by (simp add: div_mult2_eq [symmetric])
  also have "?n div 16777216 = ?n div 256 div 256 div 256" by (simp add: div_mult2_eq [symmetric])
  also have "?n div 256 div 256 div 256 mod 256 = ?n div 256 div 256 div 256"
    using lt by (simp add: div_mult2_eq [symmetric])
  finally have "from_bytes_le (to_le_bytes32 w) = ?n mod 256 + 256 * (?n div 256 mod 256 +
      256 * (?n div 256 div 256 mod 256 + 256 * (?n div 256 div 256 div 256)))" .
  also have "\<dots> = ?n" by (simp only: mod_mult_div_eq)
  finally show ?thesis .
qed

lemma py_int_nat_str: "py_int (nat_str n) = Some (int n)"
proof -
  note d = nat_str_digits [of n]
  have ns: "\<not> py_space c" "c \<noteq> CHR ''-''" "c \<noteq> CHR ''+''" "c \<noteq> CHR ''_''" if "is_digit c" for c
    using that by (auto simp: py_space_def is_digit_def)
  have dw: "dropWhile py_space xs = xs" if "list_all is_digit xs" for xs
    using that ns(1) by (cases xs) auto
  have "py_strip (nat_str n) = nat_str n"
    using d dw [of "nat_str n"] dw [of "rev (nat_str n)"] by (simp add: py_strip_def)
  moreover have "split_on (CHR ''_'') (nat_str n) = [nat_str n]"
    using d ns(4) by (intro split_on_free) (auto simp: list_all_iff)
  moreover obtain c u where "nat_str n = c # u" "is_digit c" using d by (cases "nat_str n") auto
  ultimately show ?thesis using d ns(2,3) [of c] by (simp add: py_int_def Let_def)
qed

lemma as_bytes_Nil [simp]: "as_bytes [] = []"
  by (simp add: as_bytes_def)

section \<open>The client's monad\<close>

lemma cl_bind_simps [simp]:
  "m s = (Inr x, s') \<Longrightarrow> cl_bind m f s = f x s'" "m s = (Inl e, s') \<Longrightarrow> cl_bind m f s = (Inl e, s')"
  by (simp_all add: cl_bind_def)

section \<open>Requests the server reads\<close>

definition client_message :: "crc32 \<Rightarrow> byte \<Rightarrow> byte list \<Rightarrow> byte list \<Rightarrow> lina_protocol" where
  "client_message crc fl idn d = (reply_message crc NoStatus idn d)\<lparr>m_flags := fl\<rparr>"

lemma client_message_sel [simp]:
  "m_flags (client_message crc fl idn d) = fl" "p_identifier (m_payload (client_message crc fl idn d)) = idn"
  "p_data (m_payload (client_message crc fl idn d)) = d" "message_op (client_message crc fl idn d) = from_flags fl"
  by (simp_all add: client_message_def message_op_def)

text \<open>A request that fits is read by the server as it was meant.\<close>

lemma request_bytes_parsed:
  fixes E :: server_env
  assumes "length idn \<le> LINA_NAME_MAX_LENGTH" and "length d < 2 ^ 32"
    and "(word_of_nat (length d) :: u32) \<le> ucast (ev_max_payload E)"
  shows "\<exists>bs. request_bytes (ev_crc E) fl t idn d = Inr bs \<and>
    parse_protocol_message (ev_crc E) (ev_max_payload E) lina_protocol_new [Chunk bs] =
      (Inr (client_message (ev_crc E) fl idn d), [])"
proof -
  let ?m = "client_message (ev_crc E) fl idn d"
  let ?bs = "fl # tl (serialize_protocol_message ?m)"
  have "request_bytes (ev_crc E) fl t idn d = Inr ?bs"
    using assms(1,2)
    by (simp add: request_bytes_def client_message_def reply_message_def serialize_protocol_message_def
        calculate_checksum_def Let_def)
  moreover have "sized ?m" "verify (ev_crc E) ?m"
    using reply_message_sized [of idn d "ev_crc E" NoStatus] reply_message_verify [of "ev_crc E" NoStatus idn d] assms(1,2)
    by (simp_all add: client_message_def sized_def verify_def calculate_checksum_def LINA_NAME_MAX_LENGTH_def)
  then have "carries_request E [Chunk ?bs] ?m"
    using assms(3) by (simp add: carries_request_def) (simp add: client_message_def)
  from carries_request_parse [OF this, of "[]"]
  have "parse_protocol_message (ev_crc E) (ev_max_payload E) lina_protocol_new [Chunk ?bs] = (Inr ?m, [])" by simp
  ultimately show ?thesis by blast
qed

text \<open>The server as the peer of a client: a request arrives in one read, its reply is sent in one piece, and
  the connection then stays silent or is closed.\<close>

definition server_send :: "server_env \<Rightarrow> ip_addr \<Rightarrow> byte list \<Rightarrow> server \<Rightarrow> (net_error + stream) \<times> server" where
  "server_send E ip bs s =
     (case parse_protocol_message (ev_crc E) (ev_max_payload E) lina_protocol_new [Chunk bs] of
        (Inl _, _) \<Rightarrow> (Inr [], s)
      | (Inr m, _) \<Rightarrow>
          (case waitress_request E (porter_turn E) ip m s of
             ((sent, open), s') \<Rightarrow> (Inr (Chunk sent # (if open then [Silence] else [])), s')))"

definition client_of ::
  "server_env \<Rightarrow> ip_addr \<Rightarrow> (byte list \<Rightarrow> byte list \<Rightarrow> byte list \<Rightarrow> byte list option) \<Rightarrow> (nat \<Rightarrow> byte list) \<Rightarrow>
   server client_env" where
  "client_of E ip enc rnd =
     \<lparr>ce_crc = ev_crc E, ce_sha256 = sha256 (ev_auth E), ce_encrypt = enc, ce_urandom = rnd,
      ce_time = (\<lambda>s. int (unix_now (sv_auth s))), ce_connect = (\<lambda>s. (Inr [], s)), ce_send = server_send E ip\<rparr>"

text \<open>The identifier the client builds is the bucket and key the server takes it apart into.\<close>

definition plain_text :: "string \<Rightarrow> bool" where
  "plain_text n \<longleftrightarrow> CHR 0x00 \<notin> set n \<and> utf8_valid (as_bytes n)"

lemma plain_text_nul: "plain_text n \<Longrightarrow> \<forall>b\<in>set (as_bytes n). \<not> b = 0"
  by (auto simp: plain_text_def as_bytes_def)

lemma bucket_key_identifier:
  assumes "plain_text bucket" and "plain_text file_name"
  shows "bucket_key (build_identifier file_name bucket) = (if bucket = [] then DEFAULT_BUCKET else bucket, file_name)"
proof (cases "bucket = []")
  case True
  have "position (\<lambda>b. b = 0) (as_bytes file_name) = None"
    using plain_text_nul [OF assms(2)] by (simp only: position_None)
  with True assms(2) show ?thesis
    by (simp add: bucket_key_def build_identifier_def from_utf8_lossy_valid plain_text_def del: position_None)
next
  case False
  have "position (\<lambda>b. b = 0) (as_bytes bucket @ 0 # as_bytes file_name) = Some (length (as_bytes bucket))"
    using position_append [OF plain_text_nul [OF assms(1)], of "0 # as_bytes file_name"] by simp
  with False assms show ?thesis
    by (simp add: bucket_key_def build_identifier_def from_utf8_lossy_valid plain_text_def del: length_as_bytes)
qed

section \<open>Replies the client reads\<close>

lemma recv_all_from_done: "n \<le> length d \<Longrightarrow> recv_all_from n d s = (Inr d, s)"
  by (cases s rule: carried.cases) auto

lemma recv_all_from_chunk:
  assumes "n \<le> length bs" and "bs \<noteq> []"
  shows "recv_all_from n [] (Chunk bs # s) = (Inr (take n bs), if n = length bs then s else Chunk (drop n bs) # s)"
  using assms by (auto simp: recv_all_from_done)

lemma recv_all_from_silence:
  "length bs < n \<Longrightarrow> bs \<noteq> [] \<Longrightarrow> recv_all_from n [] (Chunk bs # Silence # s) = (Inl SocketError, s)"
  by simp

lemma sent_reply_bytes:
  "sent_reply E n (st, d) = [status_code st, word_of_nat (length n)] @ as_bytes n @
     to_le_bytes32 (word_of_nat (length d)) @
     to_le_bytes32 (ev_crc E ([word_of_nat (length n)] @ as_bytes n @ to_le_bytes32 (word_of_nat (length d)) @ d)) @ d"
  by (simp add: sent_reply_def reply_message_def serialize_protocol_message_def calculate_checksum_def Let_def)

lemma sent_reply_length: "length (sent_reply E n (st, d)) = 10 + length n + length d"
  by (simp add: sent_reply_bytes)

text \<open>Only the status byte of the reply to an upload or a delete is looked at, but the client waits for as many
  bytes as if the reply carried the identifier of the request.\<close>

lemma expect_success_reply:
  assumes "cl_socket c = Connected [Chunk (sent_reply E n (Success, [])), Silence]"
  shows "\<exists>c'. expect_success idn (c, w) =
    (if length idn \<le> length n then Inr True else Inl (ConnectionError ''Failed to receive response''), c', w) \<and>
    disconnect c' = disconnect c"
proof -
  let ?b = "sent_reply E n (Success, [])"
  have ne: "?b \<noteq> []" by (simp add: sent_reply_bytes)
  show ?thesis
  proof (cases "length idn \<le> length n")
    case True
    then have "recv_all_from (10 + length idn) [] [Chunk ?b, Silence] = (Inr (take (10 + length idn) ?b),
        if 10 + length idn = length ?b then [Silence] else [Chunk (drop (10 + length idn) ?b), Silence])"
      by (intro recv_all_from_chunk ne) (simp add: sent_reply_length)
    moreover have "byte_at (take (10 + length idn) ?b) 0 = 0" by (simp add: byte_at_def sent_reply_bytes)
    ultimately show ?thesis
      using assms True
      by (simp add: expect_success_def cl_bind_def except_socket_def recv_all_def reads_def cl_return_def
          LINA_HEADER_BASE_LENGTH_def disconnect_def del: recv_all_from.simps)
  next
    case False
    then have "recv_all_from (10 + length idn) [] [Chunk ?b, Silence] = (Inl SocketError, [])"
      by (intro recv_all_from_silence ne) (simp add: sent_reply_length)
    with assms False show ?thesis
      by (simp add: expect_success_def cl_bind_def except_socket_def recv_all_def reads_def
          LINA_HEADER_BASE_LENGTH_def disconnect_def del: recv_all_from.simps)
  qed
qed

section \<open>Operations against the server\<close>

text \<open>A client between two operations: without a socket, or with the one a handshake has left open, and with no need
  to refresh its token.\<close>

definition calm :: "client \<Rightarrow> bool" where
  "calm c \<longleftrightarrow> cl_socket c \<in> {NoSocket, Connected [Silence]}"

definition rested :: "server client_env \<Rightarrow> client \<Rightarrow> server \<Rightarrow> bool" where
  "rested ce c s \<longleftrightarrow> calm c \<and> refresh_token_if_needed ce (c, s) = (Inr (), c, s)"

definition dial :: "client \<Rightarrow> client" where
  "dial c = (if cl_socket c = NoSocket then c\<lparr>cl_socket := Connected []\<rparr> else c)"

lemma connected_calm:
  "connected (client_of E ip enc rnd) (c, s) = (Inr (), dial c, s)"
  by (simp add: connected_def cl_get_def cl_connect_def client_of_def dial_def cl_return_def)

lemma dial_calm: "calm c \<Longrightarrow> cl_socket (dial c) \<in> {Connected [], Connected [Silence]}"
  by (auto simp: dial_def calm_def)

lemma dial_sel [simp]:
  "session_token (dial c) = session_token c" "cl_draws (dial c) = cl_draws c" "active_token (dial c) = active_token c"
  "token_data (dial c) = token_data c"
  by (simp_all add: dial_def active_token_def token_data_def)

lemma disconnect_dial [simp]:
  "disconnect (dial c) = disconnect c" "disconnect (c\<lparr>cl_socket := x\<rparr>) = disconnect c"
  "disconnect (c\<lparr>cl_draws := k\<rparr>) = (disconnect c)\<lparr>cl_draws := k\<rparr>"
  by (simp_all add: disconnect_def dial_def)

text \<open>The size limits of a request.\<close>

definition fits :: "server_env \<Rightarrow> byte list \<Rightarrow> byte list \<Rightarrow> bool" where
  "fits E idn d \<longleftrightarrow> length idn \<le> LINA_NAME_MAX_LENGTH \<and> length d < 2 ^ 32 \<and>
     (word_of_nat (length d) :: u32) \<le> ucast (ev_max_payload E)"

lemma sendall_server:
  assumes "fits E idn d" and "cl_socket c \<in> {Connected [], Connected [Silence]}"
    and "waitress_request E (porter_turn E) ip (client_message (ev_crc E) fl idn d) s = ((sent, True), s')"
  shows "\<exists>bs. request_bytes (ev_crc E) fl t idn d = Inr bs \<and>
    except_socket (sendall (client_of E ip enc rnd) bs) er (c, s) =
      (Inr (), c\<lparr>cl_socket := Connected [Chunk sent, Silence]\<rparr>, s')"
proof -
  obtain bs where bs: "request_bytes (ev_crc E) fl t idn d = Inr bs"
    "parse_protocol_message (ev_crc E) (ev_max_payload E) lina_protocol_new [Chunk bs] =
      (Inr (client_message (ev_crc E) fl idn d), [])"
    using request_bytes_parsed [of idn d E fl t] assms(1) by (auto simp: fits_def)
  with assms(2,3) show ?thesis
    by (auto simp: sendall_def client_of_def server_send_def except_socket_def)
qed

lemma upload_against_server:
  assumes "rested (client_of E ip enc rnd) c s"
    and "upload_data (client_of E ip enc rnd) content (dial c, s) = (Inr fd, c1, s)"
    and "cl_socket c1 = cl_socket (dial c)" and "fits E (build_identifier name bucket) fd"
    and "waitress_request E (porter_turn E) ip
      (client_message (ev_crc E) 0x80 (build_identifier name bucket) fd) s = ((sent_reply E n (Success, []), True), s')"
  shows "lina_upload_file (client_of E ip enc rnd) name content bucket (c, s) =
    (if length (build_identifier name bucket) \<le> length n then Inr True
     else Inl (ConnectionError ''Failed to receive response''), disconnect c1, s')"
proof -
  let ?ce = "client_of E ip enc rnd" and ?idn = "build_identifier name bucket"
  let ?c2 = "c1\<lparr>cl_socket := Connected [Chunk (sent_reply E n (Success, [])), Silence]\<rparr>"
  have sock: "cl_socket c1 \<in> {Connected [], Connected [Silence]}"
    using assms(1,3) dial_calm [of c] by (simp add: rested_def)
  obtain bs where bs: "request_bytes (ev_crc E) 0x80 ''File name too long'' ?idn fd = Inr bs"
    "except_socket (sendall ?ce bs) (ConnectionError ''Failed to send data'') (c1, s) = (Inr (), ?c2, s')"
    using sendall_server [OF assms(4) sock assms(5)] by blast
  obtain c3 where c3: "expect_success ?idn (?c2, s') = (if length ?idn \<le> length n then Inr True
      else Inl (ConnectionError ''Failed to receive response''), c3, s')" "disconnect c3 = disconnect ?c2"
    using expect_success_reply [of ?c2 E n ?idn s'] by auto
  have crc: "ce_crc ?ce = ev_crc E" by (simp add: client_of_def)
  show ?thesis
    unfolding lina_upload_file_def crc
    using assms(1,2) connected_calm [of E ip enc rnd c s] bs c3
    by (simp add: rested_def cl_finally_def cl_lift_def Let_def)
qed

lemma op_flags [simp]: "from_flags 0x80 = OpWrite" "from_flags 0x40 = OpRead" "from_flags 0xC0 = OpDelete" "from_flags 0x60 = OpAuth"
  by code_simp+

definition named :: "string \<Rightarrow> string \<Rightarrow> string \<times> string" where
  "named file_name bucket = (if bucket = [] then DEFAULT_BUCKET else bucket, file_name)"

lemma upload_stores:
  assumes "server_ok E s" and "sv_draws s + 2 \<le> ev_horizon E" and "server_admits E s d"
    and "plain_text bucket" and "plain_text name"
    and "rested (client_of E ip enc rnd) c s"
    and "upload_data (client_of E ip enc rnd) content (dial c, s) = (Inr fd, c1, s)"
    and "cl_socket c1 = cl_socket (dial c)" and "fits E (build_identifier name bucket) fd"
    and "take_token OpWrite fd = (t, fd')" and "fst (valid_token E t s) = Inr tok" and "clear_data E tok fd' = Inr d"
  shows "\<exists>s'. lina_upload_file (client_of E ip enc rnd) name content bucket (c, s) =
      (if length (build_identifier name bucket) \<le> length (ev_uuid E (Suc (sv_draws s))) then Inr True
       else Inl (ConnectionError ''Failed to receive response''), disconnect c1, s') \<and> server_ok E s' \<and>
    object_map E s' = (if bound s (named name bucket) then object_map E s
                       else (object_map E s)(named name bucket \<mapsto> d))"
proof -
  let ?m = "client_message (ev_crc E) 0x80 (build_identifier name bucket) fd"
  obtain s' where s': "waitress_request E (porter_turn E) ip ?m s =
      ((sent_reply E (ev_uuid E (Suc (sv_draws s))) (Success, []), True), s')" "server_ok E s'"
    "object_map E s' = (if bound s (named name bucket) then object_map E s
                        else (object_map E s)(named name bucket \<mapsto> d))"
    using waitress_write_spec [OF assms(1-3), of ?m "named name bucket" t fd' tok] assms(10-12)
      bucket_key_identifier [OF assms(4,5)]
    by (auto simp: waitress_request_def advanced_spec_def named_def)
  from upload_against_server [OF assms(6-9) s'(1)] s'(2,3) show ?thesis by blast
qed

lemma take_token_text:
  "plain_text t \<Longrightarrow> take_token OpWrite (as_bytes t @ 0 # d) = (Some t, d)"
  using position_append [OF plain_text_nul, of t "0 # d"]
  by (simp add: take_token_def Let_def from_utf8_def plain_text_def)

text \<open>A download reads as much of the reply as would be its header if the reply carried the identifier of the
  request.  With an internal name of the same length the object is returned.  With a shorter one the client
  waits for bytes that do not come, and with one that is at least eight bytes longer it looks for length and
  checksum behind what it has read.\<close>

definition download_result :: "crc32 \<Rightarrow> byte list \<Rightarrow> string \<Rightarrow> byte list \<Rightarrow> client_error + byte list \<Rightarrow> bool" where
  "download_result crc idn n x r \<longleftrightarrow>
     (if length idn = length n then r = Inr x
      else if length n < length idn then r \<in> {Inl (ConnectionError ''Failed to receive header''),
                                             Inl (ConnectionError ''Failed to receive data'')}
      else length idn + 8 \<le> length n \<and>
           crc ([word_of_nat (length idn + 8)] @ take (length idn + 8) (as_bytes n) @ [0, 0, 0, 0]) \<noteq> 0 \<longrightarrow>
           r = Inl (ChecksumError ''Checksum verification failed''))"

lemma recv_all_connected:
  "cl_socket c = Connected s \<Longrightarrow>
   recv_all n (c, w) = (case recv_all_from n [] s of (r, s') \<Rightarrow> (r, c\<lparr>cl_socket := Connected s'\<rparr>, w))"
  by (simp add: recv_all_def reads_def)

lemma from_bytes_le_zero [simp]: "to_le_bytes32 0 = [0, 0, 0, 0]"
  by (simp add: to_le_bytes32_def)

lemma read_download_header:
  assumes "cl_socket c = Connected [Chunk (sent_reply E n (Success, x)), Silence]"
    and "length idn \<le> length n + length x" and "h = take (10 + length idn) (sent_reply E n (Success, x))"
    and "rest = (if length idn = length n + length x then [Silence]
                 else [Chunk (drop (10 + length idn) (sent_reply E n (Success, x))), Silence])"
  shows "except_socket (recv_all (LINA_HEADER_BASE_LENGTH + length idn)) e (c, w) =
    (Inr h, c\<lparr>cl_socket := Connected rest\<rparr>, w)"
proof -
  let ?b = "sent_reply E n (Success, x)"
  have "recv_all_from (10 + length idn) [] [Chunk ?b, Silence] = (Inr h, rest)"
    by (subst recv_all_from_chunk) (use assms(2-) in \<open>auto simp: sent_reply_length sent_reply_bytes\<close>)
  with assms(1) show ?thesis
    by (simp add: except_socket_def recv_all_connected LINA_HEADER_BASE_LENGTH_def del: recv_all_from.simps)
qed

lemma recv_all_keeps: "recv_all n (c, w) = (r, c', w') \<Longrightarrow> w' = w \<and> disconnect c' = disconnect c"
  by (auto simp: recv_all_def reads_def disconnect_def split: socket.splits prod.splits)

lemma read_download_keeps:
  "read_download ce idn (c, w) = (r, c', w') \<Longrightarrow> w' = w \<and> disconnect c' = disconnect c"
  by (auto simp: read_download_def cl_bind_def except_socket_def Let_def cl_return_def cl_raise_def
      split: prod.splits sum.splits client_error.splits if_splits dest!: recv_all_keeps)

lemma sent_reply_split:
  fixes x E n defines "D \<equiv> to_le_bytes32 (word_of_nat (length x))"
  defines "H \<equiv> [0, word_of_nat (length n)] @ as_bytes n @ D @
    to_le_bytes32 (ev_crc E ([word_of_nat (length n)] @ as_bytes n @ D @ x))"
  shows "take (10 + (length n + j)) (sent_reply E n (Success, x)) = H @ take j x"
    "drop (10 + (length n + j)) (sent_reply E n (Success, x)) = drop j x"
proof -
  have b: "sent_reply E n (Success, x) = H @ x" by (simp add: sent_reply_bytes H_def D_def)
  have "length H = 10 + length n" by (simp add: H_def D_def)
  then show "take (10 + (length n + j)) (sent_reply E n (Success, x)) = H @ take j x"
    "drop (10 + (length n + j)) (sent_reply E n (Success, x)) = drop j x"
    unfolding b by simp_all
qed

lemma header_fields:
  assumes "length N = l" and "length D = 4" and "length C = 4"
  shows "py_slice 2 (2 + l) (a # b # N @ D @ C @ y) = N" "py_slice (2 + l) (2 + l + 4) (a # b # N @ D @ C @ y) = D"
    "py_slice (2 + l + 4) (2 + l + 8) (a # b # N @ D @ C @ y) = C"
proof -
  have t: "2 + l - 2 = l" "2 + l + 4 - (2 + l) = 4" "2 + l + 8 - (2 + l + 4) = 4" by simp_all
  have e: "drop (2 + l) xs = drop l (drop 2 xs)" "drop (2 + l + 4) xs = drop 4 (drop l (drop 2 xs))" for xs :: "byte list"
    by (simp_all only: drop_drop ac_simps)
  have d: "drop (2 + l) (a # b # N @ D @ C @ y) = D @ C @ y" "drop (2 + l + 4) (a # b # N @ D @ C @ y) = C @ y"
    unfolding e using assms by simp_all
  show "py_slice 2 (2 + l) (a # b # N @ D @ C @ y) = N" "py_slice (2 + l) (2 + l + 4) (a # b # N @ D @ C @ y) = D"
    "py_slice (2 + l + 4) (2 + l + 8) (a # b # N @ D @ C @ y) = C"
    unfolding py_slice_def t d using assms by simp_all
qed

lemma read_download_fields:
  assumes "except_socket (recv_all (LINA_HEADER_BASE_LENGTH + length idn)) (ConnectionError ''Failed to receive header'')
      (c, w) = (Inr (0 # il # N @ D @ C @ y), c', w)"
    and "length N = unat il" and "length D = 4" and "length C = 4"
  shows "read_download ce idn (c, w) =
    cl_bind (except_socket (recv_all (from_bytes_le D)) (ConnectionError ''Failed to receive data'')) (\<lambda>data.
      if verify_checksum (ce_crc ce) N (from_bytes_le D) data (from_bytes_le C) then cl_return data
      else cl_raise (ChecksumError ''Checksum verification failed'')) (c', w)"
  using header_fields [OF assms(2-4), of 0 il y]
  by (simp add: read_download_def cl_bind_def [of "except_socket _ (ConnectionError ''Failed to receive header'')"] assms(1)
      Let_def byte_at_def)

lemma read_download_reply:
  assumes sock: "cl_socket c = Connected [Chunk (sent_reply E n (Success, x)), Silence]"
    and n: "length n < 256" and x: "length x < 2 ^ 32" and crc: "ce_crc ce = ev_crc E"
  shows "download_result (ev_crc E) idn n x (fst (read_download ce idn (c, w)))"
proof -
  let ?b = "sent_reply E n (Success, x)" and ?k = "length idn" and ?D = "to_le_bytes32 (word_of_nat (length x))"
  let ?C = "to_le_bytes32 (ev_crc E ([word_of_nat (length n)] @ as_bytes n @ ?D @ x))"
  have il: "unat (word_of_nat (length n) :: byte) = length n" using n by (simp add: unat_of_nat)
  have dl: "unat (word_of_nat (length x) :: u32) = length x" using x by (simp add: unat_of_nat)
  have b: "?b = 0 # word_of_nat (length n) # as_bytes n @ ?D @ ?C @ x" by (simp add: sent_reply_bytes)
  note wire = Let_def byte_at_def py_slice_def from_bytes_le_to_le il dl
  consider "length n + length x < ?k" | j where "?k = length n + j" "j \<le> length x" | "?k < length n" "?k + 8 \<le> length n"
    | "?k < length n" "\<not> ?k + 8 \<le> length n"
  proof -
    assume r: "length n + length x < ?k \<Longrightarrow> thesis" "\<And>j. ?k = length n + j \<Longrightarrow> j \<le> length x \<Longrightarrow> thesis"
      "?k < length n \<Longrightarrow> ?k + 8 \<le> length n \<Longrightarrow> thesis" "?k < length n \<Longrightarrow> \<not> ?k + 8 \<le> length n \<Longrightarrow> thesis"
    show thesis using r(1,3,4) r(2) [of "?k - length n"] by linarith
  qed
  then show ?thesis
  proof cases
    case 1
    then have "recv_all_from (10 + ?k) [] [Chunk ?b, Silence] = (Inl SocketError, [])"
      by (intro recv_all_from_silence) (simp_all add: sent_reply_length b)
    with 1 sock show ?thesis
      by (simp add: read_download_def cl_bind_def except_socket_def recv_all_connected LINA_HEADER_BASE_LENGTH_def
          download_result_def del: recv_all_from.simps)
  next
    case (2 j)
    have h: "take (10 + ?k) ?b = 0 # word_of_nat (length n) # as_bytes n @ ?D @ ?C @ take j x"
      unfolding 2(1) sent_reply_split by simp
    have t: "(if ?k = length n + length x then [Silence] else [Chunk (drop (10 + ?k) ?b), Silence]) =
        (if j = length x then [Silence] else [Chunk (drop j x), Silence])"
      unfolding 2(1) sent_reply_split by simp
    have "except_socket (recv_all (LINA_HEADER_BASE_LENGTH + ?k)) (ConnectionError ''Failed to receive header'') (c, w) =
        (Inr (0 # word_of_nat (length n) # as_bytes n @ ?D @ ?C @ take j x),
         c\<lparr>cl_socket := Connected (if j = length x then [Silence] else [Chunk (drop j x), Silence])\<rparr>, w)"
      by (rule read_download_header [OF sock _ h [symmetric] t [symmetric]]) (use 2 in simp)
    note r = read_download_fields [OF this, of ce, unfolded from_bytes_le_to_le dl]
    show ?thesis
      using 2 by (cases "j = 0") (auto simp: r il cl_bind_def except_socket_def recv_all_connected
          download_result_def verify_checksum_def cl_return_def crc)
  next
    case 3
    have h: "take (10 + ?k) ?b = 0 # word_of_nat (length n) # take (?k + 8) (as_bytes n)"
    proof -
      have e: "10 + ?k = Suc (Suc (?k + 8))" by simp
      show ?thesis unfolding b e take_Suc_Cons using 3 by simp
    qed
    show ?thesis
      using 3 read_download_header [OF sock _ h [symmetric] refl, of "ConnectionError ''Failed to receive header''" w]
      by (auto simp: read_download_def wire cl_bind_def except_socket_def recv_all_connected
          download_result_def verify_checksum_def cl_raise_def crc recv_all_from_done unsigned_eq_0_iff)
  qed (auto simp: download_result_def)
qed

lemma take_token_data:
  assumes "op \<noteq> OpWrite" and "\<And>t. active_token c = Some t \<Longrightarrow> plain_text t"
  shows "take_token op (token_data c) = (active_token c, [])"
proof (cases "active_token c")
  case (Some t)
  with assms(2) have "plain_text t" "0 \<notin> set (as_bytes t)" using plain_text_nul by blast+
  with Some assms(1) show ?thesis
    by (simp add: take_token_def token_data_def until_nul_append from_utf8_def plain_text_def)
qed (use assms(1) in \<open>simp add: take_token_def token_data_def\<close>)

text \<open>A client whose token, if it has one, the server accepts.\<close>

definition accepted :: "server_env \<Rightarrow> client \<Rightarrow> server \<Rightarrow> bool" where
  "accepted E c s \<longleftrightarrow> (\<forall>t. active_token c = Some t \<longrightarrow> plain_text t) \<and>
     (\<exists>tok. fst (valid_token E (active_token c) s) = Inr tok)"

lemma lookup_request:
  assumes "server_ok E s" and "sv_draws s + 1 \<le> ev_horizon E" and "plain_text bucket" and "plain_text name"
    and "accepted E c s" and "from_flags fl \<in> {OpRead, OpDelete}"
  shows "\<exists>r s'. waitress_request E (porter_turn E) ip
      (client_message (ev_crc E) fl (build_identifier name bucket) (token_data c)) s = (r, s') \<and> server_ok E s' \<and>
    (r, object_map E s') = advanced_spec E s (from_flags fl) (named name bucket) []"
proof -
  let ?m = "client_message (ev_crc E) fl (build_identifier name bucket) (token_data c)"
  obtain tok where tok: "fst (valid_token E (active_token c) s) = Inr tok" using assms(5) by (auto simp: accepted_def)
  have op: "from_flags fl \<noteq> OpWrite" "from_flags fl \<noteq> OpAuth" using assms(6) by auto
  have "take_token (from_flags fl) (p_data (m_payload ?m)) = (active_token c, [])"
    using take_token_data [OF op(1), of c] assms(5) by (auto simp: accepted_def)
  moreover have "clear_data E tok [] = Inr []" by (simp add: clear_data_def split: option.split)
  moreover have "bucket_key (p_identifier (m_payload ?m)) = named name bucket"
    using bucket_key_identifier [OF assms(3,4)] by (simp add: named_def)
  ultimately show ?thesis
    using waitress_lookup_spec [OF assms(1,2) _ op, of ?m "named name bucket" "active_token c" "[]" tok "[]"] tok op(2)
    by (auto simp: waitress_request_def)
qed

text \<open>The handshake: the status, the token and the expiry travel in the data of the reply.\<close>

lemma recv_header:
  assumes "cl_socket c = Connected [Chunk (sent_reply E [] (Success, x)), Silence]" and "x \<noteq> []"
  shows "recv LINA_HEADER_BASE_LENGTH (c, w) =
    (Inr (0 # 0 # [] @ to_le_bytes32 (word_of_nat (length x)) @
       to_le_bytes32 (ev_crc E (0 # to_le_bytes32 (word_of_nat (length x)) @ x)) @ []),
     c\<lparr>cl_socket := Connected [Chunk x, Silence]\<rparr>, w)"
proof -
  have "\<not> length (sent_reply E [] (Success, x)) \<le> 10" using assms(2) by (simp add: sent_reply_length)
  then show ?thesis
    using assms(1) sent_reply_split [of "[]" 0 E x]
    by (simp add: recv_def reads_def LINA_HEADER_BASE_LENGTH_def as_bytes_def)
qed

lemma utf8_valid_nat_str: "utf8_valid (as_bytes (nat_str n))"
proof -
  have "char_byte c < 0x80" if "is_digit c" for c
    using that by (simp add: is_digit_def word_less_nat_alt unat_char_byte)
  with nat_str_digits [of n] show ?thesis
    by (intro utf8_valid_ascii) (auto simp: as_bytes_def list_all_iff)
qed

lemma handshake_token_granted:
  assumes "plain_text tok"
  shows "handshake_token (0 # as_bytes tok @ 0 # as_bytes (nat_str e)) (c, w) =
    (Inr (tok, int e), c\<lparr>session_token := Some tok, token_expires_at := Some (int e)\<rparr>, w)"
proof -
  have "\<forall>b\<in>set (as_bytes tok). \<not> 0 = b" using plain_text_nul [OF assms] by metis
  then have "position ((=) 0) (as_bytes tok @ 0 # as_bytes (nat_str e)) = Some (length tok)"
    using position_append [of "as_bytes tok" "(=) 0" "0 # as_bytes (nat_str e)"] by simp
  moreover have "utf8_valid (as_bytes (nat_str e))" by (rule utf8_valid_nat_str)
  ultimately show ?thesis
    using assms py_int_nat_str [of e]
    by (simp add: handshake_token_def from_utf8_def plain_text_def cl_bind_def cl_modify_def cl_return_def)
qed

lemma lina_handshake_reply:
  assumes "(if cache then cl_modify (cache_credentials u pw) else cl_return ()) (c, s) = (Inr (), c0, s)"
    and "connected ce (c0, s) = (Inr (), c1, s1)"
    and "request_bytes (ce_crc ce) 0x60 ''Username too long'' (as_bytes u) (as_bytes pw @ [0]) = Inr bs"
    and "except_socket (sendall ce bs) (ConnectionError ''Failed to send auth request'') (c1, s1) = (Inr (), c2, s2)"
    and "cl_socket c2 = Connected [Chunk (sent_reply E [] (Success, x)), Silence]" and "x \<noteq> []" and "length x < 2 ^ 32"
  shows "lina_handshake ce u pw cache (c, s) = handshake_token x (c2\<lparr>cl_socket := Connected [Silence]\<rparr>, s2)"
proof -
  let ?D = "to_le_bytes32 (word_of_nat (length x))" and ?c3 = "c2\<lparr>cl_socket := Connected [Chunk x, Silence]\<rparr>"
  let ?C = "to_le_bytes32 (ev_crc E (0 # ?D @ x))"
  have dl: "unat (word_of_nat (length x) :: u32) = length x" using assms(7) by (simp add: unat_of_nat)
  have hd: "except_socket (recv LINA_HEADER_BASE_LENGTH) (ConnectionError ''Failed to receive auth response header'')
      (c2, s2) = (Inr (0 # 0 # [] @ ?D @ ?C @ []), ?c3, s2)"
    using recv_header [OF assms(5,6), of s2] by (simp add: except_socket_def)
  have "lina_handshake ce u pw cache (c, s) = cl_bind (recv_all (length x)) handshake_token (?c3, s2)"
    unfolding lina_handshake_def
    using assms(1-4,6) hd header_fields [of "[]" 0 ?D ?C 0 0 "[]"]
    by (simp add: cl_lift_def Let_def byte_at_def from_bytes_le_to_le dl LINA_HEADER_BASE_LENGTH_def)
  moreover have "recv_all (length x) (?c3, s2) = (Inr x, c2\<lparr>cl_socket := Connected [Silence]\<rparr>, s2)"
    using recv_all_from_chunk [of "length x" x "[Silence]"] assms(6)
    by (simp add: recv_all_connected del: recv_all_from.simps)
  ultimately show ?thesis by simp
qed

lemma handshake_against_server:
  assumes "calm c" and "plain_text u" and "u \<noteq> []" and "plain_text pw"
    and "fits E (as_bytes u) (as_bytes pw @ [0])" and "fst (rl_check (sv_now s) ip (sv_limiter s))"
    and "handle_handshake (ev_auth E) (ev_manager E) u pw (sv_auth s) = (Inr (tok, e), a)"
    and "plain_text tok" and "length tok + length (nat_str e) + 2 < 2 ^ 32"
  shows "\<exists>rl. lina_handshake (client_of E ip enc rnd) u pw cache (c, s) = (Inr (tok, int e),
      (if cache then cache_credentials u pw c else c)\<lparr>cl_socket := Connected [Silence], session_token := Some tok,
        token_expires_at := Some (int e)\<rparr>, s\<lparr>sv_auth := a, sv_limiter := rl\<rparr>)"
proof -
  let ?ce = "client_of E ip enc rnd" and ?m = "client_message (ev_crc E) 0x60 (as_bytes u) (as_bytes pw @ [0])"
  let ?x = "0 # as_bytes tok @ 0 # as_bytes (nat_str e)"
  define c0 where "c0 = (if cache then cache_credentials u pw c else c)"
  let ?c1 = "(dial c0)\<lparr>cl_socket := Connected [Chunk (sent_reply E [] (Success, ?x)), Silence]\<rparr>"
  let ?c3 = "?c1\<lparr>cl_socket := Connected [Silence]\<rparr>"
  have nul: "0 \<notin> set (as_bytes u)" "0 \<notin> set (as_bytes pw)"
    using plain_text_nul [OF assms(2)] plain_text_nul [OF assms(4)] by blast+
  have c0: "calm c0" using assms(1) by (simp add: c0_def calm_def cache_credentials_def)
  have "extract_username (p_identifier (m_payload ?m)) = u" "extract_password (p_data (m_payload ?m)) = pw"
    using assms(2,4) nul by (simp_all add: extract_username_def extract_password_def until_nul_append until_nul_free
        from_utf8_lossy_valid plain_text_def)
  moreover obtain rl0 where "rl_check (sv_now s) ip (sv_limiter s) = (True, rl0)"
    using assms(6) by (metis prod.collapse)
  moreover define rl where "rl = rl_record_success ip rl0"
  ultimately have rl: "waitress_request E (porter_turn E) ip ?m s =
      ((sent_reply E [] (Success, ?x), True), s\<lparr>sv_auth := a, sv_limiter := rl\<rparr>)"
    using assms(3,7) by (cases s) (simp add: waitress_request_def waitress_auth_def Let_def sent_reply_def)
  let ?s = "s\<lparr>sv_auth := a, sv_limiter := rl\<rparr>"
  obtain bs where bs: "request_bytes (ev_crc E) 0x60 ''Username too long'' (as_bytes u) (as_bytes pw @ [0]) = Inr bs"
    "except_socket (sendall ?ce bs) (ConnectionError ''Failed to send auth request'') (dial c0, s) = (Inr (), ?c1, ?s)"
    using sendall_server [OF assms(5) dial_calm [OF c0] rl] by blast
  have "(if cache then cl_modify (cache_credentials u pw) else cl_return ()) (c, s) = (Inr (), c0, s)"
    by (simp add: c0_def cl_modify_def cl_return_def)
  from lina_handshake_reply [OF this connected_calm _ bs(2), of E ?x] bs(1) assms(9)
  have "lina_handshake ?ce u pw cache (c, s) = handshake_token ?x (?c3, ?s)" by (simp add: client_of_def)
  also have "handshake_token ?x (?c3, ?s) = (Inr (tok, int e), ?c3\<lparr>session_token := Some tok,
      token_expires_at := Some (int e)\<rparr>, ?s)"
    by (rule handshake_token_granted [OF assms(8)])
  finally show ?thesis unfolding c0_def [symmetric] by (auto simp: dial_def)
qed

text \<open>A handshake touches only the sessions and the limiter.\<close>

lemma server_ok_session:
  "server_ok E (s\<lparr>sv_auth := a, sv_limiter := rl\<rparr>) = server_ok E s"
  "object_map E (s\<lparr>sv_auth := a, sv_limiter := rl\<rparr>) = object_map E s"
  "bound (s\<lparr>sv_auth := a, sv_limiter := rl\<rparr>) = bound s"
  "server_admits E (s\<lparr>sv_auth := a, sv_limiter := rl\<rparr>) d = server_admits E s d"
  by (auto simp: server_ok_def uuids_fresh_def object_map_def bound_def server_admits_def fun_eq_iff)

text \<open>A token just granted is not refreshed.\<close>

lemma granted_rested:
  assumes "refresh_buffer c < 3600" and "unix_now a = t"
  shows "rested (client_of E ip enc rnd) (c\<lparr>cl_socket := Connected [Silence], session_token := Some tok,
      token_expires_at := Some (int (t + 3600))\<rparr>) (s\<lparr>sv_auth := a, sv_limiter := rl\<rparr>)"
  using assms by (simp add: rested_def calm_def refresh_token_if_needed_def is_token_expired_def client_of_def)

lemma upload_with_token:
  assumes "server_ok E s" and "sv_draws s + 2 \<le> ev_horizon E" and "server_admits E s d"
    and "plain_text bucket" and "plain_text name"
    and "rested (client_of E ip enc rnd) c s" and "session_token c = Some t" and "t \<noteq> []" and "plain_text t"
    and "fst (valid_token E (Some t) s) = Inr (Some t)"
    and "length (rnd (cl_draws c)) = 12"
    and "enc (sha256 (ev_auth E) (as_bytes t)) (rnd (cl_draws c)) d = Some ct"
    and "aes_decrypt (ev_auth E) (sha256 (ev_auth E) (as_bytes t)) (rnd (cl_draws c)) ct = Some d"
    and "fits E (build_identifier name bucket) (as_bytes t @ 0 # rnd (cl_draws c) @ ct)"
  shows "\<exists>s'. lina_upload_file (client_of E ip enc rnd) name d bucket (c, s) =
      (if length (build_identifier name bucket) \<le> length (ev_uuid E (Suc (sv_draws s))) then Inr True
       else Inl (ConnectionError ''Failed to receive response''), (disconnect c)\<lparr>cl_draws := Suc (cl_draws c)\<rparr>, s') \<and>
    server_ok E s' \<and>
    object_map E s' = (if bound s (named name bucket) then object_map E s
                       else (object_map E s)(named name bucket \<mapsto> d))"
proof -
  let ?fd = "as_bytes t @ 0 # rnd (cl_draws c) @ ct"
    and ?c1 = "(dial c)\<lparr>cl_draws := Suc (cl_draws c)\<rparr>"
  have "upload_data (client_of E ip enc rnd) d (dial c, s) = (Inr ?fd, ?c1, s)"
    using assms(7,8,12)
    by (simp add: upload_data_def cl_get_def active_token_def cl_encrypt_with_token_def client_of_def Let_def
        cl_bind_def cl_return_def)
  moreover have "clear_data E (Some t) (rnd (cl_draws c) @ ct) = Inr d"
    using assms(11,13) by (auto simp: clear_data_def decrypt_with_token_def NONCE_SIZE_def Let_def)
  ultimately show ?thesis
    using upload_stores [OF assms(1-6) _ _ assms(14) take_token_text [OF assms(9)] assms(10), of d ?c1] by simp
qed

text \<open>An instance: a server with the object \<open>q\<close> in its default bucket, a cipher that leaves the data as it is and
  nonces of zeros, with and without a password.\<close>

definition demo_open_env :: server_env where
  "demo_open_env = demo_server_env
     \<lparr>ev_auth := demo_auth_env\<lparr>new_uuid := \<lambda>k. replicate (Suc (k mod 100)) (CHR ''u''),
                             aes_decrypt := \<lambda>key nonce ct. Some ct\<rparr>,
      ev_manager := demo_manager\<lparr>auth_required := False\<rparr>\<rparr>"

definition demo_session_env :: server_env where
  "demo_session_env = demo_open_env\<lparr>ev_manager := demo_manager\<rparr>"

definition demo_default :: server where
  "demo_default = demo_server\<lparr>sv_mapper :=
     Some \<lparr>mp_rows = [\<lparr>mp_bucket = DEFAULT_BUCKET, mp_key = ''q'', mp_internal = ''c''\<rparr>], mp_faults = []\<rparr>\<rparr>"

abbreviation demo_client :: "server_env \<Rightarrow> server client_env" where
  "demo_client E \<equiv> client_of E ''ip'' (\<lambda>_ _ d. Some d) (\<lambda>_. replicate 12 0)"

lemma demo_default_sel [simp]:
  "ev_horizon demo_open_env = 10" "ev_horizon demo_session_env = 10" "sv_draws demo_default = 0"
  "ev_uuid demo_open_env k = CHR ''u'' # replicate k (CHR ''v'')"
  "ev_uuid demo_session_env k = CHR ''u'' # replicate k (CHR ''v'')"
  "aes_decrypt (ev_auth demo_open_env) key nonce ct = Some ct"
  "aes_decrypt (ev_auth demo_session_env) key nonce ct = Some ct"
  "new_uuid (ev_auth demo_session_env) k = replicate (Suc (k mod 100)) (CHR ''u'')"
  "ev_manager demo_session_env = demo_manager" "sv_auth demo_default = demo_auth"
  "\<not> is_password_enabled (ev_manager demo_open_env)"
  by (simp_all add: demo_open_env_def demo_session_env_def demo_default_def demo_server_def demo_server_env_def
      is_password_enabled_def)

lemma demo_default_bound [simp]: "bound demo_default bk \<longleftrightarrow> bk = (DEFAULT_BUCKET, ''q'')"
  "internal_name demo_default (DEFAULT_BUCKET, ''q'') = Some ''c''"
  by (auto simp: bound_def internal_name_def demo_default_def mapping_of_def)

lemma demo_default_ok:
  "server_ok demo_open_env demo_default" "server_ok demo_session_env demo_default"
  "server_admits demo_open_env demo_default d" "server_admits demo_session_env demo_default d"
  "object_map demo_open_env demo_default = [(DEFAULT_BUCKET, ''q'') \<mapsto> [4]]"
  "object_map demo_session_env demo_default = [(DEFAULT_BUCKET, ''q'') \<mapsto> [4]]"
proof -
  have m: "mapping_of \<lparr>mp_rows = [\<lparr>mp_bucket = DEFAULT_BUCKET, mp_key = ''q'', mp_internal = ''c''\<rparr>], mp_faults = []\<rparr> =
      [(DEFAULT_BUCKET, ''q'') \<mapsto> ''c'']"
    by (simp add: mapping_of_def)
  have "server_ok demo_server_env demo_default"
    using demo_server_ok
    by (auto simp: server_ok_def uuids_fresh_def demo_default_def m mapper_inv_def mapper_ok_def mp_quiet_def)
  then show "server_ok demo_open_env demo_default" "server_ok demo_session_env demo_default"
    by (simp_all add: server_ok_def uuids_fresh_def demo_open_env_def demo_session_env_def)
  show "server_admits demo_open_env demo_default d" "server_admits demo_session_env demo_default d"
    using demo_server_admits [of d]
    by (simp_all add: server_admits_def demo_open_env_def demo_session_env_def demo_default_def)
  show "object_map demo_open_env demo_default = [(DEFAULT_BUCKET, ''q'') \<mapsto> [4]]"
    "object_map demo_session_env demo_default = [(DEFAULT_BUCKET, ''q'') \<mapsto> [4]]"
    by (auto simp: object_map_def demo_default_def m demo_open_env_def demo_session_env_def demo_full_view fun_eq_iff)
qed

lemma demo_text: "plain_text ''q''" "plain_text ''w''" "plain_text []" "plain_text ''bob''" "plain_text ''pw''"
  "plain_text ''tk''" "plain_text (replicate k (CHR ''u''))"
proof -
  have "char_byte (CHR ''u'') < 0x80" by code_simp
  then show "plain_text (replicate k (CHR ''u''))"
    unfolding plain_text_def by (intro conjI utf8_valid_ascii) (auto simp: as_bytes_def)
qed code_simp+

lemma demo_fits:
  "length idn \<le> 255 \<Longrightarrow> length d < 1000 \<Longrightarrow> fits demo_open_env idn d"
  "length idn \<le> 255 \<Longrightarrow> length d < 1000 \<Longrightarrow> fits demo_session_env idn d"
  by (simp_all add: fits_def demo_open_env_def demo_session_env_def demo_server_env_def LINA_NAME_MAX_LENGTH_def
      word_le_nat_alt unat_of_nat)

section \<open>Properties\<close>

text \<open>Upload: a client that holds a valid session token stores the object it is given, under its bucket and
  name, through encryption, framing, the server's queue and the store.  The reply names the object by its
  internal name, so that a client whose identifier is longer than that reports a failure although the
  object was stored.\<close>

theorem client_upload_stores:
  assumes "server_ok E s" and "sv_draws s + 2 \<le> ev_horizon E" and "server_admits E s d"
    and "plain_text bucket" and "plain_text name"
    and "rested (client_of E ip enc rnd) c s" and "session_token c = Some t" and "t \<noteq> []" and "plain_text t"
    and "fst (valid_token E (Some t) s) = Inr (Some t)"
    and "length (rnd (cl_draws c)) = 12"
    and "enc (sha256 (ev_auth E) (as_bytes t)) (rnd (cl_draws c)) d = Some ct"
    and "aes_decrypt (ev_auth E) (sha256 (ev_auth E) (as_bytes t)) (rnd (cl_draws c)) ct = Some d"
    and "fits E (build_identifier name bucket) (as_bytes t @ 0 # rnd (cl_draws c) @ ct)"
  shows "\<exists>s'. lina_upload_file (client_of E ip enc rnd) name d bucket (c, s) =
      (if length (build_identifier name bucket) \<le> length (ev_uuid E (Suc (sv_draws s))) then Inr True
       else Inl (ConnectionError ''Failed to receive response''), (disconnect c)\<lparr>cl_draws := Suc (cl_draws c)\<rparr>, s') \<and>
    server_ok E s' \<and>
    object_map E s' = (if bound s (named name bucket) then object_map E s
                       else (object_map E s)(named name bucket \<mapsto> d))"
  by (rule upload_with_token [OF assms])

theorem client_upload_stores_witness:
  "\<exists>c' s'. lina_upload_file (demo_client demo_open_env) ''w'' [7, 0, 7] []
      ((client_init False 60)\<lparr>session_token := Some ''tk''\<rparr>, demo_default) = (Inr True, c', s') \<and>
    object_map demo_open_env s' = [(DEFAULT_BUCKET, ''q'') \<mapsto> [4], (DEFAULT_BUCKET, ''w'') \<mapsto> [7, 0, 7]]"
proof -
  let ?c = "(client_init False 60)\<lparr>session_token := Some ''tk''\<rparr>"
  have "rested (demo_client demo_open_env) ?c demo_default"
    by (simp add: rested_def calm_def client_init_def refresh_token_if_needed_def)
  moreover have "length (build_identifier ''w'' []) = 1"
    "fst (valid_token demo_open_env (Some ''tk'') demo_default) = Inr (Some ''tk'')"
    by (simp_all add: build_identifier_def valid_token_def)
  ultimately show ?thesis
    using client_upload_stores [of demo_open_env demo_default "[7, 0, 7]" "[]" "''w''" "''ip''" "\<lambda>_ _ d. Some d"
        "\<lambda>_. replicate 12 0" ?c "''tk''" "[7, 0, 7]"] demo_default_ok demo_text demo_fits(1)
    by (auto simp: named_def)
qed

text \<open>C32: Upload without a session: where the server asks for no password, the bytes of an object up to and including
  its first NUL are taken for a session token and lost: what is stored is the rest.\<close>

theorem client_upload_drops_prefix:
  assumes "server_ok E s" and "sv_draws s + 2 \<le> ev_horizon E" and "server_admits E s d"
    and "plain_text bucket" and "plain_text name"
    and "rested (client_of E ip enc rnd) c s" and "active_token c = None"
    and "\<not> is_password_enabled (ev_manager E)" and "0 \<notin> set a"
    and "utf8_valid a \<Longrightarrow> \<exists>e. decrypt_with_token (ev_auth E) (of_bytes a) d = Inl e"
    and "fits E (build_identifier name bucket) (a @ 0 # d)" and "\<not> bound s (named name bucket)"
  shows "\<exists>r c' s'. lina_upload_file (client_of E ip enc rnd) name (a @ 0 # d) bucket (c, s) = (r, c', s') \<and>
    object_map E s' = (object_map E s)(named name bucket \<mapsto> d)"
proof -
  have up: "upload_data (client_of E ip enc rnd) (a @ 0 # d) (dial c, s) = (Inr (a @ 0 # d), dial c, s)"
    using assms(7) by (simp add: upload_data_def cl_get_def active_token_def cl_return_def)
  have "\<forall>b\<in>set a. \<not> b = 0" using assms(9) by metis
  then have tk: "take_token OpWrite (a @ 0 # d) = (from_utf8 a, d)"
    using position_append [of a "\<lambda>b. b = 0" "0 # d"] by (simp add: take_token_def Let_def)
  have vt: "fst (valid_token E (from_utf8 a) s) = Inr (from_utf8 a)" using assms(8) by (simp add: valid_token_def)
  have "clear_data E (from_utf8 a) d = Inr d"
    using assms(8,10) by (auto simp: clear_data_def from_utf8_def)
  from upload_stores [OF assms(1-6) up _ assms(11) tk vt this] assms(12) show ?thesis by simp blast
qed

theorem client_upload_drops_prefix_witness:
  "\<exists>r c' s'. lina_upload_file (demo_client demo_open_env) ''w'' ([7] @ 0 # [8]) [] (client_init False 60, demo_default) =
      (r, c', s') \<and>
    object_map demo_open_env s' = [(DEFAULT_BUCKET, ''q'') \<mapsto> [4], (DEFAULT_BUCKET, ''w'') \<mapsto> [8]]"
proof -
  have "rested (demo_client demo_open_env) (client_init False 60) demo_default"
    by (simp add: rested_def calm_def client_init_def refresh_token_if_needed_def)
  moreover have "length (build_identifier ''w'' []) = 1" "active_token (client_init False 60) = None"
    by (simp_all add: build_identifier_def active_token_def client_init_def)
  moreover have "decrypt_with_token ae t [8] = Inl ''Encrypted data is too short''" for ae t
    by (simp add: decrypt_with_token_def NONCE_SIZE_def)
  ultimately show ?thesis
    using client_upload_drops_prefix [of demo_open_env demo_default "[8]" "[]" "''w''" "''ip''" "\<lambda>_ _ d. Some d"
        "\<lambda>_. replicate 12 0" "client_init False 60" "[7]"] demo_default_ok demo_text demo_fits(1)
    by (auto simp: named_def)
qed

text \<open>C31: Download: a client the server accepts gets the object it asks for whenever its identifier is as long as the
  internal name of the object, and the server is unchanged.  With a longer identifier it always reports a
  lost connection; with one that is at least eight bytes shorter it takes a piece of the name for the whole
  reply and rejects it as damaged.\<close>

theorem client_download_returns:
  assumes "server_ok E s" and "sv_draws s + 1 \<le> ev_horizon E" and "plain_text bucket" and "plain_text name"
    and "rested (client_of E ip enc rnd) c s" and "accepted E c s"
    and "fits E (build_identifier name bucket) (token_data c)"
    and "internal_name s (named name bucket) = Some n" and "length n < 256"
    and "object_map E s (named name bucket) = Some x" and "length x < 2 ^ 32"
  shows "\<exists>r s'. lina_download_file (client_of E ip enc rnd) name bucket (c, s) = (r, disconnect c, s') \<and> server_ok E s' \<and>
    object_map E s' = object_map E s \<and> download_result (ev_crc E) (build_identifier name bucket) n x r"
proof -
  let ?ce = "client_of E ip enc rnd" and ?idn = "build_identifier name bucket"
  let ?c2 = "(dial c)\<lparr>cl_socket := Connected [Chunk (sent_reply E n (Success, x)), Silence]\<rparr>"
  obtain s' where s': "waitress_request E (porter_turn E) ip (client_message (ev_crc E) 0x40 ?idn (token_data c)) s =
      ((sent_reply E n (Success, x), True), s')" "server_ok E s'" "object_map E s' = object_map E s"
    using lookup_request [OF assms(1-4,6), of "0x40" ip] assms(8,10) by (auto simp: advanced_spec_def)
  obtain bs where bs: "request_bytes (ev_crc E) 0x40 ''File name too long'' ?idn (token_data c) = Inr bs"
    "except_socket (sendall ?ce bs) (ConnectionError ''Failed to send request'') (dial c, s) = (Inr (), ?c2, s')"
    using sendall_server [OF assms(7) dial_calm s'(1), of c] assms(5) unfolding rested_def by blast
  obtain r c3 where r: "read_download ?ce ?idn (?c2, s') = (r, c3, s')" "disconnect c3 = disconnect ?c2"
    using read_download_keeps by (metis prod_cases3)
  have crc: "ce_crc ?ce = ev_crc E" by (simp add: client_of_def)
  have "download_result (ev_crc E) ?idn n x r"
    using read_download_reply [OF _ assms(9,11) crc, of ?c2 ?idn s'] r(1) by simp
  then show ?thesis
    unfolding lina_download_file_def crc
    using assms(5) connected_calm [of E ip enc rnd c s] bs r s'
    by (simp add: rested_def cl_finally_def cl_lift_def cl_get_def Let_def)
qed

theorem client_download_returns_witness:
  "\<exists>c' s'. lina_download_file (demo_client demo_open_env) ''q'' [] (client_init False 60, demo_default) =
    (Inr [4], c', s')"
proof -
  have "rested (demo_client demo_open_env) (client_init False 60) demo_default"
    "accepted demo_open_env (client_init False 60) demo_default" "length (build_identifier ''q'' []) = 1"
    "token_data (client_init False 60) = []"
    by (simp_all add: rested_def calm_def client_init_def refresh_token_if_needed_def accepted_def active_token_def
        valid_token_def build_identifier_def token_data_def)
  then show ?thesis
    using client_download_returns [of demo_open_env demo_default "[]" "''q''" "''ip''" "\<lambda>_ _ d. Some d"
        "\<lambda>_. replicate 12 0" "client_init False 60" "''c''" "[4]"] demo_default_ok demo_text demo_fits(1)
    by (auto simp: named_def download_result_def)
qed

text \<open>Delete: a client the server accepts removes the object it names and no other, and is told so whenever its
  identifier is no longer than the internal name of the object.\<close>

theorem client_delete_removes:
  assumes "server_ok E s" and "sv_draws s + 1 \<le> ev_horizon E" and "plain_text bucket" and "plain_text name"
    and "rested (client_of E ip enc rnd) c s" and "accepted E c s"
    and "fits E (build_identifier name bucket) (token_data c)"
    and "internal_name s (named name bucket) = Some n"
  shows "\<exists>s'. lina_delete_file (client_of E ip enc rnd) name bucket (c, s) =
      (if length (build_identifier name bucket) \<le> length n then Inr True
       else Inl (ConnectionError ''Failed to receive response''), disconnect c, s') \<and> server_ok E s' \<and>
    object_map E s' = (object_map E s)(named name bucket := None)"
proof -
  let ?ce = "client_of E ip enc rnd" and ?idn = "build_identifier name bucket"
  let ?c2 = "(dial c)\<lparr>cl_socket := Connected [Chunk (sent_reply E n (Success, [])), Silence]\<rparr>"
  obtain s' where s': "waitress_request E (porter_turn E) ip (client_message (ev_crc E) 0xC0 ?idn (token_data c)) s =
      ((sent_reply E n (Success, []), True), s')" "server_ok E s'"
    "object_map E s' = (object_map E s)(named name bucket := None)"
    using lookup_request [OF assms(1-4,6), of "0xC0" ip] assms(8) by (auto simp: advanced_spec_def)
  obtain bs where bs: "request_bytes (ev_crc E) 0xC0 ''File name too long'' ?idn (token_data c) = Inr bs"
    "except_socket (sendall ?ce bs) (ConnectionError ''Failed to send delete request'') (dial c, s) = (Inr (), ?c2, s')"
    using sendall_server [OF assms(7) dial_calm s'(1), of c] assms(5) unfolding rested_def by blast
  obtain c3 where c3: "expect_success ?idn (?c2, s') = (if length ?idn \<le> length n then Inr True
      else Inl (ConnectionError ''Failed to receive response''), c3, s')" "disconnect c3 = disconnect ?c2"
    using expect_success_reply [of ?c2 E n ?idn s'] by auto
  have crc: "ce_crc ?ce = ev_crc E" by (simp add: client_of_def)
  then show ?thesis
    unfolding lina_delete_file_def
    using assms(5) connected_calm [of E ip enc rnd c s] bs c3 s'
    by (simp add: rested_def cl_finally_def cl_lift_def cl_get_def Let_def)
qed

theorem client_delete_removes_witness:
  "\<exists>c' s'. lina_delete_file (demo_client demo_open_env) ''q'' [] (client_init False 60, demo_default) =
    (Inr True, c', s') \<and> object_map demo_open_env s' = Map.empty"
proof -
  have "rested (demo_client demo_open_env) (client_init False 60) demo_default"
    "accepted demo_open_env (client_init False 60) demo_default" "length (build_identifier ''q'' []) = 1"
    "token_data (client_init False 60) = []"
    by (simp_all add: rested_def calm_def client_init_def refresh_token_if_needed_def accepted_def active_token_def
        valid_token_def build_identifier_def token_data_def)
  then show ?thesis
    using client_delete_removes [of demo_open_env demo_default "[]" "''q''" "''ip''" "\<lambda>_ _ d. Some d"
        "\<lambda>_. replicate 12 0" "client_init False 60" "''c''"] demo_default_ok demo_text demo_fits(1)
    by (auto simp: named_def)
qed



end
