(* ===== verification/Lina_Tidy.thy ===== *)
theory Lina_Tidy
  imports Lina_World
begin

text \<open>
  Tidying a directory tree (linabase \<^verbatim>\<open>TidyManager\<close> in service.rs and \<^verbatim>\<open>path_walk\<close> in utils.rs): files with the
  same content are found by their hash, and all but the newest or the oldest are replaced by relative
  symbolic links to it.
\<close>

section \<open>The disk\<close>

text \<open>A path is the list of its components.  \<open>dtree\<close> is what \<^verbatim>\<open>read_dir\<close> finds below a directory, in its order; the disk
  maps the other paths to regular files, with their contents and creation time, and to symbolic links, with
  their components.  Directories are not linked to.\<close>

datatype dtree = Dir "(string \<times> dtree) list" | NonDir

datatype inode = Regular "byte list" nat | LinkTo path

type_synonym disk = "path \<rightharpoonup> inode"

text \<open>The code that is called: the hash of a file, the reads of a file, the date format, and the order in which a
  hash map is visited; and which calls fail.\<close>

record tidy_env =
  te_hash :: "byte list \<Rightarrow> string"
  te_reads :: "path \<Rightarrow> byte list \<Rightarrow> byte list res list"
  te_format :: "nat \<Rightarrow> string"
  te_keys :: "string set \<Rightarrow> string list"
  te_listable :: "path \<Rightarrow> bool"
  te_openable :: "path \<Rightarrow> bool"
  te_dated :: "path \<Rightarrow> bool"
  te_removable :: "path \<Rightarrow> bool"
  te_linkable :: "path \<Rightarrow> bool"

text \<open>Resolving the components of a link from the directory it is in, and reading a path through at most forty
  links.\<close>

definition walk_component :: "string \<Rightarrow> path \<Rightarrow> path" where
  "walk_component c p = (if c = ''..'' then butlast p else if c = ''.'' then p else p @ [c])"

definition resolve :: "path \<Rightarrow> path \<Rightarrow> path" where
  "resolve dir target = fold walk_component target dir"

fun open_through :: "nat \<Rightarrow> disk \<Rightarrow> path \<Rightarrow> (byte list \<times> nat) option" where
  "open_through hops d p =
     (case d p of
        None \<Rightarrow> None
      | Some (Regular b t) \<Rightarrow> Some (b, t)
      | Some (LinkTo r) \<Rightarrow> (case hops of 0 \<Rightarrow> None | Suc k \<Rightarrow> open_through k d (resolve (butlast p) r)))"

declare open_through.simps [simp del]

definition open_file :: "disk \<Rightarrow> path \<Rightarrow> (byte list \<times> nat) option" where
  "open_file d p = open_through 40 d p"

section \<open>Walking a directory\<close>

fun path_walk :: "tidy_env \<Rightarrow> path \<Rightarrow> dtree \<Rightarrow> path list res"
  and walk_entries :: "tidy_env \<Rightarrow> path \<Rightarrow> (string \<times> dtree) list \<Rightarrow> path list res" where
  "path_walk e p NonDir = Inr []"
| "path_walk e p (Dir es) =
     (if te_listable e p then walk_entries e p es else Inl (IoErr OtherKind ''read_dir''))"
| "walk_entries e p [] = Inr []"
| "walk_entries e p ((n, t) # es) =
     (let current = (case t of Dir _ \<Rightarrow> path_walk e (p @ [n]) t | NonDir \<Rightarrow> Inr [p @ [n]]) in
      case current of
        Inl err \<Rightarrow> Inl err
      | Inr ps \<Rightarrow> (case walk_entries e p es of Inl err \<Rightarrow> Inl err | Inr qs \<Rightarrow> Inr (ps @ qs)))"

section \<open>The manager\<close>

type_synonym file_info = "path \<times> string"

record tidy_manager =
  map_cache :: "string \<rightharpoonup> file_info list"

definition tidy_manager_new :: tidy_manager where
  "tidy_manager_new = \<lparr>map_cache = Map.empty\<rparr>"

definition file_info_collector :: "tidy_env \<Rightarrow> disk \<Rightarrow> path \<Rightarrow> tidy_manager \<Rightarrow> tidy_manager res" where
  "file_info_collector e d path m =
     (case open_file d path of
        None \<Rightarrow> Inl (IoErr OtherKind ''Hash of file generate error'')
      | Some (contents, created) \<Rightarrow>
          if \<not> te_openable e path then Inl (IoErr OtherKind ''Hash of file generate error'')
          else case get_hash256_from_file (te_hash e) (length contents) (te_reads e path contents) of
            Inl _ \<Rightarrow> Inl (IoErr OtherKind ''Hash of file generate error'')
          | Inr hash_code \<Rightarrow>
              if \<not> te_dated e path then Inl (IoErr OtherKind ''Get file metadata/date error'')
              else Inr (m\<lparr>map_cache := (map_cache m)(hash_code \<mapsto>
                (case map_cache m hash_code of None \<Rightarrow> [] | Some v \<Rightarrow> v) @ [(path, te_format e created)])\<rparr>))"

text \<open>A path whose information cannot be collected is skipped.\<close>

definition collect_all :: "tidy_env \<Rightarrow> disk \<Rightarrow> path list \<Rightarrow> tidy_manager \<Rightarrow> tidy_manager" where
  "collect_all e d paths m =
     fold (\<lambda>path m. case file_info_collector e d path m of Inl _ \<Rightarrow> m | Inr m' \<Rightarrow> m') paths m"

definition find_extreme_file :: "(string \<Rightarrow> string \<Rightarrow> bool) \<Rightarrow> file_info list \<Rightarrow> file_info" where
  "find_extreme_file compare file_infos =
     fold (\<lambda>file_info extreme. if compare (snd file_info) (snd extreme) then file_info else extreme)
       (tl file_infos) (hd file_infos)"

fun common_components :: "path \<Rightarrow> path \<Rightarrow> nat" where
  "common_components (a # as) (b # bs) = (if a = b then Suc (common_components as bs) else 0)"
| "common_components _ _ = 0"

definition relative_path_with_same_root :: "path \<Rightarrow> path \<Rightarrow> path" where
  "relative_path_with_same_root f to =
     (let common = common_components f to; rest = length f - common in
      (if rest > 1 then replicate (rest - 1) ''..'' else if rest = 1 then [''.''] else []) @ drop common to)"

text \<open>One file of a group.\<close>

definition tidy_file :: "tidy_env \<Rightarrow> file_info \<Rightarrow> file_info \<Rightarrow> disk \<Rightarrow> unit res \<times> disk" where
  "tidy_file e target file_info d =
     (if snd file_info \<noteq> snd target \<and> fst file_info \<noteq> fst target
      then let p = fst file_info; relative_file_path = relative_path_with_same_root p (fst target) in
           if d p = None \<or> \<not> te_removable e p then (Inr (), d)
           else if te_linkable e p then (Inr (), d(p \<mapsto> LinkTo relative_file_path))
           else (Inl (IoErr OtherKind ''symlink''), d(p := None))
      else (Inr (), d))"

fun until_error :: "('a \<Rightarrow> disk \<Rightarrow> unit res \<times> disk) \<Rightarrow> 'a list \<Rightarrow> disk \<Rightarrow> unit res \<times> disk" where
  "until_error f [] d = (Inr (), d)"
| "until_error f (x # xs) d = (case f x d of (Inl err, d') \<Rightarrow> (Inl err, d') | (Inr _, d') \<Rightarrow> until_error f xs d')"

definition tidy_target :: "bool \<Rightarrow> file_info list \<Rightarrow> file_info" where
  "tidy_target keep_new file_infos =
     (if keep_new then find_extreme_file (\<lambda>a b. a > b) file_infos
      else find_extreme_file (\<lambda>a b. a < b) file_infos)"

definition tidy_group :: "tidy_env \<Rightarrow> bool \<Rightarrow> tidy_manager \<Rightarrow> string \<Rightarrow> disk \<Rightarrow> unit res \<times> disk" where
  "tidy_group e keep_new m key d =
     (case map_cache m key of
        None \<Rightarrow> (Inr (), d)
      | Some [] \<Rightarrow> (Inr (), d)
      | Some file_infos \<Rightarrow> until_error (tidy_file e (tidy_target keep_new file_infos)) file_infos d)"

definition tidy :: "tidy_env \<Rightarrow> path \<Rightarrow> dtree \<Rightarrow> bool \<Rightarrow> tidy_manager \<Rightarrow> disk \<Rightarrow> unit res \<times> tidy_manager \<times> disk" where
  "tidy e target_path t keep_new m d =
     (case path_walk e target_path t of
        Inl err \<Rightarrow> (Inl err, m, d)
      | Inr paths \<Rightarrow>
          (let m' = collect_all e d paths m;
               (r, d') = until_error (tidy_group e keep_new m') (te_keys e (dom (map_cache m'))) d
           in (r, m', d')))"

section \<open>Relative links\<close>

definition plain_component :: "string \<Rightarrow> bool" where
  "plain_component c \<longleftrightarrow> c \<noteq> ''.'' \<and> c \<noteq> ''..''"

lemma common_components_le: "common_components a b \<le> length a" "common_components a b \<le> length b"
  by (induction a b rule: common_components.induct) auto

lemma common_components_take: "take (common_components a b) a = take (common_components a b) b"
  by (induction a b rule: common_components.induct) auto

lemma common_components_prefix: "common_components a b = length a \<Longrightarrow> \<exists>c. b = a @ c"
  using common_components_take [of a b] by (metis append_take_drop_id take_all_iff order_refl)

lemma fold_up: "(walk_component ''..'' ^^ n) p = take (length p - n) p"
proof (induction n)
  case (Suc n)
  have "(walk_component ''..'' ^^ Suc n) p = walk_component ''..'' (take (length p - n) p)" using Suc by simp
  also have "\<dots> = butlast (take (length p - n) p)" by (simp add: walk_component_def)
  also have "\<dots> = take (length p - Suc n) p" by (cases "n < length p") (auto simp: butlast_take)
  finally show ?case .
qed simp

lemma fold_down: "list_all plain_component cs \<Longrightarrow> fold walk_component cs p = p @ cs"
  by (induction cs arbitrary: p) (auto simp: walk_component_def plain_component_def)

text \<open>The link that is created leads from its directory to the file it stands for.\<close>

lemma relative_path_resolves:
  assumes "\<not> (\<exists>c. to = f @ c)" and "list_all plain_component (drop (common_components f to) to)"
  shows "resolve (butlast f) (relative_path_with_same_root f to) = to"
proof -
  let ?k = "common_components f to"
  have k: "?k < length f"
    using common_components_le(1) [of f to] common_components_prefix [of f to] assms(1) by fastforce
  have "fold walk_component (if length f - ?k > 1 then replicate (length f - ?k - 1) ''..''
      else if length f - ?k = 1 then [''.''] else []) (butlast f) = take ?k f"
  proof (cases "length f - ?k = 1")
    case True
    then have "?k = length f - 1" using k by simp
    with True show ?thesis by (simp add: walk_component_def butlast_conv_take)
  next
    case False
    with k have r: "length f - ?k > 1" "length (butlast f) - (length f - ?k - 1) = ?k" by simp_all
    then show ?thesis using k by (simp add: fold_up take_butlast)
  qed
  then show ?thesis
    using fold_down [OF assms(2), of "take ?k f"] common_components_take [of f to]
    by (simp add: resolve_def relative_path_with_same_root_def Let_def)
qed

section \<open>The walked paths\<close>

text \<open>Directories have distinct entries with proper names.\<close>

fun wf_dtree :: "dtree \<Rightarrow> bool" where
  "wf_dtree NonDir = True"
| "wf_dtree (Dir es) = (distinct (map fst es) \<and> (\<forall>(n, t)\<in>set es. plain_component n \<and> wf_dtree t))"

lemma walk_below:
  "path_walk e p t = Inr ps \<Longrightarrow> wf_dtree t \<Longrightarrow> q \<in> set ps \<Longrightarrow> \<exists>r. q = p @ r \<and> r \<noteq> [] \<and> list_all plain_component r"
  "walk_entries e p es = Inr ps \<Longrightarrow> \<forall>(n, t)\<in>set es. plain_component n \<and> wf_dtree t \<Longrightarrow> q \<in> set ps \<Longrightarrow>
     \<exists>n r. n \<in> fst ` set es \<and> q = p @ n # r \<and> list_all plain_component (n # r)"
proof (induction e p t and e p es arbitrary: ps and ps rule: path_walk_walk_entries.induct)
  case (2 e p es)
  from "2.prems" have w: "te_listable e p" "walk_entries e p es = Inr ps" by (auto split: if_splits)
  from "2.IH" [OF w] "2.prems"(2,3) show ?case by auto
next
  case (4 e p n t es)
  from "4.prems"(1) obtain ps' qs where w: "(case t of Dir _ \<Rightarrow> path_walk e (p @ [n]) t | NonDir \<Rightarrow> Inr [p @ [n]]) = Inr ps'"
    "walk_entries e p es = Inr qs" "ps = ps' @ qs"
    by (auto simp: Let_def split: sum.splits)
  have wf: "plain_component n" "wf_dtree t" "\<forall>(n, t)\<in>set es. plain_component n \<and> wf_dtree t" using "4.prems"(2) by auto
  consider "q \<in> set qs" | "q \<in> set ps'" using "4.prems"(3) w(3) by auto
  then show ?case
  proof cases
    case 1
    from "4.IH"(2) [OF refl w(1,2) wf(3) this] obtain m r where
      "m \<in> fst ` set es" "q = p @ m # r" "list_all plain_component (m # r)" by blast
    then show ?thesis by (intro exI [of _ m] exI [of _ r]) simp
  next
    case 2
    have "\<exists>r. q = p @ n # r \<and> list_all plain_component r"
    proof (cases t)
      case (Dir ds)
      with w(1) have "path_walk e (p @ [n]) t = Inr ps'" by simp
      from "4.IH"(1) [OF Dir this wf(2) 2] show ?thesis by auto
    next
      case NonDir
      with w(1) 2 show ?thesis by auto
    qed
    with wf(1) show ?thesis by (intro exI [of _ n]) auto
  qed
qed auto

text \<open>The entries of one name and those of the others.\<close>

lemma walk_entries_Cons:
  assumes "walk_entries e p ((n, t) # es) = Inr ps"
  obtains ps' qs where "ps = ps' @ qs" "walk_entries e p es = Inr qs"
    "(\<exists>ds. t = Dir ds) \<and> path_walk e (p @ [n]) t = Inr ps' \<or> t = NonDir \<and> ps' = [p @ [n]]"
  using assms by (auto simp: Let_def split: sum.splits dtree.splits)

lemma walk_prefix_free:
  "path_walk e b t = Inr ps \<Longrightarrow> wf_dtree t \<Longrightarrow> p \<in> set ps \<Longrightarrow> p @ c \<in> set ps \<Longrightarrow> c = []"
  "walk_entries e b es = Inr ps \<Longrightarrow> distinct (map fst es) \<Longrightarrow> \<forall>(n, t)\<in>set es. plain_component n \<and> wf_dtree t \<Longrightarrow>
     p \<in> set ps \<Longrightarrow> p @ c \<in> set ps \<Longrightarrow> c = []"
proof (induction e b t and e b es arbitrary: ps and ps rule: path_walk_walk_entries.induct)
  case (2 e b es)
  from "2.prems" have w: "te_listable e b" "walk_entries e b es = Inr ps" by (auto split: if_splits)
  from "2.IH" [OF w] "2.prems"(2-) show ?case by auto
next
  case (4 e b n t es)
  from walk_entries_Cons [OF "4.prems"(1)] obtain ps' qs where w: "ps = ps' @ qs" "walk_entries e b es = Inr qs"
    "(\<exists>ds. t = Dir ds) \<and> path_walk e (b @ [n]) t = Inr ps' \<or> t = NonDir \<and> ps' = [b @ [n]]" .
  have wf: "wf_dtree t" "\<forall>(n, t)\<in>set es. plain_component n \<and> wf_dtree t" "n \<notin> fst ` set es" "distinct (map fst es)"
    using "4.prems"(2,3) by auto
  have first: "\<exists>r. q = b @ n # r" if "q \<in> set ps'" for q
    using w(3) that walk_below(1) [OF _ wf(1), of e "b @ [n]" ps' q] by auto
  have later: "\<exists>m r. m \<noteq> n \<and> q = b @ m # r" if "q \<in> set qs" for q
    using walk_below(2) [OF w(2) wf(2) that] wf(3) by auto
  consider "p \<in> set ps'" "p @ c \<in> set ps'" | "p \<in> set qs" "p @ c \<in> set qs"
    using "4.prems"(4,5) w(1) first later by fastforce
  then show ?case
  proof cases
    case 1
    show ?thesis
    proof (cases t)
      case (Dir ds)
      with w(3) have "path_walk e (b @ [n]) t = Inr ps'" by simp
      from "4.IH"(1) [OF Dir this wf(1) 1] show ?thesis .
    next
      case NonDir
      with w(3) 1 show ?thesis by auto
    qed
  next
    case 2
    have "(case t of Dir _ \<Rightarrow> path_walk e (b @ [n]) t | NonDir \<Rightarrow> Inr [b @ [n]]) = Inr ps'"
      using w(3) by auto
    from "4.IH"(2) [OF refl this w(2) wf(4,2) 2] show ?thesis .
  qed
qed auto

text \<open>So links between walked paths are right.\<close>

lemma walked_links:
  assumes "path_walk e b t = Inr ps" and "wf_dtree t" and "p \<in> set ps" and "q \<in> set ps" and "p \<noteq> q"
  shows "resolve (butlast p) (relative_path_with_same_root p q) = q"
proof (rule relative_path_resolves)
  show "\<not> (\<exists>c. q = p @ c)" using walk_prefix_free(1) [OF assms(1-3)] assms(4,5) by fastforce
  obtain r s where r: "p = b @ r" "q = b @ s" "list_all plain_component s"
    using walk_below(1) [OF assms(1,2)] assms(3,4) by blast
  have "length b \<le> common_components p q" unfolding r(1,2) by (induction b) auto
  then have "drop (common_components p q) q = drop (common_components p q - length b) s" unfolding r(2) by simp
  then show "list_all plain_component (drop (common_components p q) q)"
    using r(3) by (auto simp: list_all_iff dest: in_set_dropD)
qed

section \<open>The groups\<close>

text \<open>The reads of a file deliver its bytes from the start, until the end or an error.\<close>

definition reads_file :: "tidy_env \<Rightarrow> bool" where
  "reads_file e \<longleftrightarrow> (\<forall>p c. \<exists>bs rest ys. te_reads e p c = map Inr bs @ rest \<and> c = concat bs @ ys \<and>
     (rest = [] \<or> (\<exists>err xs. rest = Inl err # xs)))"

lemma hash_file_loop_truthful:
  "hash_file_loop h (length c) (map Inr bs @ rest) (length acc) acc = Inr x \<Longrightarrow> c = acc @ concat bs @ ys \<Longrightarrow>
   rest = [] \<or> (\<exists>err xs. rest = Inl err # xs) \<Longrightarrow> x = h c"
proof (induction bs arbitrary: acc)
  case Nil
  then show ?case by (auto split: if_splits)
next
  case (Cons b bs)
  show ?case
  proof (cases "length acc < length c")
    case True
    with Cons.prems(1) have "hash_file_loop h (length c) (map Inr bs @ rest) (length (acc @ b)) (acc @ b) = Inr x"
      by (auto split: if_splits)
    with Cons.prems(2,3) show ?thesis by (intro Cons.IH [of "acc @ b"]) simp_all
  next
    case False
    then have "length (concat (b # bs) @ ys) = 0" unfolding Cons.prems(2) by simp
    then have "c = acc" unfolding Cons.prems(2) by (simp only: length_0_conv append_Nil2)
    with Cons.prems(1) show ?thesis by simp
  qed
qed

lemma hash_truthful:
  assumes "reads_file e" and "get_hash256_from_file (te_hash e) (length c) (te_reads e p c) = Inr x"
  shows "x = te_hash e c"
proof -
  obtain bs rest ys where "te_reads e p c = map Inr bs @ rest" "c = concat bs @ ys"
    "rest = [] \<or> (\<exists>err xs. rest = Inl err # xs)"
    using assms(1) unfolding reads_file_def by metis
  with assms(2) hash_file_loop_truthful [of "te_hash e" c bs rest "[]" x ys] show ?thesis
    by (simp add: get_hash256_from_file_def)
qed

text \<open>A group holds walked files with one content, each with its date.\<close>

definition info_of :: "tidy_env \<Rightarrow> disk \<Rightarrow> string \<Rightarrow> file_info \<Rightarrow> bool" where
  "info_of e d h x \<longleftrightarrow> (\<exists>b t. open_file d (fst x) = Some (b, t) \<and> te_hash e b = h \<and> snd x = te_format e t)"

definition groups_ok :: "tidy_env \<Rightarrow> disk \<Rightarrow> path set \<Rightarrow> tidy_manager \<Rightarrow> bool" where
  "groups_ok e d W m \<longleftrightarrow>
     (\<forall>h xs. map_cache m h = Some xs \<longrightarrow> xs \<noteq> [] \<and> (\<forall>x\<in>set xs. fst x \<in> W \<and> info_of e d h x))"

lemma file_info_collector_ok:
  assumes "reads_file e" and "groups_ok e d W m" and "p \<in> W" and "file_info_collector e d p m = Inr m'"
  shows "groups_ok e d W m'"
proof -
  obtain b t h where h: "open_file d p = Some (b, t)" "te_hash e b = h"
    "m' = m\<lparr>map_cache := (map_cache m)(h \<mapsto>
       (case map_cache m h of None \<Rightarrow> [] | Some v \<Rightarrow> v) @ [(p, te_format e t)])\<rparr>"
    using assms(4) hash_truthful [OF assms(1)]
    by (auto simp: file_info_collector_def split: option.splits prod.splits sum.splits if_splits)
  then have "info_of e d h (p, te_format e t)" by (auto simp: info_of_def)
  moreover have "fst x \<in> W \<and> info_of e d h x" if "x \<in> set (case map_cache m h of None \<Rightarrow> [] | Some v \<Rightarrow> v)" for x
    using that assms(2) by (cases "map_cache m h") (auto simp: groups_ok_def)
  ultimately show ?thesis using assms(2,3) unfolding groups_ok_def h(3) by auto
qed

lemma collect_all_ok:
  "reads_file e \<Longrightarrow> groups_ok e d W m \<Longrightarrow> set ps \<subseteq> W \<Longrightarrow> groups_ok e d W (collect_all e d ps m)"
proof (induction ps arbitrary: m)
  case (Cons p ps)
  have "groups_ok e d W (case file_info_collector e d p m of Inl _ \<Rightarrow> m | Inr m' \<Rightarrow> m')"
    using file_info_collector_ok [OF Cons.prems(1,2)] Cons.prems(2,3) by (auto split: sum.split)
  with Cons show ?case by (simp add: collect_all_def)
qed (simp add: collect_all_def)

section \<open>The loops\<close>

lemma until_error_invariant:
  assumes "until_error f xs d = (r, d')" and "I (Inr ()) d"
    and "\<And>x d r d'. x \<in> set xs \<Longrightarrow> I (Inr ()) d \<Longrightarrow> f x d = (r, d') \<Longrightarrow> I r d'"
  shows "I r d'"
  using assms
proof (induction xs arbitrary: d)
  case (Cons x xs)
  obtain r1 d1 where x: "f x d = (r1, d1)" by fastforce
  then have i: "I r1 d1" using Cons.prems(2,3) by auto
  show ?case
  proof (cases r1)
    case (Inl err)
    with x i Cons.prems(1) show ?thesis by simp
  next
    case (Inr u)
    with x i Cons.prems(1) have "until_error f xs d1 = (r, d')" "I (Inr ()) d1" by simp_all
    then show ?thesis by (rule Cons.IH) (use Cons.prems(3) in auto)
  qed
qed simp

text \<open>What has happened to the paths: a path is as it was, or it is a member of a group other than its target, with
  another date, and a link to the target; after a failure it may be gone.\<close>

definition relinked :: "bool \<Rightarrow> tidy_manager \<Rightarrow> unit res \<Rightarrow> disk \<Rightarrow> path \<Rightarrow> bool" where
  "relinked keep_new m r d p \<longleftrightarrow>
     (\<exists>h xs s. map_cache m h = Some xs \<and> (p, s) \<in> set xs \<and> p \<noteq> fst (tidy_target keep_new xs) \<and>
        s \<noteq> snd (tidy_target keep_new xs) \<and>
        (d p = Some (LinkTo (relative_path_with_same_root p (fst (tidy_target keep_new xs)))) \<or>
         d p = None \<and> r \<noteq> Inr ()))"

definition tidied :: "bool \<Rightarrow> tidy_manager \<Rightarrow> disk \<Rightarrow> unit res \<Rightarrow> disk \<Rightarrow> bool" where
  "tidied keep_new m d0 r d \<longleftrightarrow> (\<forall>p. d p = d0 p \<or> relinked keep_new m r d p)"

lemma tidy_file_tidied:
  assumes "tidied k m d0 (Inr ()) d" and "map_cache m h = Some xs" and "x \<in> set xs"
    and "tidy_file e (tidy_target k xs) x d = (r, d')"
  shows "tidied k m d0 r d'"
  unfolding tidied_def
proof
  fix p
  have old: "d' p = d p \<Longrightarrow> d' p = d0 p \<or> relinked k m r d' p"
    using assms(1) unfolding tidied_def relinked_def by metis
  show "d' p = d0 p \<or> relinked k m r d' p"
  proof (cases "d' = d \<or> p \<noteq> fst x")
    case True
    then have "d' p = d p" using assms(4) by (auto simp: tidy_file_def Let_def split: if_splits)
    then show ?thesis by (rule old)
  next
    case False
    let ?q = "fst (tidy_target k xs)"
    from False assms(4) have x: "p = fst x" "p \<noteq> ?q" "snd x \<noteq> snd (tidy_target k xs)"
      "d' p = Some (LinkTo (relative_path_with_same_root p ?q)) \<or> d' p = None \<and> r \<noteq> Inr ()"
      by (auto simp: tidy_file_def Let_def split: if_splits)
    then have "relinked k m r d' p"
      unfolding relinked_def
      by (intro exI [of _ h] exI [of _ xs] exI [of _ "snd x"]) (use assms(2,3) in simp)
    then show ?thesis ..
  qed
qed

lemma tidy_group_Some:
  "map_cache m g = Some ys \<Longrightarrow> ys \<noteq> [] \<Longrightarrow>
   tidy_group e k m g d = until_error (tidy_file e (tidy_target k ys)) ys d"
  by (cases ys) (simp_all add: tidy_group_def del: until_error.simps)

lemma tidy_tidied:
  assumes "tidy e b t k m d = (r, m', d')" and "path_walk e b t = Inr ps"
  shows "m' = collect_all e d ps m \<and> tidied k m' d r d'"
proof -
  let ?m = "collect_all e d ps m"
  have m': "m' = ?m" and u: "until_error (tidy_group e k ?m) (te_keys e (dom (map_cache ?m))) d = (r, d')"
    using assms by (auto simp: tidy_def Let_def split: prod.splits)
  have group: "tidied k ?m d r d2" if "tidied k ?m d (Inr ()) d1" "tidy_group e k ?m h d1 = (r, d2)" for h d1 r d2
  proof (cases "map_cache ?m h")
    case (Some xs)
    show ?thesis
    proof (cases "xs = []")
      case True
      with Some that show ?thesis by (simp add: tidy_group_def)
    next
      case False
      then have "until_error (tidy_file e (tidy_target k xs)) xs d1 = (r, d2)"
        using tidy_group_Some [OF Some] that(2) by simp
      then show ?thesis by (rule until_error_invariant [where I = "tidied k ?m d", OF _ that(1)]) (rule tidy_file_tidied [OF _ Some])
    qed
  qed (use that in \<open>simp add: tidy_group_def\<close>)
  have "tidied k ?m d (Inr ()) d" by (simp add: tidied_def)
  from until_error_invariant [where I = "tidied k ?m d", OF u this] group m' show ?thesis by blast
qed

section \<open>The target of a group\<close>

lemma find_extreme_file_cases:
  assumes "xs \<noteq> []" and "\<And>a b c. cmp a b \<Longrightarrow> cmp b c \<Longrightarrow> cmp a c" and "\<And>a. \<not> cmp a a"
    and "\<And>a b. \<not> cmp a b \<Longrightarrow> \<not> cmp b a \<Longrightarrow> a = b"
  shows "find_extreme_file cmp xs \<in> set xs" "x \<in> set xs \<Longrightarrow> \<not> cmp (snd x) (snd (find_extreme_file cmp xs))"
proof -
  define pick where "pick = (\<lambda>x m. if cmp (snd x) (snd m) then x else m :: file_info)"
  have pick: "fold pick ys y \<in> insert y (set ys) \<and>
      (\<forall>x\<in>insert y (set ys). \<not> cmp (snd x) (snd (fold pick ys y)))" for y ys
  proof (induction ys arbitrary: y)
    case (Cons z ys)
    let ?m = "fold pick ys (pick z y)"
    have IH: "?m \<in> insert (pick z y) (set ys)" "\<not> cmp (snd (pick z y)) (snd ?m)" "\<forall>x\<in>set ys. \<not> cmp (snd x) (snd ?m)"
      using Cons [of "pick z y"] by auto
    have e: "pick z y = (if cmp (snd z) (snd y) then z else y)" by (simp add: pick_def)
    have "\<not> cmp (snd y) (snd ?m)" using e IH(2) assms(2) [of "snd z" "snd y" "snd ?m"] by metis
    moreover have "\<not> cmp (snd z) (snd ?m)"
      using e IH(2) assms(2) [of "snd y" "snd z" "snd ?m"] assms(4) [of "snd y" "snd z"] by metis
    moreover have "?m \<in> insert y (set (z # ys))" using IH(1) e by (auto split: if_splits)
    ultimately show ?case using IH(3) by simp
  qed (simp_all add: assms(3))
  have e: "find_extreme_file cmp xs = fold pick (tl xs) (hd xs)" by (simp add: find_extreme_file_def pick_def)
  have s: "set xs = insert (hd xs) (set (tl xs))" using assms(1) by (cases xs) auto
  show "find_extreme_file cmp xs \<in> set xs" "x \<in> set xs \<Longrightarrow> \<not> cmp (snd x) (snd (find_extreme_file cmp xs))"
    unfolding e s using pick by blast+
qed

lemma tidy_target_member: "xs \<noteq> [] \<Longrightarrow> tidy_target k xs \<in> set xs"
  by (auto simp: tidy_target_def intro: find_extreme_file_cases(1))

lemma tidy_target_extreme:
  assumes "xs \<noteq> []" and "x \<in> set xs"
  shows "if k then snd x \<le> snd (tidy_target k xs) else snd (tidy_target k xs) \<le> snd x"
  using find_extreme_file_cases(2) [OF assms(1) _ _ _ assms(2), of "\<lambda>a b. b < a"]
    find_extreme_file_cases(2) [OF assms(1) _ _ _ assms(2), of "\<lambda>a b. a < b"]
  by (auto simp: tidy_target_def not_less)

text \<open>The target of the group of a changed path: it has the same content and is unchanged.\<close>

lemma relinked_target:
  assumes "inj (te_hash e)" and "groups_ok e d W m" and "tidied k m d r d'" and "relinked k m r d' p"
    and "\<forall>q\<in>W. \<exists>c s. d q = Some (Regular c s)"
  shows "\<exists>q c s s'. p \<in> W \<and> q \<in> W \<and> p \<noteq> q \<and> d p = Some (Regular c s) \<and> d q = Some (Regular c s') \<and> d' q = d q \<and>
    (d' p = Some (LinkTo (relative_path_with_same_root p q)) \<or> d' p = None \<and> r \<noteq> Inr ())"
proof -
  obtain h xs s where h: "map_cache m h = Some xs" "(p, s) \<in> set xs" "p \<noteq> fst (tidy_target k xs)"
    "d' p = Some (LinkTo (relative_path_with_same_root p (fst (tidy_target k xs)))) \<or> d' p = None \<and> r \<noteq> Inr ()"
    using assms(4) by (auto simp: relinked_def)
  define q where "q = fst (tidy_target k xs)"
  have xs: "xs \<noteq> []" "\<And>x. x \<in> set xs \<Longrightarrow> fst x \<in> W \<and> info_of e d h x" using assms(2) h(1) by (auto simp: groups_ok_def)
  have tgt: "q \<in> W" "info_of e d h (tidy_target k xs)"
    using tidy_target_member [OF xs(1), of k] xs(2) by (auto simp: q_def)
  have p: "p \<in> W" "info_of e d h (p, s)" using xs(2) [OF h(2)] by auto
  obtain c t c' t' where f: "d p = Some (Regular c t)" "d q = Some (Regular c' t')" using assms(5) p(1) tgt(1) by meson
  then have hash: "te_hash e c = h" "te_hash e c' = h"
    using p(2) tgt(2) by (auto simp: info_of_def q_def open_file_def open_through.simps)
  then have "c' = c" using assms(1) by (metis injD)
  moreover have "\<not> relinked k m r d' q"
  proof
    assume "relinked k m r d' q"
    then obtain h' xs' s' where q: "map_cache m h' = Some xs'" "(q, s') \<in> set xs'" "q \<noteq> fst (tidy_target k xs')"
      by (auto simp: relinked_def)
    then have "info_of e d h' (q, s')" using assms(2) by (auto simp: groups_ok_def)
    with f(2) hash(2) have "h' = h" by (auto simp: info_of_def open_file_def open_through.simps)
    with q h(1) show False by (simp add: q_def)
  qed
  then have "d' q = d q" using assms(3) by (auto simp: tidied_def)
  ultimately show ?thesis using h(3,4) p(1) tgt(1) f unfolding q_def by blast
qed

section \<open>Runs without failures\<close>

definition faultless :: "tidy_env \<Rightarrow> bool" where
  "faultless e \<longleftrightarrow>
     (\<forall>p. te_listable e p \<and> te_openable e p \<and> te_dated e p \<and> te_removable e p \<and> te_linkable e p) \<and>
     (\<forall>p c. \<exists>bs. te_reads e p c = map Inr bs \<and> concat bs = c \<and> [] \<notin> set bs) \<and>
     (\<forall>S. finite S \<longrightarrow> set (te_keys e S) = S)"

lemma faultless_reads: "faultless e \<Longrightarrow> reads_file e"
  unfolding faultless_def reads_file_def by (metis append_Nil2)

lemma faultless_walk:
  "faultless e \<Longrightarrow> \<exists>ps. path_walk e b t = Inr ps" "faultless e \<Longrightarrow> \<exists>ps. walk_entries e b es = Inr ps"
  by (induction e b t and e b es rule: path_walk_walk_entries.induct)
     (fastforce simp: faultless_def Let_def split: dtree.splits)+

lemma faultless_collector:
  assumes "faultless e" and "open_file d p = Some (c, s)"
  shows "file_info_collector e d p m = Inr (m\<lparr>map_cache := (map_cache m)(te_hash e c \<mapsto>
    (case map_cache m (te_hash e c) of None \<Rightarrow> [] | Some v \<Rightarrow> v) @ [(p, te_format e s)])\<rparr>)"
proof -
  obtain bs where "te_reads e p c = map Inr bs" "concat bs = c" "[] \<notin> set bs"
    using assms(1) unfolding faultless_def by metis
  then have "get_hash256_from_file (te_hash e) (length c) (te_reads e p c) = Inr (te_hash e c)"
    using hash_file_loop_complete [of "[]" 0 "length c" bs "te_hash e"] by (simp add: get_hash256_from_file_def)
  with assms show ?thesis by (simp add: file_info_collector_def faultless_def)
qed

definition grouped :: "tidy_manager \<Rightarrow> string \<Rightarrow> file_info \<Rightarrow> bool" where
  "grouped m h x \<longleftrightarrow> (\<exists>xs. map_cache m h = Some xs \<and> x \<in> set xs)"

lemma collector_grouped:
  assumes "file_info_collector e d p m = Inr m'" and "grouped m h x"
  shows "grouped m' h x"
  using assms by (auto simp: file_info_collector_def grouped_def split: option.splits prod.splits sum.splits if_splits)

lemma collect_all_grouped: "grouped m h x \<Longrightarrow> grouped (collect_all e d ps m) h x"
proof (induction ps arbitrary: m)
  case (Cons p ps)
  have "grouped (case file_info_collector e d p m of Inl _ \<Rightarrow> m | Inr m' \<Rightarrow> m') h x"
    using collector_grouped Cons.prems by (auto split: sum.split)
  with Cons.IH show ?case by (simp add: collect_all_def)
qed (simp add: collect_all_def)

lemma collect_all_complete:
  "faultless e \<Longrightarrow> p \<in> set ps \<Longrightarrow> open_file d p = Some (c, s) \<Longrightarrow>
   grouped (collect_all e d ps m) (te_hash e c) (p, te_format e s)"
proof (induction ps arbitrary: m)
  case (Cons q ps)
  show ?case
  proof (cases "q = p")
    case True
    have "grouped (case file_info_collector e d p m of Inl _ \<Rightarrow> m | Inr m' \<Rightarrow> m') (te_hash e c) (p, te_format e s)"
      by (simp add: faultless_collector [OF Cons.prems(1,3)] grouped_def)
    with True show ?thesis using collect_all_grouped by (simp add: collect_all_def)
  next
    case False
    with Cons show ?thesis by (simp add: collect_all_def)
  qed
qed simp

lemma collect_all_finite: "finite (dom (map_cache m)) \<Longrightarrow> finite (dom (map_cache (collect_all e d ps m)))"
proof (induction ps arbitrary: m)
  case (Cons p ps)
  have "finite (dom (map_cache (case file_info_collector e d p m of Inl _ \<Rightarrow> m | Inr m' \<Rightarrow> m')))"
    using Cons.prems by (auto simp: file_info_collector_def split: option.split prod.split sum.split)
  with Cons.IH show ?case by (simp add: collect_all_def)
qed (simp add: collect_all_def)

lemma until_error_keeps:
  assumes "\<And>y d. y \<in> set ys \<Longrightarrow> \<exists>d'. f y d = (Inr (), d') \<and> (R d \<longrightarrow> R d')"
  shows "\<exists>d'. until_error f ys d = (Inr (), d') \<and> (R d \<longrightarrow> R d')"
  using assms
proof (induction ys arbitrary: d)
  case (Cons y ys)
  obtain d1 where "f y d = (Inr (), d1)" "R d \<longrightarrow> R d1" using Cons.prems [of y d] by auto
  with Cons.IH [of d1] Cons.prems show ?case by auto
qed simp

lemma until_error_reaches:
  assumes "\<And>y d. y \<in> set ys \<Longrightarrow> \<exists>d'. f y d = (Inr (), d') \<and> (P d \<longrightarrow> P d') \<and> (Q d \<longrightarrow> Q d')"
    and "\<And>d d'. P d \<Longrightarrow> f x d = (Inr (), d') \<Longrightarrow> Q d'"
  shows "\<exists>d'. until_error f ys d = (Inr (), d') \<and> (P d \<longrightarrow> P d') \<and> (Q d \<longrightarrow> Q d') \<and> (P d \<and> x \<in> set ys \<longrightarrow> Q d')"
  using assms(1)
proof (induction ys arbitrary: d)
  case (Cons y ys)
  obtain d1 where d1: "f y d = (Inr (), d1)" "P d \<longrightarrow> P d1" "Q d \<longrightarrow> Q d1" using Cons.prems [of y d] by auto
  obtain d2 where "until_error f ys d1 = (Inr (), d2)" "P d1 \<longrightarrow> P d2" "Q d1 \<longrightarrow> Q d2" "P d1 \<and> x \<in> set ys \<longrightarrow> Q d2"
    using Cons.IH [of d1] Cons.prems by auto
  with d1 assms(2) [of d d1] show ?case by auto
qed simp

text \<open>A member of a group whose date is not that of the target becomes a link.\<close>

lemma tidy_links:
  assumes "faultless e" and "tidy e b t k tidy_manager_new d = (r, m, d')" and "path_walk e b t = Inr ps"
    and "map_cache m h = Some xs" and "(p, s) \<in> set xs" and "p \<noteq> fst (tidy_target k xs)" and "s \<noteq> snd (tidy_target k xs)"
    and "d p \<noteq> None"
  shows "r = Inr () \<and> (\<exists>l. d' p = Some (LinkTo l))"
proof -
  let ?P = "\<lambda>d :: disk. d p \<noteq> None" and ?Q = "\<lambda>d :: disk. \<exists>l. d p = Some (LinkTo l)"
  have m: "m = collect_all e d ps tidy_manager_new"
    and u: "until_error (tidy_group e k m) (te_keys e (dom (map_cache m))) d = (r, d')"
    using assms(2,3) by (auto simp: tidy_def Let_def split: prod.splits)
  have one: "\<exists>d'. tidy_file e tg y d = (Inr (), d') \<and> (?P d \<longrightarrow> ?P d')"
    "\<exists>d'. tidy_file e tg y d = (Inr (), d') \<and> (?Q d \<longrightarrow> ?Q d')"
    "\<exists>d'. tidy_file e tg y d = (Inr (), d') \<and> (?P d \<longrightarrow> ?P d') \<and> (?Q d \<longrightarrow> ?Q d')" for tg y d
    using assms(1) by (auto simp: tidy_file_def Let_def faultless_def)
  have hit: "?Q d2" if "?P d1" "tidy_file e (tidy_target k xs) (p, s) d1 = (Inr (), d2)" for d1 d2
    using that assms(1,6,7) by (auto simp: tidy_file_def Let_def faultless_def split: if_splits)
  have group: "\<exists>d'. tidy_group e k m g d = (Inr (), d') \<and> (?P d \<longrightarrow> ?P d') \<and> (?Q d \<longrightarrow> ?Q d')" for g d
  proof (cases "map_cache m g = None \<or> map_cache m g = Some []")
    case True
    then show ?thesis by (auto simp: tidy_group_def)
  next
    case False
    then obtain ys where "map_cache m g = Some ys" "ys \<noteq> []" by auto
    then have "tidy_group e k m g d = until_error (tidy_file e (tidy_target k ys)) ys d" by (rule tidy_group_Some)
    moreover obtain d1 where "until_error (tidy_file e (tidy_target k ys)) ys d = (Inr (), d1)" "?P d \<longrightarrow> ?P d1"
      using until_error_keeps [where R = ?P and d = d and f = "tidy_file e (tidy_target k ys)", OF one(1)] by blast
    moreover obtain d2 where "until_error (tidy_file e (tidy_target k ys)) ys d = (Inr (), d2)" "?Q d \<longrightarrow> ?Q d2"
      using until_error_keeps [where R = ?Q and d = d and f = "tidy_file e (tidy_target k ys)", OF one(2)] by blast
    ultimately show ?thesis by auto
  qed
  have reach: "?Q d2" if "?P d1" "tidy_group e k m h d1 = (Inr (), d2)" for d1 d2
  proof -
    have "until_error (tidy_file e (tidy_target k xs)) xs d1 = (Inr (), d2)"
      using that(2) tidy_group_Some [OF assms(4), of e k d1] assms(5) by force
    moreover have "\<exists>d'. until_error (tidy_file e (tidy_target k xs)) xs d1 = (Inr (), d') \<and> (?P d1 \<longrightarrow> ?P d') \<and>
        (?Q d1 \<longrightarrow> ?Q d') \<and> (?P d1 \<and> (p, s) \<in> set xs \<longrightarrow> ?Q d')"
      by (rule until_error_reaches [where P = ?P and Q = ?Q]) (rule one(3), rule hit)
    ultimately show ?thesis using that(1) assms(5) by auto
  qed
  have "h \<in> set (te_keys e (dom (map_cache m)))"
    using assms(1,4) collect_all_finite [of tidy_manager_new e d ps] unfolding m
    by (auto simp: faultless_def tidy_manager_new_def)
  moreover have "\<exists>d'. until_error (tidy_group e k m) (te_keys e (dom (map_cache m))) d = (Inr (), d') \<and> (?P d \<longrightarrow> ?P d') \<and>
      (?Q d \<longrightarrow> ?Q d') \<and> (?P d \<and> h \<in> set (te_keys e (dom (map_cache m))) \<longrightarrow> ?Q d')"
    by (rule until_error_reaches [where P = ?P and Q = ?Q]) (rule group, rule reach)
  ultimately show ?thesis using u assms(8) by auto
qed

text \<open>An instance: a directory with two files of the same content, the newer one in a subdirectory.\<close>

definition demo_tidy :: tidy_env where
  "demo_tidy = \<lparr>te_hash = of_bytes, te_reads = (\<lambda>p c. if c = [] then [] else [Inr c]),
     te_format = (\<lambda>t. replicate t (CHR ''1'')), te_keys = sorted_list_of_set, te_listable = (\<lambda>_. True),
     te_openable = (\<lambda>_. True), te_dated = (\<lambda>_. True), te_removable = (\<lambda>_. True), te_linkable = (\<lambda>_. True)\<rparr>"

definition demo_dtree :: dtree where
  "demo_dtree = Dir [(''a'', NonDir), (''d'', Dir [(''b'', NonDir)])]"

definition demo_disk :: disk where
  "demo_disk = [[''r'', ''a''] \<mapsto> Regular [1] 1, [''r'', ''d'', ''b''] \<mapsto> Regular [1] 2]"

lemma demo_tidy_facts:
  "inj (te_hash demo_tidy)" "faultless demo_tidy" "wf_dtree demo_dtree"
  "path_walk demo_tidy [''r''] demo_dtree = Inr [[''r'', ''a''], [''r'', ''d'', ''b'']]"
proof -
  show "inj (te_hash demo_tidy)" by (simp add: demo_tidy_def inj_def) (metis as_bytes_of_bytes)
  have "\<exists>bs. te_reads demo_tidy p c = map Inr bs \<and> concat bs = c \<and> [] \<notin> set bs" for p c
    by (intro exI [of _ "if c = [] then [] else [c]"]) (simp add: demo_tidy_def)
  then show "faultless demo_tidy" by (simp add: faultless_def) (simp add: demo_tidy_def)
qed (simp_all add: demo_tidy_def demo_dtree_def plain_component_def)

section \<open>Properties\<close>





end
