(* ===== verification/Lina_Config.thy ===== *)
theory Lina_Config
  imports Lina_Prelude
begin

text \<open>
  Configuration and database start-up of the server: reading and validating the environment (vars.rs), the
  kind of database behind a URL, the file of a SQLite database and the records of the migrations
  (db/mod.rs).
\<close>

section \<open>Strings\<close>

text \<open>\<^verbatim>\<open>str::trim\<close> removes the characters with the Unicode property White_Space from both ends; these are their
  encodings.\<close>

definition white_spaces :: "string list" where
  "white_spaces =
     [[CHR 0x09], [CHR 0x0A], [CHR 0x0B], [CHR 0x0C], [CHR 0x0D], [CHR 0x20],
      [CHR 0xC2, CHR 0x85], [CHR 0xC2, CHR 0xA0], [CHR 0xE1, CHR 0x9A, CHR 0x80]] @
     map (\<lambda>c. [CHR 0xE2, CHR 0x80, c])
       [CHR 0x80, CHR 0x81, CHR 0x82, CHR 0x83, CHR 0x84, CHR 0x85, CHR 0x86,
        CHR 0x87, CHR 0x88, CHR 0x89, CHR 0x8A, CHR 0xA8, CHR 0xA9, CHR 0xAF] @
     [[CHR 0xE2, CHR 0x81, CHR 0x9F], [CHR 0xE3, CHR 0x80, CHR 0x80]]"

function drop_all :: "string list \<Rightarrow> string \<Rightarrow> string" where
  "drop_all ws bs =
     (case find (\<lambda>w. w \<noteq> [] \<and> starts_with bs w) ws of
        None \<Rightarrow> bs
      | Some w \<Rightarrow> drop_all ws (drop (length w) bs))"
  by pat_completeness auto
termination
proof (relation "measure (length \<circ> snd)")
  fix ws bs w
  assume "find (\<lambda>w. w \<noteq> [] \<and> starts_with bs w) ws = Some (w :: string)"
  then show "((ws, drop (length w) bs), ws, bs) \<in> measure (length \<circ> snd)"
    by (auto simp: find_Some_iff starts_with_iff)
qed simp

declare drop_all.simps [simp del]

definition trim :: "string \<Rightarrow> string" where
  "trim s = rev (drop_all (map rev white_spaces) (rev (drop_all white_spaces s)))"

definition to_ascii_lowercase :: "string \<Rightarrow> string" where
  "to_ascii_lowercase = map (\<lambda>c. if CHR ''A'' \<le> c \<and> c \<le> CHR ''Z'' then char_of (of_char c + 32 :: nat) else c)"

text \<open>\<^verbatim>\<open>str::find\<close> with a string.\<close>

fun find_sub :: "'a list \<Rightarrow> 'a list \<Rightarrow> nat option" where
  "find_sub [] p = (if p = [] then Some 0 else None)"
| "find_sub (x # s) p = (if starts_with (x # s) p then Some 0 else map_option Suc (find_sub s p))"

section \<open>The environment\<close>

definition parse_truthy :: "string \<Rightarrow> bool option" where
  "parse_truthy raw =
     (let v = to_ascii_lowercase (trim raw) in
      if v \<in> {''1'', ''true'', ''yes'', ''on''} then Some True
      else if v \<in> {'''', ''0'', ''false'', ''no'', ''off''} then Some False
      else None)"

definition mask_db_url :: "string \<Rightarrow> string" where
  "mask_db_url url =
     (case position ((=) (CHR ''@'')) url of
        Some at_pos \<Rightarrow>
          (case rfind (CHR '':'') (take at_pos url) of
             Some colon_pos \<Rightarrow>
               (case find_sub url ''://'' of
                  Some protocol_end \<Rightarrow>
                    if colon_pos > protocol_end + 3
                    then take (colon_pos + 1) url @ ''***'' @ drop at_pos url
                    else url
                | None \<Rightarrow> url)
           | None \<Rightarrow> url)
      | None \<Rightarrow> url)"

text \<open>The errors of the environment: the value of a variable that was not understood.\<close>

datatype env_error =
    InvalidPayloadSize string
  | UnknownAuthRequired string

record env_var =
  ip_address :: string
  advanced_port :: string
  http_port :: string
  s3_port :: string
  max_payload_size :: nat
  env_auth_required :: bool
  admin_username :: string
  admin_password :: "string option"
  db_url :: string
  init_errors :: "env_error list"

text \<open>The process environment, where a variable that is not Unicode counts as not set.\<close>

type_synonym process_env = "string \<rightharpoonup> string"

definition var_or :: "process_env \<Rightarrow> string \<Rightarrow> string \<Rightarrow> string" where
  "var_or env name dflt = (case env name of Some v \<Rightarrow> v | None \<Rightarrow> dflt)"

definition read_admin_password_from_env :: "process_env \<Rightarrow> string option" where
  "read_admin_password_from_env env =
     (case env ''LINASTORE_ADMIN_PASSWORD'' of
        Some v \<Rightarrow> if trim v \<noteq> [] then Some v else None
      | None \<Rightarrow> None)"

definition payload_size :: "process_env \<Rightarrow> nat \<times> env_error list" where
  "payload_size env =
     (case env ''LINASTORE_MAX_PAYLOAD_SIZE'' of
        Some raw \<Rightarrow>
          (case parse_unsigned 64 (trim raw) of
             Some v \<Rightarrow> (v, [])
           | None \<Rightarrow> (0x4000000, [InvalidPayloadSize raw]))
      | None \<Rightarrow> (0x4000000, []))"

definition auth_flag :: "process_env \<Rightarrow> bool \<times> env_error list" where
  "auth_flag env =
     (case env ''LINASTORE_AUTH_REQUIRED'' of
        Some raw \<Rightarrow>
          (case parse_truthy raw of
             Some v \<Rightarrow> (v, [])
           | None \<Rightarrow> (False, [UnknownAuthRequired raw]))
      | None \<Rightarrow> (False, []))"

definition admin_credentials :: "process_env \<Rightarrow> bool \<Rightarrow> string \<times> string option" where
  "admin_credentials env required =
     (if required
      then (case env ''LINASTORE_ADMIN_USER'' of
              Some v \<Rightarrow> if v \<noteq> [] then v else ''admin''
            | None \<Rightarrow> ''admin'', read_admin_password_from_env env)
      else ('''', None))"

definition env_initialize :: "process_env \<Rightarrow> env_var" where
  "env_initialize env =
     (let (max_payload, errs1) = payload_size env;
          (required, errs2) = auth_flag env;
          (username, password) = admin_credentials env required
      in \<lparr>ip_address = var_or env ''LINASTORE_IP'' ''127.0.0.1'',
          advanced_port = var_or env ''LINASTORE_ADVANCED_PORT'' ''8096'',
          http_port = var_or env ''LINASTORE_HTTP_PORT'' ''8086'',
          s3_port = var_or env ''LINASTORE_S3_PORT'' ''8087'',
          max_payload_size = max_payload, env_auth_required = required,
          admin_username = username, admin_password = password,
          db_url = var_or env ''LINASTORE_DB_URL'' ''sqlite://./linadata/meta.db'',
          init_errors = errs1 @ errs2\<rparr>)"

datatype config_error =
    InvalidEnvironment "env_error list"
  | PayloadSizeZero
  | NoAdminPassword

definition env_validate :: "env_var \<Rightarrow> config_error + unit" where
  "env_validate v =
     (if init_errors v \<noteq> [] then Inl (InvalidEnvironment (init_errors v))
      else if max_payload_size v = 0 then Inl PayloadSizeZero
      else if env_auth_required v \<and> admin_password v = None then Inl NoAdminPassword
      else Inr ())"

section \<open>The database\<close>

datatype db_type = SQLite | MySQL | PostgreSQL

definition db_type_from_url :: "string \<Rightarrow> db_type" where
  "db_type_from_url url =
     (if starts_with url ''sqlite:'' then SQLite
      else if starts_with url ''mysql://'' \<or> starts_with url ''mariadb://'' then MySQL
      else if starts_with url ''postgres://'' \<or> starts_with url ''postgresql://'' then PostgreSQL
      else SQLite)"

text \<open>A path of the standard library: whether it is absolute, and its components.\<close>

type_synonym upath = "bool \<times> string list"

definition upath_new :: "string \<Rightarrow> upath" where
  "upath_new s =
     (let absolute = starts_with s ''/'';
          cs = split_on (CHR ''/'') s;
          leading = (if \<not> absolute \<and> hd cs = ''.'' then [''.''] else [])
      in (absolute, leading @ filter (\<lambda>c. c \<noteq> [] \<and> c \<noteq> ''.'') cs))"

definition upath_parent :: "upath \<Rightarrow> upath option" where
  "upath_parent p = (if snd p = [] then None else Some (fst p, butlast (snd p)))"

definition upath_file_name :: "upath \<Rightarrow> string option" where
  "upath_file_name p =
     (if snd p = [] \<or> last (snd p) \<in> {''.'', ''..''} then None else Some (last (snd p)))"

text \<open>The directories and files there are, and which ones cannot be made.\<close>

record db_files =
  df_dirs :: "upath set"
  df_files :: "upath set"
  df_no_dir :: "upath set"
  df_no_file :: "upath set"

definition ancestors :: "upath \<Rightarrow> upath set" where
  "ancestors p = set (map (\<lambda>n. (fst p, take n (snd p))) [0..<Suc (length (snd p))])"

definition create_dir_all :: "upath \<Rightarrow> db_files \<Rightarrow> bool \<times> db_files" where
  "create_dir_all p f =
     (if p \<in> df_no_dir f then (False, f) else (True, f\<lparr>df_dirs := df_dirs f \<union> ancestors p\<rparr>))"

text \<open>The path in a SQLite URL, if it names a file.\<close>

definition sqlite_path :: "string \<Rightarrow> string option" where
  "sqlite_path url =
     (if url = ''sqlite::memory:'' \<or> starts_with url ''sqlite::memory:'' \<or> url = ''sqlite://:memory:'' then None
      else case (case strip_prefix url ''sqlite://'' of
                   Some path \<Rightarrow> Some path
                 | None \<Rightarrow> strip_prefix url ''sqlite:'') of
             None \<Rightarrow> None
           | Some rest \<Rightarrow>
               (let rest = hd (split_on (CHR ''?'') rest) in
                if rest = [] \<or> rest = '':memory:'' \<or> starts_with rest ''file:'' then None else Some rest))"

datatype db_error =
    DirectoryFailed upath
  | FileFailed upath
  | ConnectFailed
  | FeatureMissing db_type
  | QueryFailed string
  | MigrationFailed

definition ensure_sqlite_parent_dir :: "string \<Rightarrow> db_files \<Rightarrow> (db_error + unit) \<times> db_files" where
  "ensure_sqlite_parent_dir url f =
     (case sqlite_path url of
        None \<Rightarrow> (Inr (), f)
      | Some rest \<Rightarrow>
          (let db_path = upath_new rest;
               (made, f1) = (case upath_parent db_path of Some parent \<Rightarrow> create_dir_all parent f | None \<Rightarrow> (True, f))
           in if \<not> made then (Inl (DirectoryFailed (the (upath_parent db_path))), f1)
              else if upath_file_name db_path \<noteq> None \<and> db_path \<notin> df_dirs f1 \<union> df_files f1
              then if db_path \<in> df_no_file f1 then (Inl (FileFailed db_path), f1)
                   else (Inr (), f1\<lparr>df_files := insert db_path (df_files f1)\<rparr>)
              else (Inr (), f1)))"

section \<open>Migrations\<close>

text \<open>A migration as the migrator embeds it: its version and its description.\<close>

type_synonym migration = "nat \<times> string"

definition pad6 :: "nat \<Rightarrow> string" where
  "pad6 n = replicate (6 - length (nat_str n)) (CHR ''0'') @ nat_str n"

definition migration_versions :: "migration list \<Rightarrow> string list" where
  "migration_versions ms = sort (map (\<lambda>(v, d). pad6 v @ ''_'' @ replace_char (CHR '' '') (CHR ''_'') d) ms)"

definition is_missing_mig_records_table :: "string \<Rightarrow> bool" where
  "is_missing_mig_records_table msg \<longleftrightarrow>
     contains_sub msg ''mig_records'' \<and> contains_sub msg ''does not exist'' \<or>
     contains_sub msg ''no such table: mig_records'' \<or>
     contains_sub msg ''mig_records'' \<and> contains_sub msg (''doesn'' @ [CHR 0x27] @ ''t exist'')"

text \<open>A database: the answer to the query of the records, an error message or the versions, and the effect of the
  migrator on the whole database \<open>'d\<close>.\<close>

record 'd db_driver =
  dd_connect :: "'d \<Rightarrow> bool"
  dd_select :: "'d \<Rightarrow> string + string list"
  dd_migrate :: "'d \<Rightarrow> bool \<times> 'd"
  dd_migrations :: "migration list"

definition fetch_mig_versions :: "'d db_driver \<Rightarrow> 'd \<Rightarrow> db_error + string list" where
  "fetch_mig_versions dr d =
     (case dd_select dr d of
        Inr list \<Rightarrow> Inr list
      | Inl msg \<Rightarrow> if is_missing_mig_records_table msg then Inr [] else Inl (QueryFailed msg))"

definition all_mig_records_present :: "'d db_driver \<Rightarrow> string list \<Rightarrow> 'd \<Rightarrow> db_error + bool" where
  "all_mig_records_present dr versions d =
     (if versions = [] then Inr False
      else case fetch_mig_versions dr d of
             Inl e \<Rightarrow> Inl e
           | Inr existing \<Rightarrow>
               if existing = [] then Inr False
               else Inr (list_all (\<lambda>version. version \<in> set existing) versions))"

definition run_migrations :: "'d db_driver \<Rightarrow> 'd \<Rightarrow> (db_error + unit) \<times> 'd" where
  "run_migrations dr d =
     (let versions = migration_versions (dd_migrations dr) in
      case all_mig_records_present dr versions d of
        Inl e \<Rightarrow> (Inl e, d)
      | Inr True \<Rightarrow> (Inr (), d)
      | Inr False \<Rightarrow> (case dd_migrate dr d of (True, d') \<Rightarrow> (Inr (), d') | (False, d') \<Rightarrow> (Inl MigrationFailed, d')))"

text \<open>The connection: \<open>features\<close> are the databases the server was built for besides SQLite.\<close>

definition db_connection_new ::
  "db_type set \<Rightarrow> (db_type \<Rightarrow> 'd db_driver) \<Rightarrow> string \<Rightarrow> db_files \<times> 'd \<Rightarrow> (db_error + db_type) \<times> db_files \<times> 'd" where
  "db_connection_new features drivers url = (\<lambda>(f, d).
     let t = db_type_from_url url;
         connect = (\<lambda>f.
           if \<not> dd_connect (drivers t) d then (Inl ConnectFailed, f, d)
           else case run_migrations (drivers t) d of
                  (Inl e, d') \<Rightarrow> (Inl e, f, d')
                | (Inr _, d') \<Rightarrow> (Inr t, f, d'))
     in if t = SQLite
        then (case ensure_sqlite_parent_dir url f of
                (Inl e, f') \<Rightarrow> (Inl e, f', d)
              | (Inr _, f') \<Rightarrow> connect f')
        else if t \<in> features then connect f
        else (Inl (FeatureMissing t), f, d))"

section \<open>Lemmas\<close>

lemma rfind_append: "c \<notin> set t \<Longrightarrow> rfind c (s @ c # t) = Some (length s)"
proof -
  assume "c \<notin> set t"
  then have "position ((=) c) (rev t @ c # rev s) = Some (length t)"
    using position_append [of "rev t" "(=) c" "c # rev s"] by auto
  then show ?thesis by (simp add: rfind_def)
qed

lemma env_initialize_sel:
  "init_errors (env_initialize env) = snd (payload_size env) @ snd (auth_flag env)"
  "max_payload_size (env_initialize env) = fst (payload_size env)"
  "env_auth_required (env_initialize env) = fst (auth_flag env)"
  "admin_password (env_initialize env) = (if fst (auth_flag env) then read_admin_password_from_env env else None)"
  by (simp_all add: env_initialize_def Let_def admin_credentials_def split: prod.split)

lemma payload_size_accepted:
  "snd (payload_size env) = [] \<and> fst (payload_size env) \<noteq> 0 \<longleftrightarrow>
   (\<forall>raw. env ''LINASTORE_MAX_PAYLOAD_SIZE'' = Some raw \<longrightarrow> (\<exists>n. parse_unsigned 64 (trim raw) = Some (Suc n)))"
proof (cases "env ''LINASTORE_MAX_PAYLOAD_SIZE''")
  case (Some raw)
  then show ?thesis
    by (cases "parse_unsigned 64 (trim raw)") (auto simp: payload_size_def gr0_conv_Suc simp flip: neq0_conv)
qed (simp add: payload_size_def)

lemma auth_flag_accepted:
  "snd (auth_flag env) = [] \<longleftrightarrow> (\<forall>raw. env ''LINASTORE_AUTH_REQUIRED'' = Some raw \<longrightarrow> parse_truthy raw \<noteq> None)"
  by (simp add: auth_flag_def split: option.split)

lemma auth_flag_on:
  "fst (auth_flag env) \<longleftrightarrow> (\<exists>raw. env ''LINASTORE_AUTH_REQUIRED'' = Some raw \<and> parse_truthy raw = Some True)"
  by (simp add: auth_flag_def split: option.split)

lemma admin_password_given:
  "read_admin_password_from_env env \<noteq> None \<longleftrightarrow> (\<exists>pw. env ''LINASTORE_ADMIN_PASSWORD'' = Some pw \<and> trim pw \<noteq> [])"
  by (simp add: read_admin_password_from_env_def split: option.split)

text \<open>The scheme of a URL has no colon, so that the first separator is the one behind it.\<close>

lemma find_sub_scheme: "CHR '':'' \<notin> set s \<Longrightarrow> find_sub (s @ ''://'' @ t) ''://'' = Some (length s)"
  by (induction s) auto

text \<open>The values of the unit tests.\<close>

lemma parse_truthy_values:
  "list_all (\<lambda>raw. parse_truthy raw = Some True) [''1'', ''true'', ''TRUE'', ''Yes'', ''on'', '' true '']"
  "list_all (\<lambda>raw. parse_truthy raw = Some False) [''0'', ''false'', ''FALSE'', ''No'', ''off'', '''', ''  '']"
  "list_all (\<lambda>raw. parse_truthy raw = None) [''enable'', ''disable'', ''2'', ''tru'', ''noo'']"
  by code_simp+

text \<open>The names of the migrations are those of their files: the migrator reads the description with its underscores
  as spaces.\<close>

lemma migration_versions_stems:
  assumes "\<forall>(v, d)\<in>set ms. CHR '' '' \<notin> set d"
  shows "migration_versions (map (\<lambda>(v, d). (v, replace_char (CHR ''_'') (CHR '' '') d)) ms) =
    sort (map (\<lambda>(v, d). pad6 v @ ''_'' @ d) ms)"
proof -
  have "replace_char (CHR '' '') (CHR ''_'') (replace_char (CHR ''_'') (CHR '' '') d) = d" if "CHR '' '' \<notin> set d" for d
    using that by (induction d) (auto simp: replace_char_def)
  then have "map ((\<lambda>(v, d). pad6 v @ ''_'' @ replace_char (CHR '' '') (CHR ''_'') d) \<circ>
      (\<lambda>(v, d). (v, replace_char (CHR ''_'') (CHR '' '') d))) ms = map (\<lambda>(v, d). pad6 v @ ''_'' @ d) ms"
    using assms by (intro map_cong) auto
  then show ?thesis unfolding migration_versions_def map_map by (rule arg_cong)
qed

section \<open>Properties\<close>

text \<open>The configuration is accepted exactly when every variable that is set is understood, the payload limit is
  positive and a required password is given; and an accepted configuration requires a password exactly when the
  variable says so.\<close>

theorem config_validated:
  "env_validate (env_initialize env) = Inr () \<longleftrightarrow>
     (\<forall>raw. env ''LINASTORE_MAX_PAYLOAD_SIZE'' = Some raw \<longrightarrow> (\<exists>n. parse_unsigned 64 (trim raw) = Some (Suc n))) \<and>
     (\<forall>raw. env ''LINASTORE_AUTH_REQUIRED'' = Some raw \<longrightarrow> parse_truthy raw \<noteq> None) \<and>
     ((\<exists>raw. env ''LINASTORE_AUTH_REQUIRED'' = Some raw \<and> parse_truthy raw = Some True) \<longrightarrow>
        (\<exists>pw. env ''LINASTORE_ADMIN_PASSWORD'' = Some pw \<and> trim pw \<noteq> []))"
proof -
  have "env_validate (env_initialize env) = Inr () \<longleftrightarrow>
      (snd (payload_size env) = [] \<and> fst (payload_size env) \<noteq> 0) \<and> snd (auth_flag env) = [] \<and>
      (fst (auth_flag env) \<longrightarrow> read_admin_password_from_env env \<noteq> None)"
    by (auto simp: env_validate_def env_initialize_sel split: if_splits)
  then show ?thesis unfolding payload_size_accepted auth_flag_accepted auth_flag_on admin_password_given .
qed

theorem config_validated_witness:
  "env_validate (env_initialize [''LINASTORE_AUTH_REQUIRED'' \<mapsto> ''yes'', ''LINASTORE_ADMIN_PASSWORD'' \<mapsto> ''pw'']) = Inr ()"
proof -
  have "parse_truthy ''yes'' = Some True" "trim ''pw'' \<noteq> []" by code_simp+
  then show ?thesis unfolding config_validated by auto
qed

text \<open>The URL of a database is logged without its password: with a user name in front of it, and no \<open>@\<close> or colon
  in it, exactly the password is replaced.  A password without a user name is shown.\<close>

theorem mask_hides_password:
  assumes "CHR '':'' \<notin> set scheme" and "CHR ''@'' \<notin> set (scheme @ user @ pw)" and "CHR '':'' \<notin> set pw"
  shows "mask_db_url (scheme @ ''://'' @ user @ '':'' @ pw @ ''@'' @ host) =
    scheme @ ''://'' @ user @ '':'' @ (if user = [] then pw else ''***'') @ ''@'' @ host"
proof -
  define a where "a = scheme @ ''://'' @ user"
  define b where "b = a @ '':'' @ pw"
  let ?url = "scheme @ ''://'' @ user @ '':'' @ pw @ ''@'' @ host"
  have url: "?url = b @ ''@'' @ host" "?url = (a @ '':'') @ pw @ ''@'' @ host" by (simp_all add: a_def b_def)
  have "\<forall>x\<in>set b. \<not> CHR ''@'' = x" using assms(2) by (auto simp: a_def b_def)
  then have at: "position ((=) (CHR ''@'')) ?url = Some (length b)"
    unfolding url(1) using position_append [of b "(=) (CHR ''@'')" "''@'' @ host"] by simp
  have "take (length b) ?url = b" unfolding url(1) by simp
  then have colon: "rfind (CHR '':'') (take (length b) ?url) = Some (length a)"
    using rfind_append [OF assms(3), of a] by (simp add: b_def)
  have sub: "find_sub ?url ''://'' = Some (length scheme)" by (rule find_sub_scheme [OF assms(1)])
  have "take (length a + 1) ?url = a @ '':''" unfolding url(2) by simp
  moreover have "drop (length b) ?url = ''@'' @ host" unfolding url(1) by simp
  moreover have "length a > length scheme + 3 \<longleftrightarrow> user \<noteq> []" by (simp add: a_def)
  ultimately show ?thesis unfolding mask_db_url_def at colon sub option.case by (simp add: a_def)
qed

theorem mask_hides_password_witness: "mask_db_url ''mysql://u:p@h/db'' = ''mysql://u:***@h/db''"
  using mask_hides_password [of "''mysql''" "''u''" "''p''" "''h/db''"] by simp


definition demo_driver :: "bool db_driver" where
  "demo_driver = \<lparr>dd_connect = (\<lambda>_. True),
     dd_select = (\<lambda>d. if d then Inr [''000001_init_auth''] else Inl ''no such table: mig_records''),
     dd_migrate = (\<lambda>_. (True, True)), dd_migrations = [(1, ''init auth'')]\<rparr>"


text \<open>Before a connection to a SQLite file is opened the file and its directory exist, and no other file has been
  made.\<close>

theorem sqlite_file_made:
  assumes "ensure_sqlite_parent_dir url f = (Inr (), f')" and "sqlite_path url = Some rest"
    and "upath_file_name (upath_new rest) \<noteq> None"
  shows "upath_new rest \<in> df_dirs f' \<union> df_files f' \<and> the (upath_parent (upath_new rest)) \<in> df_dirs f' \<and>
    df_files f' \<subseteq> insert (upath_new rest) (df_files f) \<and> df_files f \<subseteq> df_files f'"
proof -
  let ?p = "upath_new rest"
  obtain parent where parent: "upath_parent ?p = Some parent" using assms(3) by (auto simp: upath_file_name_def upath_parent_def split: if_splits)
  have "parent \<in> ancestors parent" by (cases parent) (force simp: ancestors_def)
  then show ?thesis
    using assms parent
    by (auto simp: ensure_sqlite_parent_dir_def Let_def create_dir_all_def split: if_splits)
qed

theorem sqlite_file_made_witness:
  "\<exists>f'. ensure_sqlite_parent_dir ''sqlite://d/m'' \<lparr>df_dirs = {}, df_files = {}, df_no_dir = {}, df_no_file = {}\<rparr> =
      (Inr (), f') \<and> (False, [''d'']) \<in> df_dirs f'"
proof -
  let ?f = "\<lparr>df_dirs = {}, df_files = {}, df_no_dir = {}, df_no_file = {}\<rparr>"
  have p: "sqlite_path ''sqlite://d/m'' = Some ''d/m''" "upath_new ''d/m'' = (False, [''d'', ''m''])" by code_simp+
  obtain f' where f': "ensure_sqlite_parent_dir ''sqlite://d/m'' ?f = (Inr (), f')"
    by (cases "(False, [''d'', ''m'']) \<in> ancestors (False, [''d''])")
       (auto simp: ensure_sqlite_parent_dir_def p Let_def upath_parent_def upath_file_name_def create_dir_all_def)
  from sqlite_file_made [OF f' p(1)] f' show ?thesis by (auto simp: p upath_file_name_def upath_parent_def)
qed

end
