(* ===== verification/Lina_Boot.thy ===== *)
theory Lina_Boot
  imports Lina_Config Lina_Auth
begin

text \<open>
  Starting and stopping the server: the shutdown flag and those who wait for it (shutdown.rs), the PID file,
  the stop command and the order of the start-up steps (utils.rs).
\<close>

section \<open>The shutdown flag\<close>

text \<open>A notified future completes when \<^verbatim>\<open>notify_waiters\<close> has been called since it was made: \<open>sd_rounds\<close> counts the calls and
  a future remembers the count it saw.  A task that waits makes its future, looks at the flag and awaits; a
  task that shuts down swaps the flag and notifies.\<close>

datatype waiter = NotYet | Listening nat | Awaiting nat | Released

datatype trigger = Quiet | Swapped bool | Triggered

record shutdown_state =
  sd_flag :: bool
  sd_rounds :: nat
  sd_waiters :: "waiter list"
  sd_triggers :: "trigger list"

definition shutdown_init :: "nat \<Rightarrow> nat \<Rightarrow> shutdown_state" where
  "shutdown_init n k =
     \<lparr>sd_flag = False, sd_rounds = 0, sd_waiters = replicate n NotYet, sd_triggers = replicate k Quiet\<rparr>"

inductive sd_step :: "shutdown_state \<Rightarrow> shutdown_state \<Rightarrow> bool" where
  Listen: "i < length (sd_waiters s) \<Longrightarrow> sd_waiters s ! i = NotYet \<Longrightarrow>
    sd_step s (s\<lparr>sd_waiters := (sd_waiters s)[i := Listening (sd_rounds s)]\<rparr>)"
| Check: "i < length (sd_waiters s) \<Longrightarrow> sd_waiters s ! i = Listening n \<Longrightarrow>
    sd_step s (s\<lparr>sd_waiters := (sd_waiters s)[i := if sd_flag s then Released else Awaiting n]\<rparr>)"
| Wake: "i < length (sd_waiters s) \<Longrightarrow> sd_waiters s ! i = Awaiting n \<Longrightarrow> n < sd_rounds s \<Longrightarrow>
    sd_step s (s\<lparr>sd_waiters := (sd_waiters s)[i := Released]\<rparr>)"
| Swap: "j < length (sd_triggers s) \<Longrightarrow> sd_triggers s ! j = Quiet \<Longrightarrow>
    sd_step s (s\<lparr>sd_flag := True, sd_triggers := (sd_triggers s)[j := Swapped (sd_flag s)]\<rparr>)"
| Notify: "j < length (sd_triggers s) \<Longrightarrow> sd_triggers s ! j = Swapped already \<Longrightarrow>
    sd_step s (s\<lparr>sd_rounds := (if already then sd_rounds s else Suc (sd_rounds s)),
                 sd_triggers := (sd_triggers s)[j := Triggered]\<rparr>)"

inductive_cases sd_stepE: "sd_step s s'"

text \<open>Only the first trigger notifies, and as long as it has not, it is the one that found the flag down.\<close>

definition sd_inv :: "shutdown_state \<Rightarrow> bool" where
  "sd_inv s \<longleftrightarrow>
     (\<forall>n. Listening n \<in> set (sd_waiters s) \<and> \<not> sd_flag s \<longrightarrow> n = 0) \<and>
     (\<forall>n. Awaiting n \<in> set (sd_waiters s) \<longrightarrow> n = 0) \<and>
     (Released \<in> set (sd_waiters s) \<longrightarrow> sd_flag s) \<and>
     (\<not> sd_flag s \<longrightarrow> sd_rounds s = 0 \<and> (\<forall>b. Swapped b \<notin> set (sd_triggers s))) \<and>
     (sd_flag s \<and> sd_rounds s = 0 \<longrightarrow> Swapped False \<in> set (sd_triggers s))"

lemma sd_inv_init: "sd_inv (shutdown_init n k)"
  by (auto simp: sd_inv_def shutdown_init_def)

lemma in_set_update: "x \<in> set (xs[i := y]) \<Longrightarrow> x = y \<or> x \<in> set xs"
  using set_update_subset_insert [of xs i y] by auto

lemma in_set_update_other: "x \<in> set xs \<Longrightarrow> i < length xs \<Longrightarrow> xs ! i \<noteq> x \<Longrightarrow> x \<in> set (xs[i := y])"
  by (metis in_set_conv_nth length_list_update nth_list_update_neq)

lemma sd_inv_step:
  assumes "sd_step s s'" and "sd_inv s"
  shows "sd_inv s'"
  using assms
proof (cases rule: sd_step.cases)
  case (Check i n)
  then have "Listening n \<in> set (sd_waiters s)" by (metis nth_mem)
  with Check assms(2) show ?thesis by (auto simp: sd_inv_def dest!: in_set_update)
next
  case (Swap j)
  have "Swapped (sd_flag s) \<in> set (sd_triggers s')" using Swap by (simp add: set_update_memI)
  moreover have "Swapped False \<in> set (sd_triggers s')" if "sd_flag s" "sd_rounds s = 0"
    using that Swap assms(2) by (auto simp: sd_inv_def intro!: in_set_update_other)
  ultimately have "Swapped False \<in> set (sd_triggers s')" if "sd_rounds s = 0" using that by (cases "sd_flag s") auto
  with Swap assms(2) show ?thesis by (auto simp: sd_inv_def)
next
  case (Notify j already)
  have "Swapped already \<in> set (sd_triggers s)" using Notify by (metis nth_mem)
  moreover have "Swapped False \<in> set (sd_triggers s')" if "already" "sd_flag s" "sd_rounds s = 0"
    using that Notify assms(2) by (auto simp: sd_inv_def intro!: in_set_update_other)
  ultimately show ?thesis using Notify assms(2) by (cases already) (auto simp: sd_inv_def)
qed (auto simp: sd_inv_def dest!: in_set_update)

lemma sd_inv_reachable: "sd_step\<^sup>*\<^sup>* (shutdown_init n k) s \<Longrightarrow> sd_inv s"
  by (induction rule: rtranclp_induct) (auto intro: sd_inv_init sd_inv_step)

text \<open>From where a task stands to its release.\<close>

lemma sd_release:
  assumes "sd_inv s" and "sd_flag s" and "Swapped False \<notin> set (sd_triggers s)" and "i < length (sd_waiters s)"
  shows "sd_step\<^sup>*\<^sup>* s (s\<lparr>sd_waiters := (sd_waiters s)[i := Released]\<rparr>)"
proof -
  have check: "sd_step\<^sup>*\<^sup>* t (t\<lparr>sd_waiters := (sd_waiters t)[i := Released]\<rparr>)"
    if "sd_waiters t ! i = Listening n" "i < length (sd_waiters t)" "sd_flag t" for t n
    using sd_step.Check [of i t n] that by auto
  show ?thesis
  proof (cases "sd_waiters s ! i")
    case NotYet
    let ?t = "s\<lparr>sd_waiters := (sd_waiters s)[i := Listening (sd_rounds s)]\<rparr>"
    have "sd_step s ?t" using NotYet assms(4) by (rule sd_step.Listen [rotated])
    moreover have "sd_step\<^sup>*\<^sup>* ?t (s\<lparr>sd_waiters := (sd_waiters s)[i := Released]\<rparr>)"
      using check [of ?t "sd_rounds s"] assms(2,4) by simp
    ultimately show ?thesis by (rule converse_rtranclp_into_rtranclp)
  next
    case (Listening n)
    then show ?thesis using check assms(2,4) by blast
  next
    case (Awaiting n)
    then have "Awaiting n \<in> set (sd_waiters s)" using assms(4) by (metis nth_mem)
    then have "n < sd_rounds s" using assms(1-3) by (auto simp: sd_inv_def)
    then show ?thesis using sd_step.Wake [OF assms(4) Awaiting] by blast
  next
    case Released
    then have "s\<lparr>sd_waiters := (sd_waiters s)[i := Released]\<rparr> = s" by (simp flip: Released)
    then show ?thesis by simp
  qed
qed

section \<open>The PID file\<close>

text \<open>A machine as these commands see it: the working directory if there is one, the PID files by directory, the
  running processes, the signals sent, and which calls fail.  A signal reaches a process, finds none, or is
  refused.\<close>

datatype sig = SIGTERM | SIGKILL

record machine =
  mc_cwd :: "string option"
  mc_pid_files :: "string \<rightharpoonup> string"
  mc_no_write :: bool
  mc_no_read :: bool
  mc_no_remove :: bool
  mc_running :: "int set"
  mc_refuses :: "int set"
  mc_signals :: "(int \<times> sig) list"

datatype boot_error =
    NoCurrentDir
  | PidWriteFailed
  | PidReadFailed
  | PidInvalid
  | KillRefused
  | DaemonFailed
  | Panic
  | LoggingFailed
  | MapperFailed
  | ConfigFailed config_error
  | DbFailed db_error
  | AdminFailed

definition write_pid_file :: "nat \<Rightarrow> machine \<Rightarrow> (boot_error + unit) \<times> machine" where
  "write_pid_file pid m =
     (case mc_cwd m of
        None \<Rightarrow> (Inl NoCurrentDir, m)
      | Some d \<Rightarrow>
          if mc_no_write m then (Inl PidWriteFailed, m)
          else (Inr (), m\<lparr>mc_pid_files := (mc_pid_files m)(d \<mapsto> nat_str pid)\<rparr>))"

text \<open>\<^verbatim>\<open>str::parse::<i32>\<close>.\<close>

definition parse_i32 :: "string \<Rightarrow> int option" where
  "parse_i32 s =
     (case strip_prefix s ''-'' of
        Some ds \<Rightarrow>
          if ds \<noteq> [] \<and> list_all is_digit ds \<and> digits_value ds \<le> 2 ^ 31 then Some (- int (digits_value ds)) else None
      | None \<Rightarrow> map_option int (parse_unsigned 31 s))"

definition remove_pid_file :: "string \<Rightarrow> machine \<Rightarrow> machine" where
  "remove_pid_file d m = (if mc_no_remove m then m else m\<lparr>mc_pid_files := (mc_pid_files m)(d := None)\<rparr>)"

definition stop_process :: "int \<Rightarrow> bool \<Rightarrow> string \<Rightarrow> machine \<Rightarrow> (boot_error + unit) \<times> machine" where
  "stop_process pid force d m =
     (if pid \<in> mc_refuses m then (Inl KillRefused, m)
      else if pid \<in> mc_running m
      then (Inr (), m\<lparr>mc_signals := mc_signals m @ [(pid, if force then SIGKILL else SIGTERM)]\<rparr>)
      else (Inr (), remove_pid_file d m))"

definition handle_stop :: "bool \<Rightarrow> machine \<Rightarrow> (boot_error + unit) \<times> machine" where
  "handle_stop force m =
     (case mc_cwd m of
        None \<Rightarrow> (Inl NoCurrentDir, m)
      | Some d \<Rightarrow>
          (case mc_pid_files m d of
             None \<Rightarrow> (Inr (), m)
           | Some pid_str \<Rightarrow>
               if mc_no_read m then (Inl PidReadFailed, m)
               else case parse_i32 (trim pid_str) of
                      None \<Rightarrow> (Inl PidInvalid, m)
                    | Some pid \<Rightarrow>
                        (case stop_process pid force d m of
                           (Inl e, m') \<Rightarrow> (Inl e, m')
                         | (Inr _, m') \<Rightarrow> (Inr (), remove_pid_file d m'))))"

section \<open>The start of the server\<close>

text \<open>The steps of \<^verbatim>\<open>run_server\<close> up to the tasks it spawns, with the process environment, the database and the tables
  they work on; daemonizing, logging and the bucket mapper succeed or fail.\<close>

record 'd boot_env =
  bo_env :: process_env
  bo_daemon :: bool
  bo_logging :: bool
  bo_mapper :: bool
  bo_features :: "db_type set"
  bo_drivers :: "db_type \<Rightarrow> 'd db_driver"
  bo_auth :: auth_env
  bo_pid :: nat

record 'd boot_state =
  bs_machine :: machine
  bs_files :: db_files
  bs_db :: 'd
  bs_auth :: auth_state

definition boot_auth :: "'d boot_env \<Rightarrow> env_var \<Rightarrow> 'd boot_state \<Rightarrow> (boot_error + auth_manager) \<times> 'd boot_state" where
  "boot_auth be v s =
     (let (am, a) = auth_manager_new (bo_auth be) (env_auth_required v) (admin_password v) True (bs_auth s) in
      case init_admin_user (bo_auth be) (env_auth_required v) (admin_username v) (admin_password v) a of
        (None, a') \<Rightarrow> (Inl AdminFailed, s\<lparr>bs_auth := a'\<rparr>)
      | (Some _, a') \<Rightarrow> (Inr am, s\<lparr>bs_auth := a'\<rparr>))"

definition boot_database ::
  "'d boot_env \<Rightarrow> env_var \<Rightarrow> 'd boot_state \<Rightarrow> (boot_error + unit) \<times> 'd boot_state" where
  "boot_database be v s =
     (case env_validate v of
        Inl e \<Rightarrow> (Inl (ConfigFailed e), s)
      | Inr _ \<Rightarrow>
          (case db_connection_new (bo_features be) (bo_drivers be) (db_url v) (bs_files s, bs_db s) of
             (Inl e, f, d) \<Rightarrow> (Inl (DbFailed e), s\<lparr>bs_files := f, bs_db := d\<rparr>)
           | (Inr _, f, d) \<Rightarrow> (Inr (), s\<lparr>bs_files := f, bs_db := d\<rparr>)))"

definition run_server ::
  "'d boot_env \<Rightarrow> string option \<Rightarrow> bool \<Rightarrow> 'd boot_state \<Rightarrow> (boot_error + auth_manager) \<times> 'd boot_state" where
  "run_server be log_dir daemon s =
     (if daemon \<and> \<not> bo_daemon be then (Inl DaemonFailed, s)
      else case write_pid_file (bo_pid be) (bs_machine s) of
        (Inl e, m) \<Rightarrow> (Inl e, s\<lparr>bs_machine := m\<rparr>)
      | (Inr _, m) \<Rightarrow>
          (let s = s\<lparr>bs_machine := m\<rparr> in
           if log_dir = None \<and> mc_cwd m = None then (Inl Panic, s)
           else if \<not> bo_logging be then (Inl LoggingFailed, s)
           else if mc_cwd m = None then (Inl NoCurrentDir, s)
           else if \<not> bo_mapper be then (Inl MapperFailed, s)
           else let v = env_initialize (bo_env be) in
             case boot_database be v s of
               (Inl e, s) \<Rightarrow> (Inl e, s)
             | (Inr _, s) \<Rightarrow> boot_auth be v s))"

section \<open>Lemmas\<close>

lemma drop_all_none: "\<forall>w\<in>set ws. \<not> starts_with s w \<Longrightarrow> drop_all ws s = s"
  by (subst drop_all.simps) (auto simp: find_None_iff [THEN iffD2])

lemma trim_digits:
  assumes "list_all is_digit s"
  shows "trim s = s"
proof -
  have ws: "hd w \<notin> Collect is_digit" "last w \<notin> Collect is_digit" "w \<noteq> []" if "w \<in> set white_spaces" for w
    using that by (auto simp: white_spaces_def is_digit_def)
  have first: "\<not> starts_with t w" if "list_all is_digit t" "w \<noteq> []" "\<not> is_digit (hd w)" for t w
    using that by (cases w; cases t) auto
  have "drop_all white_spaces s = s" using ws first [OF assms] by (intro drop_all_none) auto
  moreover have "drop_all (map rev white_spaces) (rev s) = rev s"
    using ws first [of "rev s"] assms by (intro drop_all_none) (auto simp: hd_rev)
  ultimately show ?thesis by (simp add: trim_def)
qed

lemma parse_i32_nat_str: "n < 2 ^ 31 \<Longrightarrow> parse_i32 (trim (nat_str n)) = Some (int n)"
proof -
  assume n: "n < 2 ^ 31"
  have d: "list_all is_digit (nat_str n)" "nat_str n \<noteq> []" using nat_str_digits by auto
  then have "strip_prefix (nat_str n) ''-'' = None"
    by (cases "nat_str n") (auto simp: strip_prefix_def is_digit_def)
  with parse_nat_str [OF n] show ?thesis by (simp add: parse_i32_def trim_digits [OF d(1)])
qed

text \<open>The admin user exists once its initialisation has succeeded.\<close>

lemma found_user_exists:
  "auth_get_user_id_by_username name a = (Some (Some i), a') \<Longrightarrow> \<exists>u\<in>set (users a'). u_username u = name"
  by (auto simp: auth_get_user_id_by_username_def db_call_def find_Some_iff split: list.splits bool.splits dest: nth_mem)

lemma inserted_user_exists:
  "auth_insert_user i name phc t a = (Some (), a') \<Longrightarrow> \<exists>u\<in>set (users a'). u_username u = name"
  by (auto simp: auth_insert_user_def db_call_def split: list.splits bool.splits if_splits)

lemma init_admin_user_exists:
  assumes "init_admin_user ae True name (Some pw) a = (Some (), a')"
  shows "\<exists>u\<in>set (users a'). u_username u = name"
proof -
  obtain found a1 where f: "auth_get_user_id_by_username name a = (Some found, a1)"
    using assms by (cases "auth_get_user_id_by_username name a")
      (auto simp: init_admin_user_def stmt_then_def split: option.splits)
  show ?thesis
  proof (cases found)
    case (Some i)
    with f assms have "a' = a1" by (simp add: init_admin_user_def stmt_then_def stmt_ok_def)
    with f Some show ?thesis using found_user_exists by blast
  next
    case None
    with f assms obtain i phc t a2 where "auth_insert_user i name phc t a2 = (Some (), a')"
      by (auto simp: init_admin_user_def stmt_then_def split: option.splits prod.splits)
    then show ?thesis by (rule inserted_user_exists)
  qed
qed

lemma run_server_stages:
  assumes "run_server be log_dir daemon s = (Inr am, s')"
  obtains s1 s2 where "boot_database be (env_initialize (bo_env be)) s1 = (Inr (), s2)"
    "boot_auth be (env_initialize (bo_env be)) s2 = (Inr am, s')"
  using assms by (auto simp: run_server_def Let_def split: prod.splits sum.splits if_splits)

section \<open>Properties\<close>

text \<open>C36: A shutdown reaches everyone: in every interleaving of tasks that wait and tasks that shut down, once the first
  shutdown call has returned each waiting task, whatever it was doing, is released by steps of its own; and
  none is released before.\<close>

theorem shutdown_releases_waiters:
  assumes "sd_step\<^sup>*\<^sup>* (shutdown_init n k) s"
  shows "(Released \<in> set (sd_waiters s) \<longrightarrow> sd_flag s) \<and>
    (sd_flag s \<and> Swapped False \<notin> set (sd_triggers s) \<longrightarrow>
       (\<forall>i<length (sd_waiters s). sd_step\<^sup>*\<^sup>* s (s\<lparr>sd_waiters := (sd_waiters s)[i := Released]\<rparr>)))"
  using sd_inv_reachable [OF assms] sd_release by (auto simp: sd_inv_def)

definition demo_down :: shutdown_state where
  "demo_down = \<lparr>sd_flag = True, sd_rounds = 1, sd_waiters = [NotYet], sd_triggers = [Triggered]\<rparr>"

theorem shutdown_releases_waiters_witness:
  "sd_step\<^sup>*\<^sup>* (shutdown_init 1 1) demo_down \<and> sd_step\<^sup>*\<^sup>* demo_down (demo_down\<lparr>sd_waiters := [Released]\<rparr>)"
proof -
  let ?s = "\<lparr>sd_flag = True, sd_rounds = 0, sd_waiters = [NotYet], sd_triggers = [Swapped False]\<rparr>"
  have "sd_step (shutdown_init 1 1) ?s" "sd_step ?s demo_down"
    using sd_step.Swap [of 0 "shutdown_init 1 1"] sd_step.Notify [of 0 ?s False]
    by (simp_all add: shutdown_init_def demo_down_def)
  then have "sd_step\<^sup>*\<^sup>* (shutdown_init 1 1) demo_down" by (meson r_into_rtranclp rtranclp.rtrancl_into_rtrancl)
  from shutdown_releases_waiters [OF this] this show ?thesis by (simp add: demo_down_def)
qed

text \<open>The stop command signals the server that was started in its directory, and only it, once, and removes the PID
  file.\<close>

theorem stop_signals_started:
  assumes "write_pid_file pid m = (Inr (), m1)" and "pid < 2 ^ 31" and "int pid \<in> mc_running m - mc_refuses m"
    and "\<not> mc_no_read m" and "\<not> mc_no_remove m"
  shows "\<exists>d m2. mc_cwd m = Some d \<and> handle_stop force m1 = (Inr (), m2) \<and>
    mc_signals m2 = mc_signals m @ [(int pid, if force then SIGKILL else SIGTERM)] \<and>
    mc_pid_files m2 = (mc_pid_files m)(d := None)"
  using assms parse_i32_nat_str [OF assms(2)]
  by (auto simp: write_pid_file_def handle_stop_def stop_process_def remove_pid_file_def split: option.splits if_splits)

definition demo_machine :: machine where
  "demo_machine = \<lparr>mc_cwd = Some ''/srv'', mc_pid_files = Map.empty, mc_no_write = False, mc_no_read = False,
     mc_no_remove = False, mc_running = {42, 43}, mc_refuses = {}, mc_signals = []\<rparr>"

theorem stop_signals_started_witness:
  "\<exists>m2. handle_stop False (snd (write_pid_file 42 demo_machine)) = (Inr (), m2) \<and> mc_signals m2 = [(42, SIGTERM)] \<and>
    mc_pid_files m2 = Map.empty"
proof -
  have "write_pid_file 42 demo_machine = (Inr (), snd (write_pid_file 42 demo_machine))"
    by (simp add: write_pid_file_def demo_machine_def)
  from stop_signals_started [OF this, of False] show ?thesis by (auto simp: demo_machine_def)
qed

text \<open>C35: A server that starts has understood its configuration: it asks for a password exactly if the environment says
  so, and then a password is configured, the admin user exists, and only passwords that verify against a hash of
  the configured one are right.\<close>

theorem server_starts_configured:
  assumes "run_server be log_dir daemon s = (Inr am, s')"
  shows "env_validate (env_initialize (bo_env be)) = Inr () \<and>
    (auth_required am \<longleftrightarrow> (\<exists>raw. bo_env be ''LINASTORE_AUTH_REQUIRED'' = Some raw \<and> parse_truthy raw = Some True)) \<and>
    (auth_required am \<longrightarrow> (\<exists>pw. bo_env be ''LINASTORE_ADMIN_PASSWORD'' = Some pw \<and> trim pw \<noteq> [] \<and>
       (\<exists>u\<in>set (users (bs_auth s')). u_username u = admin_username (env_initialize (bo_env be))) \<and>
       (\<forall>x. verify_password (bo_auth be) am x \<longrightarrow>
          (\<exists>k phc. argon_hash (bo_auth be) k pw = Some phc \<and> argon_verify (bo_auth be) x phc))))"
proof -
  let ?v = "env_initialize (bo_env be)" and ?ae = "bo_auth be"
  obtain s1 s2 where st: "boot_database be ?v s1 = (Inr (), s2)" "boot_auth be ?v s2 = (Inr am, s')"
    using run_server_stages [OF assms] .
  have valid: "env_validate ?v = Inr ()" using st(1) by (auto simp: boot_database_def split: sum.splits)
  obtain a where am: "auth_manager_new ?ae (env_auth_required ?v) (admin_password ?v) True (bs_auth s2) = (am, a)"
    and init: "init_admin_user ?ae (env_auth_required ?v) (admin_username ?v) (admin_password ?v) a = (Some (), bs_auth s')"
    using st(2) by (auto simp: boot_auth_def Let_def split: prod.splits option.splits)
  have required: "auth_required am = env_auth_required ?v"
    using am by (auto simp: auth_manager_new_def Let_def split: prod.splits)
  have on: "env_auth_required ?v \<longleftrightarrow> (\<exists>raw. bo_env be ''LINASTORE_AUTH_REQUIRED'' = Some raw \<and> parse_truthy raw = Some True)"
    unfolding env_initialize_sel by (rule auth_flag_on)
  have "\<exists>pw. bo_env be ''LINASTORE_ADMIN_PASSWORD'' = Some pw \<and> trim pw \<noteq> [] \<and>
       (\<exists>u\<in>set (users (bs_auth s')). u_username u = admin_username ?v) \<and>
       (\<forall>x. verify_password ?ae am x \<longrightarrow> (\<exists>k phc. argon_hash ?ae k pw = Some phc \<and> argon_verify ?ae x phc))"
    if r: "env_auth_required ?v"
  proof -
    obtain pw where pw: "admin_password ?v = Some pw" using valid r by (auto simp: env_validate_def split: if_splits)
    then have "bo_env be ''LINASTORE_ADMIN_PASSWORD'' = Some pw \<and> trim pw \<noteq> []"
      by (auto simp: env_initialize_sel read_admin_password_from_env_def split: if_splits option.splits)
    moreover have "\<exists>u\<in>set (users (bs_auth s')). u_username u = admin_username ?v"
      using init init_admin_user_exists r pw by simp
    moreover have "\<exists>k phc. argon_hash ?ae k pw = Some phc \<and> argon_verify ?ae x phc" if "verify_password ?ae am x" for x
      using that am r pw
      by (auto simp: verify_password_def auth_manager_new_def Let_def hash_password_argon2_def split: prod.splits option.splits if_splits)
        blast
    ultimately show ?thesis by blast
  qed
  with valid required on show ?thesis by auto
qed

definition demo_boot :: "bool boot_env" where
  "demo_boot = \<lparr>bo_env = [''LINASTORE_AUTH_REQUIRED'' \<mapsto> ''yes'', ''LINASTORE_ADMIN_PASSWORD'' \<mapsto> ''pw''],
     bo_daemon = True, bo_logging = True, bo_mapper = True, bo_features = {}, bo_drivers = (\<lambda>_. demo_driver),
     bo_auth = demo_auth_env, bo_pid = 42\<rparr>"

definition demo_boot_state :: "bool boot_state" where
  "demo_boot_state = \<lparr>bs_machine = demo_machine,
     bs_files = \<lparr>df_dirs = {}, df_files = {}, df_no_dir = {}, df_no_file = {}\<rparr>, bs_db = True, bs_auth = demo_auth\<rparr>"

lemma demo_sqlite:
  "\<exists>f'. ensure_sqlite_parent_dir ''sqlite://./linadata/meta.db''
     \<lparr>df_dirs = {}, df_files = {}, df_no_dir = {}, df_no_file = {}\<rparr> = (Inr (), f')"
proof -
  have "sqlite_path ''sqlite://./linadata/meta.db'' = Some ''./linadata/meta.db''" by code_simp
  then show ?thesis
    by (auto simp: ensure_sqlite_parent_dir_def Let_def create_dir_all_def split: option.splits)
qed

lemma demo_boot_starts: "\<exists>am s'. run_server demo_boot None True demo_boot_state = (Inr am, s')"
proof -
  let ?v = "env_initialize (bo_env demo_boot)" and ?url = "''sqlite://./linadata/meta.db''"
  have t: "parse_truthy ''yes'' = Some True" "trim ''pw'' \<noteq> []" "db_type_from_url ?url = SQLite"
    "run_migrations demo_driver True = (Inr (), True)" by code_simp+
  have v: "env_auth_required ?v" "admin_password ?v = Some ''pw''" "admin_username ?v = ''admin''" "db_url ?v = ?url"
    "env_validate ?v = Inr ()"
    using t by (simp_all add: env_validate_def env_initialize_def demo_boot_def admin_credentials_def auth_flag_def payload_size_def
        read_admin_password_from_env_def var_or_def Let_def)
  have b: "bo_drivers demo_boot = (\<lambda>_. demo_driver)" "bo_features demo_boot = {}" by (simp_all add: demo_boot_def)
  have conn: "dd_connect demo_driver d" for d by (simp add: demo_driver_def)
  have db: "\<exists>s2. boot_database demo_boot ?v s1 = (Inr (), s2) \<and> bs_auth s2 = bs_auth s1"
    if "bs_db s1" "bs_files s1 = \<lparr>df_dirs = {}, df_files = {}, df_no_dir = {}, df_no_file = {}\<rparr>" for s1
    using demo_sqlite t(3,4) that
    by (auto simp: boot_database_def v(4,5) db_connection_new_def Let_def b conn)
  have auth: "\<exists>am s'. boot_auth demo_boot ?v s2 = (Inr am, s')" if "bs_auth s2 = demo_auth" for s2
    unfolding boot_auth_def v(2,3) using v(1) that
    by (simp add: auth_manager_new_def init_admin_user_def stmt_then_def hash_password_argon2_def demo_boot_def
        auth_get_user_id_by_username_def auth_insert_user_def db_call_def draw_uuid_def system_time_def demo_auth_def
        demo_auth_env_def Let_def)
  let ?s1 = "demo_boot_state\<lparr>bs_machine := snd (write_pid_file 42 demo_machine)\<rparr>"
  obtain s2 where s2: "boot_database demo_boot ?v ?s1 = (Inr (), s2)" "bs_auth s2 = demo_auth"
    using db [of ?s1] by (auto simp: demo_boot_state_def)
  from auth [OF s2(2)] s2(1) show ?thesis
    by (auto simp: run_server_def Let_def write_pid_file_def demo_machine_def demo_boot_state_def demo_boot_def)
qed

theorem server_starts_configured_witness:
  "\<exists>am s'. run_server demo_boot None True demo_boot_state = (Inr am, s') \<and> auth_required am \<and>
    (\<exists>u\<in>set (users (bs_auth s')). u_username u = ''admin'')"
proof -
  have t: "parse_truthy ''yes'' = Some True" by code_simp
  obtain am s' where r: "run_server demo_boot None True demo_boot_state = (Inr am, s')" using demo_boot_starts by blast
  have "auth_required am" using server_starts_configured [OF r] t by (simp add: demo_boot_def)
  moreover have "admin_username (env_initialize (bo_env demo_boot)) = ''admin''"
    using t by (simp add: env_initialize_def demo_boot_def admin_credentials_def auth_flag_def payload_size_def Let_def)
  ultimately show ?thesis using server_starts_configured [OF r] r by auto
qed

end
