(* ===== verification/Spec2Isabelle.thy ===== *)
theory Spec2Isabelle
  imports Lina_System Lina_Fuse_Thms Lina_Client_Thms Lina_Tidy Lina_Boot
begin

text \<open>
  A verification of LiNaStore, a content-addressed object store with a server in front of it, a FUSE file
  system and clients.  Source files are named relative to \<^verbatim>\<open>src/\<close>.

  \<^bold>\<open>The program.\<close>  \<^verbatim>\<open>linabase\<close> is the store: names are links to sources, a source is a payload file
  with a reference count and a BLAKE3 hash, equal contents share a source, payloads may be compressed in
  blocks, and three SQLite tables hold the records.  \<^verbatim>\<open>linastore-server\<close> runs three front ends (an HTTP and
  an S3 service and a binary protocol with a password handshake).  A front end resolves a bucket and key to an
  internal name with the bucket mapper, registers a waiter, puts an order on a bounded queue and waits; the
  porter takes orders off the queue and starts workers, which call the store and send the answer to the
  waiter's one-shot channel.  \<^verbatim>\<open>linafs\<close> mounts a store as a file system, and \<^verbatim>\<open>client/python\<close> speaks the
  binary protocol.

  \<^bold>\<open>Style.\<close>  A Rust \<^verbatim>\<open>Result\<close> is a sum with the error on the left, state is passed explicitly, machine
  integers are words where they can wrap, strings are the bytes of their UTF-8 form.  Every database
  statement and file-system call may fail: the state holds a script of faults and a call takes one entry off
  it, so a theorem about all scripts covers every pattern of failing calls.  Concurrency is a step relation
  over atomic steps (a critical section of a mutex, an atomic access, the registration of a future).
  Panics and the misuse of an \<^verbatim>\<open>unsafe\<close> block are values of the error type.

  \<^bold>\<open>Theories and sources.\<close>

  \<^item> \<open>Lina_Prelude\<close>: types, errors and the functions of the standard libraries that the sources call
    (slices, strings, paths, UTF-8, little-endian integers), with their lemmas.
  \<^item> \<open>Lina_Codec\<close> (\<^verbatim>\<open>linabase/src/utils.rs\<close>): \<open>BlockManager\<close> and hashing.  \<open>compress_all\<close> and
    \<open>decompress_all\<close> write to a buffer of possibly uninitialised bytes as the \<^verbatim>\<open>unsafe\<close> code does; the
    round trip holds and the contract of the unsafe block is kept.  The interface \<open>block_codec\<close> gives the
    store what it needs of them.
  \<^item> \<open>Lina_World\<close>, \<open>Lina_Dao\<close> (\<^verbatim>\<open>linabase/src/dao.rs\<close>): the tables, payload files and faults, and one
    definition per statement with the constraints of the schema.
  \<^item> \<open>Lina_Store\<close> (\<^verbatim>\<open>linabase/src/service.rs\<close>): every operation of \<open>StoreManager\<close>, with its rollback code.
    \<open>Lina_Store_Spec\<close> is the abstract store: maps with an invariant (reference counts are the numbers of
    links, every source has a payload with its hash) and the map from names to contents they represent.
    \<open>Lina_Store_Wp\<close> is a weakest-precondition calculus with a rule per statement, \<open>Lina_Store_Props\<close>
    shows that put and delete implement the specification, also while one call fails and the rollback
    runs, and \<open>Lina_Store_Frame\<close> that under any faults other names keep their contents.
    \<open>Lina_Store_Thms\<close> has the theorems and the interface \<open>object_store\<close>, the laws of a map with put,
    get and delete, which the workers and the FUSE file system rest on.
  \<^item> \<open>Lina_Tidy\<close> (\<^verbatim>\<open>linabase/src/service.rs\<close>, \<open>TidyManager\<close>): replacing duplicate files by links; no content
    is lost whatever fails, and duplicates are replaced.
  \<^item> \<open>Lina_Protocol\<close> (\<^verbatim>\<open>dtos.rs\<close> and the reading half of \<^verbatim>\<open>front/advanced_service.rs\<close>): messages; round
    trip for every way the bytes are split into reads, and soundness of what is accepted.
  \<^item> \<open>Lina_Conveyer\<close> (\<^verbatim>\<open>conveyer.rs\<close>): queue and waiter registry; invariant over all interleavings, and an
    answer only reaches the request it belongs to.  The interface \<open>drop_oldest_queue\<close> states the bounded
    queue.
  \<^item> \<open>Lina_Porter\<close> (\<^verbatim>\<open>porter.rs\<close>): one worker refines the store and always answers; the loop loses no
    wake-up and ends on shutdown.
  \<^item> \<open>Lina_Auth\<close> (\<^verbatim>\<open>auth.rs\<close>, statements of \<^verbatim>\<open>db/mod.rs\<close>): handshake, sessions, rate limiter; a valid token
    comes from a handshake with the right password and has not expired.
  \<^item> \<open>Lina_Mapper\<close> (\<^verbatim>\<open>mapper.rs\<close>): the table of internal names, as the interface \<open>key_index\<close>.
  \<^item> \<open>Lina_Server\<close>: the state of the server and the exchange of a request with the workers.  \<open>Lina_S3\<close>,
    \<open>Lina_Http\<close> and \<open>Lina_Waitress\<close> (\<^verbatim>\<open>front/s3_service.rs\<close>, \<^verbatim>\<open>http_service.rs\<close>, \<^verbatim>\<open>advanced_service.rs\<close>)
    are the front ends, each with its refinement to the map from bucket and key to contents;
    \<open>Lina_System\<close> puts them on one server.
  \<^item> \<open>Lina_Config\<close> (\<^verbatim>\<open>vars.rs\<close>, \<^verbatim>\<open>db/mod.rs\<close>) and \<open>Lina_Boot\<close> (\<^verbatim>\<open>utils.rs\<close>, \<^verbatim>\<open>shutdown.rs\<close>):
    configuration, opening the database and migrations, the start of the server, the PID file and the stop
    command, and the shutdown flag with the tasks that wait for it.
  \<^item> \<open>Lina_Fuse\<close>, \<open>Lina_Fuse_Thms\<close> (\<^verbatim>\<open>linafs/src/fuse.rs\<close>): the requests of the file system; reads and
    writes refine one byte sequence per file, listings are exact.
  \<^item> \<open>Lina_Client\<close>, \<open>Lina_Client_Thms\<close> (\<^verbatim>\<open>client/python/lina_client.py\<close>): the client, and its
    requests against the server and store of the other theories.

  The theorem of this theory is the one that spans all of the server.  Where the code deviates from what it
  means to do, the theorem states what it does: the second write to a bound key is lost, an upload without a token loses its first bytes,
  a rename to the same name deletes.

  \<^bold>\<open>Third-party code\<close> is a parameter, collected in records (\<open>env\<close>, \<open>auth_env\<close>, \<open>server_env\<close>, \<open>fuse_env\<close>,
  \<open>client_env\<close>, \<open>tidy_env\<close>, \<open>boot_env\<close>).  What is assumed of it: gzip decodes what it has encoded
  (\<open>gzip_lawful\<close>); no stored payload has the hash of different new data (\<open>no_collision\<close>); identifiers and
  UUIDs do not repeat (\<open>supply_lawful\<close>, \<open>uuids_fresh\<close>); the inode numbers of different stored names
  differ (\<open>fuse_inv\<close>); a migrator that succeeds leaves its records.  CRC32, SHA-256, Argon2 and AES-GCM are arbitrary
  functions, with the decryption of an encryption where a client's upload needs it.  Each theorem with such
  a hypothesis is applied to concrete functions in its witness.

  \<^bold>\<open>Bounds.\<close>  Generators are functions of the number of values drawn before, and are assumed not to repeat
  below a horizon (\<open>id_horizon\<close>, \<open>ev_horizon\<close>), any number; a request needs the few draws that are in its
  hypotheses.  Loops are structural recursion on the data they consume (reads of a connection, chunks, rows,
  directory entries) or have a termination proof, so no definition takes fuel.  A path is followed through at
  most forty symbolic links, as the operating system does.
  Repeated external events (failing calls, reads, wake-ups) are lists or step sequences of any length.

  \<^bold>\<open>Not modelled.\<close>  Binding and accepting sockets, spawning tasks (\<^verbatim>\<open>front/manager.rs\<close> and the accept loops),
  forking, log files, argument parsing, the Windows stop command and mounting through libfuse
  are operating system calls with no state of the program behind them.  The C, C++ and Java clients make the
  same requests as the Python client.  Log messages are left out.  Operations of the store run as one step
  each, since its lock serialises them; front ends that wait run against a parameter \<open>peers\<close>, and the
  refinement theorems take for it one turn of the porter and a worker.
\<close>

section \<open>The whole server\<close>

text \<open>C1: Requests that arrive through the HTTP, the S3 and the binary front end, in any mixture, are answered
  as by one table from bucket and key to object, and leave the server well-formed: what is stored through one
  front end is read back through every other.  The table differs from a plain map in that a key that was
  once given out keeps its object until an S3 DELETE frees the key.\<close>

theorem front_ends_refine_objects:
  assumes "server_ok E s" and "admissible_run E rs s"
  shows "\<exists>as s'. serve_run E rs s = (as, s') \<and> server_ok E s' \<and>
    objects_of E s' = fold spec_objects rs (objects_of E s) \<and> answered_run E rs (objects_of E s) as"
  by (rule serve_run_refines [OF assms])

theorem front_ends_refine_objects_witness:
  "\<exists>p s'. serve_run demo_server_env [S3Get ''bkt'' ''x.txt''] demo_server = ([Page p], s') \<and> rs_body p = [4]"
proof -
  have "admissible_run demo_server_env [S3Get ''bkt'' ''x.txt''] demo_server" by (simp add: uri_ok_def)
  from front_ends_refine_objects [OF demo_server_ok this] obtain as s' where
    as: "serve_run demo_server_env [S3Get ''bkt'' ''x.txt''] demo_server = (as, s')"
    "answered_run demo_server_env [S3Get ''bkt'' ''x.txt''] (objects_of demo_server_env demo_server) as" by blast
  then obtain a where "as = [a]" by (cases as; cases "tl as") auto
  with as show ?thesis by (cases a) (auto simp: objects_of_def demo_object_map)
qed

end
